(* ===== verification/Prelude.thy ===== *)
theory Prelude
  imports Main "HOL-Library.Word" "HOL-Library.AList" "HOL-Library.Monad_Syntax"
    "HOL-Library.Char_ord" "HOL-Library.List_Lexorder"
begin

text \<open>
  Shared vocabulary of the development: the machine integer types of the C++ code, the
  association lists that stand for its unordered containers with their lookup lemmas, and the
  lemma collections the components use.
\<close>

unbundle bit_operations_syntax

section \<open>Machine integers and lemma collections\<close>

type_synonym u8 = "8 word"
type_synonym u16 = "16 word"
type_synonym u32 = "32 word"
type_synonym u64 = "64 word"
type_synonym bytes = "u8 list"

named_theorems codec_rt \<open>reading back what the matching writer produced\<close>
named_theorems store_simps \<open>lookups after an insert or an erase\<close>

text \<open>The range of a C++ int on the supported platforms; arithmetic outside it is undefined.\<close>

definition INT_MAX :: int where
  "INT_MAX = 2147483647"

definition is_c_int :: "int \<Rightarrow> bool" where
  "is_c_int i \<longleftrightarrow> - 2147483648 \<le> i \<and> i \<le> INT_MAX"

lemma sint_of_c_int: "is_c_int i \<Longrightarrow> sint (word_of_int i :: u32) = i"
  by (simp add: is_c_int_def INT_MAX_def signed_of_int signed_take_bit_int_eq_self)

section \<open>Association lists as unordered containers\<close>

text \<open>
  A \<open>std::unordered_map\<close> is a list of key/value pairs with distinct keys: lookup is
  \<open>map_of\<close>, \<open>m[k] = v\<close> is \<open>AList.update\<close>, \<open>erase(k)\<close> is \<open>AList.delete\<close>. The list order
  is the iteration order, which the standard leaves open; lemmas quantify over every list.
\<close>

abbreviation put :: "'k \<Rightarrow> 'v \<Rightarrow> ('k \<times> 'v) list \<Rightarrow> ('k \<times> 'v) list" where
  "put \<equiv> AList.update"

abbreviation erase :: "'k \<Rightarrow> ('k \<times> 'v) list \<Rightarrow> ('k \<times> 'v) list" where
  "erase \<equiv> AList.delete"

abbreviation keys_distinct :: "('k \<times> 'v) list \<Rightarrow> bool" where
  "keys_distinct m \<equiv> distinct (map fst m)"

lemma map_of_put [simp, store_simps]: "map_of (put k v m) k' = (if k' = k then Some v else map_of m k')"
  by (simp add: update_conv')

lemma map_of_erase [simp, store_simps]: "map_of (erase k m) k' = (if k' = k then None else map_of m k')"
  by (simp add: delete_conv')

lemma keys_distinct_put [intro, simp]: "keys_distinct m \<Longrightarrow> keys_distinct (put k v m)"
  by (rule distinct_update)

lemma keys_distinct_erase [intro, simp]: "keys_distinct m \<Longrightarrow> keys_distinct (erase k m)"
  by (rule distinct_delete)

end
