(* ===== verification/Types.thy ===== *)
theory Types
  imports Prelude
begin

text \<open>
  The data of \<open>src/cpp/common/types.h\<close> and \<open>src/cpp/common/messages.h\<close>. Structures are records,
  enumerations datatypes. A C++ \<open>enum class\<close> variable may hold any value of its underlying
  type, and \<open>deserialize_message\<close> casts an unchecked byte into one: the constructors ending in
  \<open>_raw\<close> stand for the bytes outside the enumerators. \<open>int\<close> is an \<open>int\<close> whose range is the
  predicate \<open>is_c_int\<close>; \<open>size_t\<close> and \<open>uint64_t\<close> are \<open>u64\<close>.
\<close>

section \<open>Enumerations\<close>

datatype node_role = ORCHESTRATOR | PREFILL | DECODE | node_role_raw u8

datatype message_type =
    CLIENT_REQUEST | CLIENT_RESPONSE | CLIENT_ERROR | RDMA_PROCESS_REGISTRATION
  | ASSIGN_REQUEST | PREFILL_COMPLETE | PREPARE_DECODE_SLOT | BROADCAST_MEMBER_INFO
  | RDMA_REGISTRATION_COMPLETE | PREFILL_COMPLETE_ORCHESTRATOR | DECODE_COMPLETE
  | REQUEST_FAILED | RDMA_READY | TRANSFER_READY | KV_CHUNK_ARRIVED | KV_LAYER_ARRIVED
  | LAYER_READY_FOR_DECODE | KV_TRANSFER_COMPLETE | message_type_raw u8

datatype request_status =
    PENDING | PREFILLING | TRANSFERRING | DECODING | COMPLETED | FAILED | ERROR
  | request_status_raw u8

text \<open>The integer values the compiler gives the enumerators, in declaration order.\<close>

definition node_role_table :: "(node_role \<times> u8) list" where
  "node_role_table = [(ORCHESTRATOR, 0), (PREFILL, 1), (DECODE, 2)]"

definition message_type_table :: "(message_type \<times> u8) list" where
  "message_type_table =
    [(CLIENT_REQUEST, 0), (CLIENT_RESPONSE, 1), (CLIENT_ERROR, 2), (RDMA_PROCESS_REGISTRATION, 3),
     (ASSIGN_REQUEST, 4), (PREFILL_COMPLETE, 5), (PREPARE_DECODE_SLOT, 6),
     (BROADCAST_MEMBER_INFO, 7), (RDMA_REGISTRATION_COMPLETE, 8),
     (PREFILL_COMPLETE_ORCHESTRATOR, 9), (DECODE_COMPLETE, 10), (REQUEST_FAILED, 11),
     (RDMA_READY, 12), (TRANSFER_READY, 13), (KV_CHUNK_ARRIVED, 14), (KV_LAYER_ARRIVED, 15),
     (LAYER_READY_FOR_DECODE, 16), (KV_TRANSFER_COMPLETE, 17)]"

definition request_status_table :: "(request_status \<times> u8) list" where
  "request_status_table =
    [(PENDING, 0), (PREFILLING, 1), (TRANSFERRING, 2), (DECODING, 3), (COMPLETED, 4),
     (FAILED, 5), (ERROR, 6)]"

text \<open>\<open>static_cast<uint8_t>(e)\<close> and \<open>static_cast<E>(byte)\<close> over such a table.\<close>

definition enum_code :: "('e \<times> u8) list \<Rightarrow> ('e \<Rightarrow> u8) \<Rightarrow> 'e \<Rightarrow> u8" where
  "enum_code tab raw e = (case map_of tab e of Some b \<Rightarrow> b | None \<Rightarrow> raw e)"

definition enum_of_code :: "('e \<times> u8) list \<Rightarrow> (u8 \<Rightarrow> 'e) \<Rightarrow> u8 \<Rightarrow> 'e" where
  "enum_of_code tab raw b = (case map_of (map prod.swap tab) b of Some e \<Rightarrow> e | None \<Rightarrow> raw b)"

fun node_role_rawval :: "node_role \<Rightarrow> u8" where
  "node_role_rawval (node_role_raw b) = b" | "node_role_rawval _ = 0"

fun message_type_rawval :: "message_type \<Rightarrow> u8" where
  "message_type_rawval (message_type_raw b) = b" | "message_type_rawval _ = 0"

fun request_status_rawval :: "request_status \<Rightarrow> u8" where
  "request_status_rawval (request_status_raw b) = b" | "request_status_rawval _ = 0"

definition role_code :: "node_role \<Rightarrow> u8" where
  "role_code = enum_code node_role_table node_role_rawval"

definition role_of_code :: "u8 \<Rightarrow> node_role" where
  "role_of_code = enum_of_code node_role_table node_role_raw"

definition message_type_code :: "message_type \<Rightarrow> u8" where
  "message_type_code = enum_code message_type_table message_type_rawval"

definition message_type_of_code :: "u8 \<Rightarrow> message_type" where
  "message_type_of_code = enum_of_code message_type_table message_type_raw"

definition status_code :: "request_status \<Rightarrow> u8" where
  "status_code = enum_code request_status_table request_status_rawval"

definition status_of_code :: "u8 \<Rightarrow> request_status" where
  "status_of_code = enum_of_code request_status_table request_status_raw"

text \<open>A \<open>_raw\<close> value really is outside the enumerators.\<close>

fun role_ok :: "node_role \<Rightarrow> bool" where
  "role_ok (node_role_raw b) = (b \<notin> set (map snd node_role_table))" | "role_ok _ = True"

fun message_type_ok :: "message_type \<Rightarrow> bool" where
  "message_type_ok (message_type_raw b) = (b \<notin> set (map snd message_type_table))"
| "message_type_ok _ = True"

fun status_ok :: "request_status \<Rightarrow> bool" where
  "status_ok (request_status_raw b) = (b \<notin> set (map snd request_status_table))"
| "status_ok _ = True"

lemma role_of_code_code: "role_ok r \<Longrightarrow> role_of_code (role_code r) = r"
  by (cases r) (auto simp: role_of_code_def role_code_def enum_code_def enum_of_code_def
      node_role_table_def)

lemma message_type_of_code_code: "message_type_ok t \<Longrightarrow> message_type_of_code (message_type_code t) = t"
  by (cases t) (auto simp: message_type_of_code_def message_type_code_def enum_code_def
      enum_of_code_def message_type_table_def)

lemma status_of_code_code: "status_ok s \<Longrightarrow> status_of_code (status_code s) = s"
  by (cases s) (auto simp: status_of_code_def status_code_def enum_code_def enum_of_code_def
      request_status_table_def)

section \<open>Structures\<close>

record kv_meta_data =
  kv_num_layers :: u32
  kv_num_tokens :: u32

record peer_info_and_qps =
  pq_peer_node_id :: string
  pq_local_qp_num :: u32
  pq_local_lid :: u16
  pq_local_gid :: bytes
  pq_local_psn :: u32
  pq_remote_qp_num :: u32
  pq_remote_lid :: u16
  pq_remote_gid :: bytes
  pq_remote_psn :: u32
  pq_remote_rkey :: u64
  pq_remote_addr :: u64

record node_info =
  ni_node_id :: string
  ni_role :: node_role
  ni_ip_address :: string
  ni_tcp_port :: u16
  ni_own_orchestrator_fd :: int
  ni_other_node_fd :: "(string \<times> int) list"
  ni_vllm_port :: u16
  ni_is_healthy :: bool
  ni_gpu_id :: int
  ni_gpu_name :: string
  ni_gpu_numa :: int
  ni_gpu_mem_bytes :: u64
  ni_ib_dev_name :: string
  ni_ib_port :: int
  ni_ib_numa :: int
  ni_ib_speed_gbps :: u64
  ni_gpu_base_addr :: u64
  ni_lkey :: u64
  ni_rkey :: u64
  ni_memory_pool_size :: u64
  ni_qmaps :: "peer_info_and_qps list"

record request_info =
  ri_request_id :: string
  ri_prompt :: string
  ri_max_tokens :: int
  ri_prefill_node_id :: string
  ri_decode_node_id :: string
  ri_slot_id :: int
  ri_slot_base_offset :: u64
  ri_timestamp_created :: u64
  ri_timestamp_prefill_start :: u64
  ri_timestamp_prefill_done :: u64
  ri_timestamp_decode_start :: u64
  ri_timestamp_decode_done :: u64

record message =
  msg_transaction_id :: u64
  msg_timestamp :: u64
  msg_source_node_id :: string
  msg_type :: message_type
  msg_status :: request_status
  msg_request_info :: request_info
  msg_node_info :: node_info
  msg_membership_list_info :: "node_info list"
  msg_error_message :: string
  msg_kv_metadata :: kv_meta_data
  msg_response_text :: string

text \<open>
  \<open>Message()\<close> runs the member initialisers only: class members and \<open>slot_id\<close>,
  \<open>slot_base_offset\<close> get a value, every scalar keeps what the memory held. The argument
  \<open>g\<close> is that previous content.
\<close>

definition new_node_info :: "node_info \<Rightarrow> node_info" where
  "new_node_info g = g\<lparr>ni_node_id := [], ni_ip_address := [], ni_other_node_fd := [],
     ni_gpu_name := [], ni_ib_dev_name := [], ni_qmaps := []\<rparr>"

definition new_request_info :: "request_info \<Rightarrow> request_info" where
  "new_request_info g = g\<lparr>ri_request_id := [], ri_prompt := [], ri_prefill_node_id := [],
     ri_decode_node_id := [], ri_slot_id := -1, ri_slot_base_offset := 0\<rparr>"

definition new_message :: "message \<Rightarrow> message" where
  "new_message g = g\<lparr>msg_source_node_id := [], msg_request_info := new_request_info (msg_request_info g),
     msg_node_info := new_node_info (msg_node_info g), msg_membership_list_info := [],
     msg_error_message := [], msg_response_text := []\<rparr>"

end
