(* ===== verification/Wire.thy ===== *)
theory Wire
  imports Types
begin

text \<open>
  The wire format of \<open>src/cpp/common/messages.cpp\<close>. A writer returns the bytes the C++ function
  appends to its buffer; a reader takes the bytes between \<open>p\<close> and \<open>end\<close> and returns the value
  with the bytes that remain, or \<open>None\<close> where the C++ function returns \<open>false\<close>. The host is little
  endian, so \<open>htonl\<close> and \<open>ntohl\<close> reverse the four bytes of a word. \<open>resize\<close> on a count read from
  the wire is assumed to find the memory it asks for.
\<close>

section \<open>Interfaces: readers and codecs\<close>

type_synonym 'a reader = "bytes \<Rightarrow> ('a \<times> bytes) option"

text \<open>A reader that succeeds does not look at the bytes it leaves behind.\<close>

locale reader =
  fixes rd :: "bytes \<Rightarrow> ('a \<times> bytes) option"
  assumes rd_extend: "rd bs = Some (a, r) \<Longrightarrow> rd (bs @ t) = Some (a, r @ t)"

text \<open>A writer and a reader that agree on the values satisfying \<open>ok\<close>.\<close>

locale codec = reader rd for rd :: "bytes \<Rightarrow> ('a \<times> bytes) option" +
  fixes wr :: "'a \<Rightarrow> bytes" and ok :: "'a \<Rightarrow> bool"
  assumes rd_wr_only: "ok a \<Longrightarrow> rd (wr a) = Some (a, [])"
begin

lemma rd_wr: "ok a \<Longrightarrow> rd (wr a @ rest) = Some (a, rest)"
  using rd_extend [OF rd_wr_only, of a rest] by simp

lemma truncated_fails: "ok a \<Longrightarrow> n < length (wr a) \<Longrightarrow> rd (take n (wr a)) = None"
proof (rule ccontr)
  assume ok: "ok a" and n: "n < length (wr a)" and "rd (take n (wr a)) \<noteq> None"
  then obtain b r where "rd (take n (wr a)) = Some (b, r)" by auto
  from rd_extend [OF this, of "drop n (wr a)"] rd_wr_only [OF ok] n show False by simp
qed

lemma prefix_free: "ok a \<Longrightarrow> ok b \<Longrightarrow> wr a @ s = wr b @ t \<Longrightarrow> a = b \<and> s = t"
  by (metis rd_wr Pair_inject option.inject)

end

lemma reader_return [intro]: "reader (\<lambda>bs. Some (c, bs))"
  by unfold_locales simp

lemma reader_bind [intro]:
  assumes "reader f" and "\<And>a. reader (g a)"
  shows "reader (\<lambda>bs. f bs \<bind> (\<lambda>(a, r). g a r))"
proof
  fix bs a r t assume "f bs \<bind> (\<lambda>(a, r). g a r) = Some (a, r)"
  then obtain a' r' where "f bs = Some (a', r')" "g a' r' = Some (a, r)"
    by (auto simp: bind_eq_Some_conv)
  then show "f (bs @ t) \<bind> (\<lambda>(a, r). g a r) = Some (a, r @ t)"
    using reader.rd_extend [OF assms(1)] reader.rd_extend [OF assms(2)] by fastforce
qed

text \<open>Reading a counted sequence: \<open>resize(n)\<close>, then one read per element.\<close>

fun read_n :: "'a reader \<Rightarrow> nat \<Rightarrow> 'a list reader" where
  "read_n rd 0 bs = Some ([], bs)"
| "read_n rd (Suc n) bs =
     do { (x, bs) \<leftarrow> rd bs; (xs, bs) \<leftarrow> read_n rd n bs; Some (x # xs, bs) }"

lemma reader_read_n [intro]: "reader rd \<Longrightarrow> reader (read_n rd n)"
proof (induction n)
  case 0 show ?case by (simp add: reader_return [unfolded fun_eq_iff] reader_def)
next
  case (Suc n)
  then have "reader (\<lambda>bs. do { (x, bs) \<leftarrow> rd bs; (xs, bs) \<leftarrow> read_n rd n bs; Some (x # xs, bs) })"
    by (intro reader_bind reader_return)
  then show ?case by (simp add: reader_def)
qed

context codec
begin

lemma read_n_rd_wr:
  "list_all ok xs \<Longrightarrow> read_n rd (length xs) (concat (map wr xs) @ rest) = Some (xs, rest)"
  by (induction xs) (simp_all add: rd_wr)

end

section \<open>Bytes of machine words\<close>

definition htonl :: "u32 \<Rightarrow> u32" where
  "htonl v = push_bit 24 (v AND 0xFF) OR push_bit 8 (v AND 0xFF00)
     OR (drop_bit 8 v AND 0xFF00) OR drop_bit 24 v"

definition ntohl :: "u32 \<Rightarrow> u32" where
  "ntohl = htonl"

text \<open>The four bytes of a word in memory order on the little endian host, and back (\<open>memcpy\<close>).\<close>

definition mem_of_u32 :: "u32 \<Rightarrow> bytes" where
  "mem_of_u32 v = [ucast v, ucast (drop_bit 8 v), ucast (drop_bit 16 v), ucast (drop_bit 24 v)]"

definition u32_of_mem :: "bytes \<Rightarrow> u32" where
  "u32_of_mem bs = ucast (bs ! 0) OR push_bit 8 (ucast (bs ! 1))
     OR push_bit 16 (ucast (bs ! 2)) OR push_bit 24 (ucast (bs ! 3))"

definition byte_of_char :: "char \<Rightarrow> u8" where
  "byte_of_char c = word_of_nat (of_char c)"

definition char_of_byte :: "u8 \<Rightarrow> char" where
  "char_of_byte b = char_of (unat b)"

lemma char_of_byte_of_char [simp]: "char_of_byte (byte_of_char c) = c"
proof -
  have "(of_char c :: nat) < 256" by (rule nat_of_char_less_256)
  then show ?thesis by (simp add: char_of_byte_def byte_of_char_def unsigned_of_nat take_bit_nat_eq_self)
qed

section \<open>Low-level writers and readers\<close>

definition write_uint8 :: "u8 \<Rightarrow> bytes" where
  "write_uint8 v = [v]"

definition write_uint16 :: "u16 \<Rightarrow> bytes" where
  "write_uint16 v = [ucast (drop_bit 8 v), ucast (v AND 0xFF)]"

definition write_uint32 :: "u32 \<Rightarrow> bytes" where
  "write_uint32 v = mem_of_u32 (htonl v)"

definition write_uint64 :: "u64 \<Rightarrow> bytes" where
  "write_uint64 v = mem_of_u32 (htonl (ucast (drop_bit 32 v)))
     @ mem_of_u32 (htonl (ucast (v AND 0xFFFFFFFF)))"

definition write_string :: "string \<Rightarrow> bytes" where
  "write_string s = write_uint32 (word_of_nat (length s)) @ map byte_of_char s"

definition read_uint8 :: "u8 reader" where
  "read_uint8 bs = (if length bs < 1 then None else Some (hd bs, tl bs))"

definition read_uint16 :: "u16 reader" where
  "read_uint16 bs = (if length bs < 2 then None
     else Some (push_bit 8 (ucast (bs ! 0)) OR ucast (bs ! 1), drop 2 bs))"

definition read_uint32 :: "u32 reader" where
  "read_uint32 bs = (if length bs < 4 then None else Some (ntohl (u32_of_mem (take 4 bs)), drop 4 bs))"

definition read_uint64 :: "u64 reader" where
  "read_uint64 bs = (if length bs < 8 then None
     else Some (push_bit 32 (ucast (ntohl (u32_of_mem (take 4 bs))))
            OR ucast (ntohl (u32_of_mem (take 4 (drop 4 bs)))), drop 8 bs))"

definition read_string :: "string reader" where
  "read_string bs = do {
     (len, bs) \<leftarrow> read_uint32 bs;
     if unat len > length bs then None
     else Some (map char_of_byte (take (unat len) bs), drop (unat len) bs) }"

text \<open>The 16 raw bytes of a GID.\<close>

definition read_gid :: "bytes reader" where
  "read_gid bs = (if length bs < 16 then None else Some (take 16 bs, drop 16 bs))"

subsection \<open>Bit-level facts\<close>

lemma byte_masks:
  "(0xFF :: 'a::len word) = mask 8" "(0xFF00 :: 'a::len word) = push_bit 8 (mask 8)"
  "(0xFFFFFFFF :: 'a::len word) = mask 32"
  by (simp_all add: mask_eq_exp_minus_1 push_bit_eq_mult)

lemma bit_u32_of_mem:
  "bit (u32_of_mem [a, b, c, d]) n \<longleftrightarrow>
     (if n < 8 then bit a n else if n < 16 then bit b (n - 8)
      else if n < 24 then bit c (n - 16) else n < 32 \<and> bit d (n - 24))"
  by (auto simp: u32_of_mem_def bit_simps dest: bit_imp_le_length)

lemma u32_of_mem_of_u32 [simp]: "u32_of_mem (mem_of_u32 v) = v"
  by (rule bit_word_eqI) (auto simp: mem_of_u32_def bit_u32_of_mem bit_simps)

lemma byte_split:
  fixes n :: nat
  obtains "n < 8" | k where "n = 8 + k" "k < 8" | k where "n = 16 + k" "k < 8"
    | k where "n = 24 + k" "k < 8" | k where "n = 32 + k"
  using that(1) that(2) [of "n - 8"] that(3) [of "n - 16"] that(4) [of "n - 24"] that(5) [of "n - 32"]
  by linarith

lemma bit_htonl:
  "bit (htonl v) n \<longleftrightarrow> (if n < 8 then bit v (n + 24) else if n < 16 then bit v (n + 8)
     else if n < 24 then bit v (n - 8) else n < 32 \<and> bit v (n - 24))"
  by (cases n rule: byte_split)
    (auto simp: htonl_def byte_masks bit_simps add.commute dest: bit_imp_le_length)

lemma ntohl_htonl [simp]: "ntohl (htonl v) = v"
  by (rule bit_word_eqI) (auto simp: ntohl_def bit_htonl)

lemma u64_of_halves:
  "push_bit 32 (ucast (ucast (drop_bit 32 v) :: u32)) OR ucast (ucast (v AND 0xFFFFFFFF) :: u32) = (v::u64)"
  unfolding byte_masks
  by (rule bit_word_eqI) (auto simp: bit_simps)

lemma u16_of_bytes: "push_bit 8 (ucast (ucast (drop_bit 8 v) :: u8)) OR ucast (ucast (v AND 0xFF) :: u8) = (v::u16)"
  unfolding byte_masks
  by (rule bit_word_eqI) (auto simp: bit_simps)

section \<open>The leaf codecs\<close>

definition string_ok :: "string \<Rightarrow> bool" where
  "string_ok s \<longleftrightarrow> length s < 2 ^ 32"

lemma reader_uint8 [intro]: "reader read_uint8"
  by unfold_locales (auto simp: read_uint8_def hd_append split: if_splits)

lemma reader_uint16 [intro]: "reader read_uint16"
  by unfold_locales (auto simp: read_uint16_def nth_append split: if_splits)

lemma reader_uint32 [intro]: "reader read_uint32"
  by unfold_locales (auto simp: read_uint32_def split: if_splits)

lemma reader_uint64 [intro]: "reader read_uint64"
  by unfold_locales (auto simp: read_uint64_def split: if_splits)

lemma reader_gid [intro]: "reader read_gid"
  by unfold_locales (auto simp: read_gid_def split: if_splits)

lemma reader_string [intro]: "reader read_string"
  unfolding read_string_def
  by (intro reader_bind reader_uint32) (unfold_locales, auto split: if_splits)

interpretation uint8_codec: codec read_uint8 write_uint8 "\<lambda>_. True"
  by (intro codec.intro reader_uint8) (unfold_locales, simp add: read_uint8_def write_uint8_def)

interpretation uint16_codec: codec read_uint16 write_uint16 "\<lambda>_. True"
  by (intro codec.intro reader_uint16)
    (unfold_locales, simp add: read_uint16_def write_uint16_def u16_of_bytes)

interpretation uint32_codec: codec read_uint32 write_uint32 "\<lambda>_. True"
proof (intro codec.intro reader_uint32, unfold_locales)
  fix v :: u32
  have "length (write_uint32 v) = 4" by (simp add: write_uint32_def mem_of_u32_def)
  then show "read_uint32 (write_uint32 v) = Some (v, [])"
    by (simp add: read_uint32_def) (simp add: write_uint32_def)
qed

lemma length_mem_of_u32 [simp]: "length (mem_of_u32 v) = 4"
  by (simp add: mem_of_u32_def)

lemma length_write_uint32 [simp]: "length (write_uint32 v) = 4"
  by (simp add: write_uint32_def)

interpretation uint64_codec: codec read_uint64 write_uint64 "\<lambda>_. True"
  by (intro codec.intro reader_uint64)
    (unfold_locales, simp add: read_uint64_def write_uint64_def u64_of_halves)

interpretation string_codec: codec read_string write_string string_ok
proof (intro codec.intro reader_string, unfold_locales)
  fix s assume "string_ok s"
  then have len: "unat (word_of_nat (length s) :: u32) = length s"
    by (simp add: string_ok_def unsigned_of_nat take_bit_nat_eq_self)
  show "read_string (write_string s) = Some (s, [])"
    by (simp add: read_string_def write_string_def uint32_codec.rd_wr len comp_def)
qed

interpretation gid_codec: codec read_gid id "\<lambda>g. length g = 16"
  by (intro codec.intro reader_gid) (unfold_locales, simp add: read_gid_def)

declare uint8_codec.rd_wr [codec_rt] uint16_codec.rd_wr [codec_rt] uint32_codec.rd_wr [codec_rt]
  uint64_codec.rd_wr [codec_rt] string_codec.rd_wr [codec_rt]

lemma gid_rd_wr [codec_rt]: "length g = 16 \<Longrightarrow> read_gid (g @ rest) = Some (g, rest)"
  using gid_codec.rd_wr [of g rest] by simp

lemmas leaf_readers = reader_uint8 reader_uint16 reader_uint32 reader_uint64 reader_gid reader_string

section \<open>Structures\<close>

definition write_int :: "int \<Rightarrow> bytes" where
  "write_int i = write_uint32 (word_of_int i)"

definition read_int :: "int reader" where
  "read_int bs = do { (u, bs) \<leftarrow> read_uint32 bs; Some (sint u, bs) }"

definition write_peer_info :: "peer_info_and_qps \<Rightarrow> bytes" where
  "write_peer_info q =
     write_string (pq_peer_node_id q) @ write_uint32 (pq_local_qp_num q) @
     write_uint16 (pq_local_lid q) @ pq_local_gid q @ write_uint32 (pq_local_psn q) @
     write_uint32 (pq_remote_qp_num q) @ write_uint16 (pq_remote_lid q) @ pq_remote_gid q @
     write_uint32 (pq_remote_psn q) @ write_uint64 (pq_remote_rkey q) @
     write_uint64 (pq_remote_addr q)"

definition read_peer_info :: "peer_info_and_qps reader" where
  "read_peer_info bs = do {
     (peer, bs) \<leftarrow> read_string bs;
     (lqp, bs) \<leftarrow> read_uint32 bs;
     (llid, bs) \<leftarrow> read_uint16 bs;
     (lgid, bs) \<leftarrow> read_gid bs;
     (lpsn, bs) \<leftarrow> read_uint32 bs;
     (rqp, bs) \<leftarrow> read_uint32 bs;
     (rlid, bs) \<leftarrow> read_uint16 bs;
     (rgid, bs) \<leftarrow> read_gid bs;
     (rpsn, bs) \<leftarrow> read_uint32 bs;
     (rkey, bs) \<leftarrow> read_uint64 bs;
     (raddr, bs) \<leftarrow> read_uint64 bs;
     Some (\<lparr>pq_peer_node_id = peer, pq_local_qp_num = lqp, pq_local_lid = llid, pq_local_gid = lgid,
       pq_local_psn = lpsn, pq_remote_qp_num = rqp, pq_remote_lid = rlid, pq_remote_gid = rgid,
       pq_remote_psn = rpsn, pq_remote_rkey = rkey, pq_remote_addr = raddr\<rparr>, bs) }"

definition write_node_info :: "node_info \<Rightarrow> bytes" where
  "write_node_info n =
     write_string (ni_node_id n) @ write_uint8 (role_code (ni_role n)) @
     write_string (ni_ip_address n) @ write_uint16 (ni_tcp_port n) @ write_uint16 (ni_vllm_port n) @
     write_uint8 (if ni_is_healthy n then 1 else 0) @ write_int (ni_gpu_id n) @
     write_string (ni_gpu_name n) @ write_int (ni_gpu_numa n) @ write_uint64 (ni_gpu_mem_bytes n) @
     write_string (ni_ib_dev_name n) @ write_int (ni_ib_port n) @ write_int (ni_ib_numa n) @
     write_uint64 (ni_ib_speed_gbps n) @ write_uint64 (ni_gpu_base_addr n) @
     write_uint64 (ni_lkey n) @ write_uint64 (ni_rkey n) @ write_uint64 (ni_memory_pool_size n) @
     write_uint32 (word_of_nat (length (ni_qmaps n))) @ concat (map write_peer_info (ni_qmaps n))"

definition read_node_info :: "node_info reader" where
  "read_node_info bs = do {
     (node_id, bs) \<leftarrow> read_string bs;
     (role_byte, bs) \<leftarrow> read_uint8 bs;
     (ip, bs) \<leftarrow> read_string bs;
     (tcp, bs) \<leftarrow> read_uint16 bs;
     (vllm, bs) \<leftarrow> read_uint16 bs;
     (healthy_byte, bs) \<leftarrow> read_uint8 bs;
     (gpu_id, bs) \<leftarrow> read_int bs;
     (gpu_name, bs) \<leftarrow> read_string bs;
     (gpu_numa, bs) \<leftarrow> read_int bs;
     (gpu_mem, bs) \<leftarrow> read_uint64 bs;
     (ib_dev, bs) \<leftarrow> read_string bs;
     (ib_port, bs) \<leftarrow> read_int bs;
     (ib_numa, bs) \<leftarrow> read_int bs;
     (ib_speed, bs) \<leftarrow> read_uint64 bs;
     (base, bs) \<leftarrow> read_uint64 bs;
     (lkey, bs) \<leftarrow> read_uint64 bs;
     (rkey, bs) \<leftarrow> read_uint64 bs;
     (pool, bs) \<leftarrow> read_uint64 bs;
     (qmap_count, bs) \<leftarrow> read_uint32 bs;
     (qmaps, bs) \<leftarrow> read_n read_peer_info (unat qmap_count) bs;
     Some (\<lparr>ni_node_id = node_id, ni_role = role_of_code role_byte, ni_ip_address = ip,
       ni_tcp_port = tcp, ni_own_orchestrator_fd = -1, ni_other_node_fd = [], ni_vllm_port = vllm,
       ni_is_healthy = (healthy_byte \<noteq> 0), ni_gpu_id = gpu_id, ni_gpu_name = gpu_name,
       ni_gpu_numa = gpu_numa, ni_gpu_mem_bytes = gpu_mem, ni_ib_dev_name = ib_dev,
       ni_ib_port = ib_port, ni_ib_numa = ib_numa, ni_ib_speed_gbps = ib_speed,
       ni_gpu_base_addr = base, ni_lkey = lkey, ni_rkey = rkey, ni_memory_pool_size = pool,
       ni_qmaps = qmaps\<rparr>, bs) }"

definition write_request_info :: "request_info \<Rightarrow> bytes" where
  "write_request_info r =
     write_string (ri_request_id r) @ write_string (ri_prompt r) @ write_int (ri_max_tokens r) @
     write_string (ri_prefill_node_id r) @ write_string (ri_decode_node_id r) @
     write_int (ri_slot_id r) @ write_uint64 (ri_slot_base_offset r) @
     write_uint64 (ri_timestamp_created r) @ write_uint64 (ri_timestamp_prefill_start r) @
     write_uint64 (ri_timestamp_prefill_done r) @ write_uint64 (ri_timestamp_decode_start r) @
     write_uint64 (ri_timestamp_decode_done r)"

definition read_request_info :: "request_info reader" where
  "read_request_info bs = do {
     (rid, bs) \<leftarrow> read_string bs;
     (prompt, bs) \<leftarrow> read_string bs;
     (mt, bs) \<leftarrow> read_int bs;
     (pid, bs) \<leftarrow> read_string bs;
     (did, bs) \<leftarrow> read_string bs;
     (slot, bs) \<leftarrow> read_int bs;
     (off, bs) \<leftarrow> read_uint64 bs;
     (t1, bs) \<leftarrow> read_uint64 bs;
     (t2, bs) \<leftarrow> read_uint64 bs;
     (t3, bs) \<leftarrow> read_uint64 bs;
     (t4, bs) \<leftarrow> read_uint64 bs;
     (t5, bs) \<leftarrow> read_uint64 bs;
     Some (\<lparr>ri_request_id = rid, ri_prompt = prompt, ri_max_tokens = mt, ri_prefill_node_id = pid,
       ri_decode_node_id = did, ri_slot_id = slot, ri_slot_base_offset = off,
       ri_timestamp_created = t1, ri_timestamp_prefill_start = t2, ri_timestamp_prefill_done = t3,
       ri_timestamp_decode_start = t4, ri_timestamp_decode_done = t5\<rparr>, bs) }"

section \<open>Messages\<close>

definition serialize_message :: "message \<Rightarrow> bytes" where
  "serialize_message m =
     write_uint8 (message_type_code (msg_type m)) @ write_uint8 (status_code (msg_status m)) @
     write_uint64 (msg_transaction_id m) @ write_uint64 (msg_timestamp m) @
     write_string (msg_source_node_id m) @ write_request_info (msg_request_info m) @
     write_node_info (msg_node_info m) @
     write_uint32 (word_of_nat (length (msg_membership_list_info m))) @
     concat (map write_node_info (msg_membership_list_info m)) @
     write_string (msg_error_message m) @ write_uint32 (kv_num_layers (msg_kv_metadata m)) @
     write_uint32 (kv_num_tokens (msg_kv_metadata m)) @ write_string (msg_response_text m)"

text \<open>The body of \<open>deserialize_message\<close>; bytes left over are only logged.\<close>

definition read_message :: "message reader" where
  "read_message bs = do {
     (type_byte, bs) \<leftarrow> read_uint8 bs;
     (status_byte, bs) \<leftarrow> read_uint8 bs;
     (tid, bs) \<leftarrow> read_uint64 bs;
     (ts, bs) \<leftarrow> read_uint64 bs;
     (src, bs) \<leftarrow> read_string bs;
     (ri, bs) \<leftarrow> read_request_info bs;
     (ni, bs) \<leftarrow> read_node_info bs;
     (member_count, bs) \<leftarrow> read_uint32 bs;
     (members, bs) \<leftarrow> read_n read_node_info (unat member_count) bs;
     (err, bs) \<leftarrow> read_string bs;
     (layers, bs) \<leftarrow> read_uint32 bs;
     (tokens, bs) \<leftarrow> read_uint32 bs;
     (resp, bs) \<leftarrow> read_string bs;
     Some (\<lparr>msg_transaction_id = tid, msg_timestamp = ts, msg_source_node_id = src,
       msg_type = message_type_of_code type_byte, msg_status = status_of_code status_byte,
       msg_request_info = ri, msg_node_info = ni, msg_membership_list_info = members,
       msg_error_message = err, msg_kv_metadata = \<lparr>kv_num_layers = layers, kv_num_tokens = tokens\<rparr>,
       msg_response_text = resp\<rparr>, bs) }"

definition deserialize_message :: "bytes \<Rightarrow> message option" where
  "deserialize_message data = (if data = [] then None else map_option fst (read_message data))"

section \<open>The structure codecs\<close>

text \<open>What fits the wire: lengths below \<open>2^32\<close>, integers in range, 16-byte GIDs.\<close>

definition peer_info_ok :: "peer_info_and_qps \<Rightarrow> bool" where
  "peer_info_ok q \<longleftrightarrow> string_ok (pq_peer_node_id q) \<and> length (pq_local_gid q) = 16
     \<and> length (pq_remote_gid q) = 16"

definition node_info_ok :: "node_info \<Rightarrow> bool" where
  "node_info_ok n \<longleftrightarrow> string_ok (ni_node_id n) \<and> role_ok (ni_role n) \<and> string_ok (ni_ip_address n)
     \<and> is_c_int (ni_gpu_id n) \<and> string_ok (ni_gpu_name n) \<and> is_c_int (ni_gpu_numa n)
     \<and> string_ok (ni_ib_dev_name n) \<and> is_c_int (ni_ib_port n) \<and> is_c_int (ni_ib_numa n)
     \<and> length (ni_qmaps n) < 2 ^ 32 \<and> list_all peer_info_ok (ni_qmaps n)"

definition request_info_ok :: "request_info \<Rightarrow> bool" where
  "request_info_ok r \<longleftrightarrow> string_ok (ri_request_id r) \<and> string_ok (ri_prompt r)
     \<and> is_c_int (ri_max_tokens r) \<and> string_ok (ri_prefill_node_id r)
     \<and> string_ok (ri_decode_node_id r) \<and> is_c_int (ri_slot_id r)"

definition message_ok :: "message \<Rightarrow> bool" where
  "message_ok m \<longleftrightarrow> message_type_ok (msg_type m) \<and> status_ok (msg_status m)
     \<and> string_ok (msg_source_node_id m) \<and> request_info_ok (msg_request_info m)
     \<and> node_info_ok (msg_node_info m) \<and> length (msg_membership_list_info m) < 2 ^ 32
     \<and> list_all node_info_ok (msg_membership_list_info m)
     \<and> string_ok (msg_error_message m) \<and> string_ok (msg_response_text m)"

text \<open>The file descriptors of a node are process-local and are not transmitted.\<close>

definition forget_fds :: "node_info \<Rightarrow> node_info" where
  "forget_fds n = n\<lparr>ni_own_orchestrator_fd := -1, ni_other_node_fd := []\<rparr>"

definition message_on_wire :: "message \<Rightarrow> message" where
  "message_on_wire m = m\<lparr>msg_node_info := forget_fds (msg_node_info m),
     msg_membership_list_info := map forget_fds (msg_membership_list_info m)\<rparr>"

lemma unat_of_length [simp]: "n < 2 ^ 32 \<Longrightarrow> unat (word_of_nat n :: u32) = n"
  by (simp add: unsigned_of_nat take_bit_nat_eq_self)

lemma reader_int [intro]: "reader read_int"
  unfolding read_int_def by (intro reader_bind reader_return leaf_readers)

interpretation int_codec: codec read_int write_int is_c_int
  by (intro codec.intro reader_int)
    (unfold_locales, simp add: read_int_def write_int_def uint32_codec.rd_wr_only sint_of_c_int)

declare int_codec.rd_wr [codec_rt]

lemma reader_peer_info [intro]: "reader read_peer_info"
  unfolding read_peer_info_def by (intro reader_bind reader_return leaf_readers)

lemma peer_info_rd_wr:
  "peer_info_ok q \<Longrightarrow> read_peer_info (write_peer_info q @ rest) = Some (q, rest)"
  by (simp add: peer_info_ok_def read_peer_info_def write_peer_info_def codec_rt)

interpretation peer_codec: codec read_peer_info write_peer_info peer_info_ok
  by (intro codec.intro reader_peer_info)
    (unfold_locales, use peer_info_rd_wr [where rest = "[]"] in simp)

lemma reader_node_info [intro]: "reader read_node_info"
  unfolding read_node_info_def
  by (intro reader_bind reader_return leaf_readers reader_int reader_read_n reader_peer_info)

lemma node_info_rd_wr:
  "node_info_ok n \<Longrightarrow> read_node_info (write_node_info n @ rest) = Some (forget_fds n, rest)"
  by (simp add: node_info_ok_def read_node_info_def write_node_info_def codec_rt forget_fds_def
      role_of_code_code peer_codec.read_n_rd_wr)

interpretation node_codec: codec read_node_info write_node_info
  "\<lambda>n. node_info_ok n \<and> forget_fds n = n"
  by (intro codec.intro reader_node_info)
    (unfold_locales, use node_info_rd_wr [where rest = "[]"] in auto)

lemma nodes_rd_wr:
  "list_all node_info_ok ns \<Longrightarrow>
   read_n read_node_info (length ns) (concat (map write_node_info ns) @ rest)
     = Some (map forget_fds ns, rest)"
  by (induction ns) (simp_all add: node_info_rd_wr)

lemma reader_request_info [intro]: "reader read_request_info"
  unfolding read_request_info_def by (intro reader_bind reader_return leaf_readers reader_int)

lemma request_info_rd_wr:
  "request_info_ok r \<Longrightarrow> read_request_info (write_request_info r @ rest) = Some (r, rest)"
  by (simp add: request_info_ok_def read_request_info_def write_request_info_def codec_rt)

interpretation request_codec: codec read_request_info write_request_info request_info_ok
  by (intro codec.intro reader_request_info)
    (unfold_locales, use request_info_rd_wr [where rest = "[]"] in simp)

lemma reader_message [intro]: "reader read_message"
  unfolding read_message_def
  by (intro reader_bind reader_return leaf_readers reader_read_n reader_node_info
      reader_request_info)

lemma message_rd_wr:
  "message_ok m \<Longrightarrow> read_message (serialize_message m @ rest) = Some (message_on_wire m, rest)"
  by (simp add: message_ok_def read_message_def serialize_message_def codec_rt message_on_wire_def
      message_type_of_code_code status_of_code_code request_codec.rd_wr node_info_rd_wr nodes_rd_wr)

interpretation message_codec: codec read_message serialize_message
  "\<lambda>m. message_ok m \<and> message_on_wire m = m"
  by (intro codec.intro reader_message)
    (unfold_locales, use message_rd_wr [where rest = "[]"] in auto)

section \<open>Factory methods\<close>

text \<open>
  \<open>now\<close> is the value of \<open>now_ns()\<close>, \<open>g\<close> the indeterminate content the default constructor
  leaves in \<open>transaction_id\<close>, \<open>status\<close>, \<open>kv_metadata\<close> and the scalars of unset members.
\<close>

definition create_rdma_process_registration ::
  "u64 \<Rightarrow> message \<Rightarrow> string \<Rightarrow> node_info \<Rightarrow> message" where
  "create_rdma_process_registration now g src ni = (new_message g)\<lparr>msg_type := RDMA_PROCESS_REGISTRATION,
     msg_source_node_id := src, msg_timestamp := now, msg_node_info := ni\<rparr>"

definition create_broadcast_member_info ::
  "u64 \<Rightarrow> message \<Rightarrow> string \<Rightarrow> node_info list \<Rightarrow> message" where
  "create_broadcast_member_info now g src nis = (new_message g)\<lparr>msg_type := BROADCAST_MEMBER_INFO,
     msg_source_node_id := src, msg_timestamp := now, msg_membership_list_info := nis\<rparr>"

definition create_rdma_ready ::
  "u64 \<Rightarrow> message \<Rightarrow> string \<Rightarrow> message" where
  "create_rdma_ready now g src = (new_message g)\<lparr>msg_type := RDMA_READY,
     msg_source_node_id := src, msg_timestamp := now\<rparr>"

definition create_assign_request ::
  "u64 \<Rightarrow> message \<Rightarrow> string \<Rightarrow> request_info \<Rightarrow> message" where
  "create_assign_request now g src ri = (new_message g)\<lparr>msg_type := ASSIGN_REQUEST,
     msg_source_node_id := src, msg_timestamp := now, msg_request_info := ri\<rparr>"

definition prefill_complete ::
  "u64 \<Rightarrow> message \<Rightarrow> string \<Rightarrow> request_info \<Rightarrow> message" where
  "prefill_complete now g src ri = (new_message g)\<lparr>msg_type := PREFILL_COMPLETE,
     msg_source_node_id := src, msg_timestamp := now, msg_request_info := ri\<rparr>"

definition create_prefill_complete_orchestrator ::
  "u64 \<Rightarrow> message \<Rightarrow> string \<Rightarrow> request_info \<Rightarrow> message" where
  "create_prefill_complete_orchestrator now g src ri = (new_message g)\<lparr>msg_type := PREFILL_COMPLETE_ORCHESTRATOR,
     msg_source_node_id := src, msg_timestamp := now, msg_request_info := ri\<rparr>"

definition create_prepare_decode_slot ::
  "u64 \<Rightarrow> message \<Rightarrow> string \<Rightarrow> request_info \<Rightarrow> message" where
  "create_prepare_decode_slot now g src ri = (new_message g)\<lparr>msg_type := PREPARE_DECODE_SLOT,
     msg_source_node_id := src, msg_timestamp := now, msg_request_info := ri\<rparr>"

definition decode_complete ::
  "u64 \<Rightarrow> message \<Rightarrow> string \<Rightarrow> request_info \<Rightarrow> string \<Rightarrow> message" where
  "decode_complete now g src ri txt = (new_message g)\<lparr>msg_type := DECODE_COMPLETE,
     msg_source_node_id := src, msg_timestamp := now, msg_request_info := ri, msg_response_text := txt\<rparr>"

definition create_request_failed ::
  "u64 \<Rightarrow> message \<Rightarrow> string \<Rightarrow> request_info \<Rightarrow> string \<Rightarrow> message" where
  "create_request_failed now g src ri txt = (new_message g)\<lparr>msg_type := REQUEST_FAILED,
     msg_source_node_id := src, msg_timestamp := now, msg_request_info := ri, msg_error_message := txt\<rparr>"

definition create_client_response ::
  "u64 \<Rightarrow> message \<Rightarrow> string \<Rightarrow> request_info \<Rightarrow> string \<Rightarrow> message" where
  "create_client_response now g src ri txt = (new_message g)\<lparr>msg_type := CLIENT_RESPONSE,
     msg_source_node_id := src, msg_timestamp := now, msg_request_info := ri, msg_response_text := txt\<rparr>"

definition create_error :: "u64 \<Rightarrow> message \<Rightarrow> string \<Rightarrow> message" where
  "create_error now g err = (new_message g)\<lparr>msg_type := CLIENT_ERROR,
     msg_error_message := err, msg_timestamp := now\<rparr>"

section \<open>Round trip and truncation of whole messages\<close>

lemma serialize_nonempty [simp]: "serialize_message m \<noteq> []"
  by (simp add: serialize_message_def write_uint8_def)

lemma write_node_info_forget [simp]: "write_node_info (forget_fds n) = write_node_info n"
  by (simp add: write_node_info_def forget_fds_def)

lemma serialize_on_wire [simp]: "serialize_message (message_on_wire m) = serialize_message m"
  by (simp add: serialize_message_def message_on_wire_def comp_def)

lemma node_info_ok_forget [simp]: "node_info_ok (forget_fds n) = node_info_ok n"
  by (simp add: node_info_ok_def forget_fds_def)

lemma message_ok_on_wire [simp]: "message_ok (message_on_wire m) = message_ok m"
  by (simp add: message_ok_def message_on_wire_def list_all_iff)

lemma message_on_wire_idem [simp]: "message_on_wire (message_on_wire m) = message_on_wire m"
  by (simp add: message_on_wire_def forget_fds_def)

text \<open>A concrete message, for evaluation.\<close>

definition sample_request :: request_info where
  "sample_request = \<lparr>ri_request_id = ''req-1'', ri_prompt = ''hello'', ri_max_tokens = 64,
     ri_prefill_node_id = ''p0'', ri_decode_node_id = ''d0'', ri_slot_id = 3,
     ri_slot_base_offset = 4096, ri_timestamp_created = 17, ri_timestamp_prefill_start = 0,
     ri_timestamp_prefill_done = 0, ri_timestamp_decode_start = 0, ri_timestamp_decode_done = 0\<rparr>"

definition sample_peer :: peer_info_and_qps where
  "sample_peer = \<lparr>pq_peer_node_id = ''d0'', pq_local_qp_num = 100, pq_local_lid = 7,
     pq_local_gid = replicate 16 1, pq_local_psn = 5, pq_remote_qp_num = 200, pq_remote_lid = 8,
     pq_remote_gid = replicate 16 2, pq_remote_psn = 6, pq_remote_rkey = 9, pq_remote_addr = 65536\<rparr>"

definition sample_node :: node_info where
  "sample_node = \<lparr>ni_node_id = ''p0'', ni_role = PREFILL, ni_ip_address = ''10.0.0.1'', ni_tcp_port = 5000,
     ni_own_orchestrator_fd = 12, ni_other_node_fd = [(''d0'', 13)], ni_vllm_port = 8000,
     ni_is_healthy = True, ni_gpu_id = 0, ni_gpu_name = ''A100'', ni_gpu_numa = -1,
     ni_gpu_mem_bytes = 1024, ni_ib_dev_name = ''mlx5_0'', ni_ib_port = 1, ni_ib_numa = 0,
     ni_ib_speed_gbps = 200, ni_gpu_base_addr = 4096, ni_lkey = 1, ni_rkey = 2,
     ni_memory_pool_size = 65536, ni_qmaps = [sample_peer]\<rparr>"

definition sample_message :: message where
  "sample_message = \<lparr>msg_transaction_id = 1, msg_timestamp = 2, msg_source_node_id = ''orch'',
     msg_type = ASSIGN_REQUEST, msg_status = PENDING, msg_request_info = sample_request,
     msg_node_info = sample_node, msg_membership_list_info = [sample_node],
     msg_error_message = [], msg_kv_metadata = \<lparr>kv_num_layers = 32, kv_num_tokens = 5\<rparr>,
     msg_response_text = ''ok''\<rparr>"

lemma sample_message_ok [simp]: "message_ok sample_message"
  by (simp add: message_ok_def sample_message_def sample_node_def sample_peer_def sample_request_def
      node_info_ok_def peer_info_ok_def request_info_ok_def string_ok_def is_c_int_def INT_MAX_def)

text \<open>C1 Deserialising a serialised message, with any bytes behind it, gives the message back, up to
  the file descriptors of its nodes, which are not transmitted.\<close>

theorem deserialize_serialize:
  assumes "message_ok m"
  shows "deserialize_message (serialize_message m @ extra) = Some (message_on_wire m)"
  using message_rd_wr [OF assms, of extra] by (simp add: deserialize_message_def)

theorem deserialize_serialize_witness:
  "deserialize_message (serialize_message sample_message @ [0, 1]) = Some (message_on_wire sample_message)
   \<and> ni_own_orchestrator_fd (msg_node_info (message_on_wire sample_message)) = -1"
  using deserialize_serialize [OF sample_message_ok, of "[0, 1]"]
  by (simp add: message_on_wire_def forget_fds_def)

text \<open>C3 A message cut short at any byte is rejected: \<open>deserialize_message\<close> returns a null pointer
  and never a message made of the part that arrived.\<close>

theorem deserialize_truncated:
  assumes "message_ok m" and "n < length (serialize_message m)"
  shows "deserialize_message (take n (serialize_message m)) = None"
  using message_codec.truncated_fails [of "message_on_wire m" n] assms
  by (simp add: deserialize_message_def)

theorem deserialize_truncated_witness:
  "deserialize_message (take 40 (serialize_message sample_message)) = None"
proof (rule deserialize_truncated)
  show "40 < length (serialize_message sample_message)"
    by (simp add: serialize_message_def sample_message_def write_uint8_def write_uint64_def
        write_string_def write_request_info_def sample_request_def write_int_def)
qed simp

end
