(* ===== verification/EventQueue.thy ===== *)
theory EventQueue
  imports Wire
begin

text \<open>
  The bounded event queue of \<open>src/cpp/nodes/event_queue.cpp\<close>, which the epoll thread fills and the
  worker threads empty, and its contract as a locale. Each operation runs under the queue's mutex and is
  one step of the model; \<open>wait_and_pop\<close> has a value for a thread that stays blocked on the condition
  variable.
\<close>

section \<open>The contract of a bounded queue\<close>

locale bounded_queue =
  fixes contents :: "'q \<Rightarrow> 'e list"
    and cap :: "'q \<Rightarrow> nat"
    and enq :: "'q \<Rightarrow> 'e \<Rightarrow> bool \<times> 'q"
    and deq :: "'q \<Rightarrow> ('e \<times> 'q) option"
  assumes enq_room: "length (contents q) < cap q \<Longrightarrow>
      fst (enq q e) \<and> contents (snd (enq q e)) = contents q @ [e]"
    and enq_full: "cap q \<le> length (contents q) \<Longrightarrow> enq q e = (False, q)"
    and enq_cap: "cap (snd (enq q e)) = cap q"
    and deq_empty: "contents q = [] \<Longrightarrow> deq q = None"
    and deq_some: "contents q = e # es \<Longrightarrow> \<exists>q'. deq q = Some (e, q') \<and> contents q' = es \<and> cap q' = cap q"
begin

definition enq_all :: "'q \<Rightarrow> 'e list \<Rightarrow> 'q" where
  "enq_all q es = foldl (\<lambda>q e. snd (enq q e)) q es"

lemma enq_all_simps [simp]:
  "enq_all q [] = q" "enq_all q (e # es) = enq_all (snd (enq q e)) es"
  "enq_all q (es @ es') = enq_all (enq_all q es) es'"
  by (simp_all add: enq_all_def)

lemma enq_all_cap [simp]: "cap (enq_all q es) = cap q"
  by (induction es arbitrary: q) (simp_all add: enq_cap)

text \<open>What is in the queue after any pushes: the first ones that fit, in order.\<close>

lemma contents_enq_all:
  "length (contents q) \<le> cap q \<Longrightarrow>
   contents (enq_all q es) = contents q @ take (cap q - length (contents q)) es"
proof (induction es arbitrary: q)
  case (Cons e es)
  show ?case
  proof (cases "length (contents q) < cap q")
    case True
    then show ?thesis
      using Cons.IH [of "snd (enq q e)"] enq_room [OF True, of e]
      by (simp add: enq_cap take_Cons')
  next
    case False
    then show ?thesis using Cons by (simp add: enq_full)
  qed
qed simp

lemma bounded: "length (contents q) \<le> cap q \<Longrightarrow> length (contents (enq_all q es)) \<le> cap (enq_all q es)"
  by (simp add: contents_enq_all)

fun deq_n :: "nat \<Rightarrow> 'q \<Rightarrow> 'e list" where
  "deq_n 0 q = []"
| "deq_n (Suc n) q = (case deq q of None \<Rightarrow> [] | Some (e, q') \<Rightarrow> e # deq_n n q')"

lemma deq_n_contents: "deq_n n q = take n (contents q)"
proof (induction n arbitrary: q)
  case (Suc n)
  show ?case
  proof (cases "contents q")
    case (Cons e es)
    from deq_some [OF this] Cons Suc show ?thesis by auto
  qed (simp add: deq_empty)
qed simp

lemma fifo: "length (contents q) \<le> cap q \<Longrightarrow> length (contents q) + length es \<le> cap q \<Longrightarrow>
    deq_n n (enq_all q es) = take n (contents q @ es)"
  by (simp add: deq_n_contents contents_enq_all)

end

section \<open>The queue of the program\<close>

type_synonym event = "int \<times> message"

record event_queue =
  eq_capacity :: nat
  eq_stopped :: bool
  eq_queue :: "event list"

definition new_event_queue :: "nat \<Rightarrow> event_queue" where
  "new_event_queue n = \<lparr>eq_capacity = n, eq_stopped = False, eq_queue = []\<rparr>"

definition eq_push :: "event_queue \<Rightarrow> event \<Rightarrow> bool \<times> event_queue" where
  "eq_push q e = (if length (eq_queue q) \<ge> eq_capacity q then (False, q)
     else (True, q\<lparr>eq_queue := eq_queue q @ [e]\<rparr>))"

definition eq_pop :: "event_queue \<Rightarrow> (event \<times> event_queue) option" where
  "eq_pop q = (case eq_queue q of [] \<Rightarrow> None | e # es \<Rightarrow> Some (e, q\<lparr>eq_queue := es\<rparr>))"

datatype wait_result = Wait_blocked | Wait_stopped | Wait_got event event_queue

definition eq_wait_and_pop :: "event_queue \<Rightarrow> wait_result" where
  "eq_wait_and_pop q =
     (if eq_queue q = [] \<and> \<not> eq_stopped q then Wait_blocked
      else if eq_stopped q \<and> eq_queue q = [] then Wait_stopped
      else Wait_got (hd (eq_queue q)) (q\<lparr>eq_queue := tl (eq_queue q)\<rparr>))"

definition eq_wake_all :: "event_queue \<Rightarrow> event_queue" where
  "eq_wake_all q = q\<lparr>eq_stopped := True\<rparr>"

definition eq_size :: "event_queue \<Rightarrow> nat" where
  "eq_size q = length (eq_queue q)"

definition eq_is_empty :: "event_queue \<Rightarrow> bool" where
  "eq_is_empty q \<longleftrightarrow> eq_queue q = []"

interpretation evq: bounded_queue eq_queue eq_capacity eq_push eq_pop
  by unfold_locales (auto simp: eq_push_def eq_pop_def)

definition eq_push_all :: "event_queue \<Rightarrow> event list \<Rightarrow> event_queue" where
  "eq_push_all q es = foldl (\<lambda>q e. snd (eq_push q e)) q es"

lemma eq_push_all_evq: "eq_push_all = evq.enq_all"
  by (simp add: fun_eq_iff eq_push_all_def evq.enq_all_def)

lemma eq_push_all_simps [simp]:
  "eq_push_all q [] = q" "eq_push_all q (e # es) = eq_push_all (snd (eq_push q e)) es"
  by (simp_all add: eq_push_all_def)

text \<open>A worker's loop on \<open>wait_and_pop\<close>: the events it gets until it blocks or is stopped.\<close>

fun drain :: "nat \<Rightarrow> event_queue \<Rightarrow> event list \<times> wait_result" where
  "drain 0 q = ([], eq_wait_and_pop q)"
| "drain (Suc n) q = (case eq_wait_and_pop q of
     Wait_got e q' \<Rightarrow> (let (es, r) = drain n q' in (e # es, r))
   | r \<Rightarrow> ([], r))"

text \<open>Events leave the queue in the order they came: a worker that keeps taking events after
  \<open>wake_all\<close> gets the queued events and then those pushed that fit the capacity, in order, and only
  then is told to stop; what does not fit is dropped.\<close>

theorem event_queue_fifo:
  assumes "length (eq_queue q) \<le> eq_capacity q" and "eq_capacity q \<le> n"
  shows "drain n (eq_wake_all (eq_push_all q es))
    = (eq_queue q @ take (eq_capacity q - length (eq_queue q)) es, Wait_stopped)"
proof -
  have drain: "length (eq_queue p) \<le> n \<Longrightarrow> eq_stopped p \<Longrightarrow> drain n p = (eq_queue p, Wait_stopped)"
    for p n
    by (induction n arbitrary: p) (auto simp: eq_wait_and_pop_def neq_Nil_conv split: if_splits)
  let ?p = "eq_wake_all (eq_push_all q es)"
  have "eq_queue ?p = eq_queue q @ take (eq_capacity q - length (eq_queue q)) es"
    using evq.contents_enq_all [OF assms(1)] by (simp add: eq_wake_all_def eq_push_all_evq)
  with drain [of ?p n] assms show ?thesis by (simp add: eq_wake_all_def)
qed

theorem event_queue_fifo_witness:
  "drain 2 (eq_wake_all (eq_push_all (new_event_queue 2)
     [(4, sample_message), (5, sample_message), (6, sample_message)]))
   = ([(4, sample_message), (5, sample_message)], Wait_stopped)"
  using event_queue_fifo [of "new_event_queue 2" 2
      "[(4, sample_message), (5, sample_message), (6, sample_message)]"]
  by (simp add: new_event_queue_def numeral_2_eq_2 del: drain.simps)

end
