(* ===== verification/Epoll.thy ===== *)
theory Epoll
  imports EventQueue
begin

text \<open>
  The I/O thread of \<open>src/cpp/nodes/epoll_worker_base.cpp\<close>: per-connection buffers, the framing
  automaton \<open>parse_messages\<close>, the read, write and error handlers, \<open>enqueue_response\<close> and the dispatch
  of one epoll event. The kernel is a parameter: what each \<open>recv\<close> or \<open>send\<close> call returns is a script,
  whether \<open>epoll_ctl\<close> succeeds an argument, and the calls that have an effect outside
  (\<open>epoll_ctl\<close>, \<open>close\<close>) are recorded in order in a trace.
\<close>

section \<open>State\<close>

datatype socket_type = LISTEN_CLIENT | LISTEN_SERVER | CLIENT_CONN | SERVER_CONN

record conn_state =
  cs_type :: socket_type
  cs_conn :: bool
  cs_input_buffer :: bytes
  cs_expected_payload_length :: u32
  cs_reading_header :: bool
  cs_output_buffer :: bytes
  cs_peer_node_id :: u64

definition new_conn_state :: conn_state where
  "new_conn_state = \<lparr>cs_type = CLIENT_CONN, cs_conn = False, cs_input_buffer = [],
     cs_expected_payload_length = 0, cs_reading_header = True, cs_output_buffer = [],
     cs_peer_node_id = 0\<rparr>"

record interest = in_read :: bool  in_write :: bool  in_edge :: bool

text \<open>The calls of the worker that the kernel sees, latest last.\<close>

datatype sys_call = Ctl_add int interest | Ctl_mod int interest | Ctl_del int | Close_fd int
  | Send_bytes int bytes

record epoll_worker =
  ew_running :: bool
  ew_epoll_fd :: int
  ew_connections :: "(int \<times> conn_state) list"
  ew_queue :: event_queue
  ew_trace :: "sys_call list"

definition MAX_MESSAGE_SIZE :: u32 where
  "MAX_MESSAGE_SIZE = 16 * 1024 * 1024"

definition EPOLLIN :: interest where
  "EPOLLIN = \<lparr>in_read = True, in_write = False, in_edge = False\<rparr>"

definition EPOLLIN_OUT :: interest where
  "EPOLLIN_OUT = \<lparr>in_read = True, in_write = True, in_edge = False\<rparr>"

definition record_call :: "sys_call \<Rightarrow> epoll_worker \<Rightarrow> epoll_worker" where
  "record_call c w = w\<lparr>ew_trace := ew_trace w @ [c]\<rparr>"

section \<open>Framing\<close>

text \<open>The length-prefixed frame of \<open>enqueue_response\<close> and \<open>Connection::send_message\<close>.\<close>

definition frame_bytes :: "bytes \<Rightarrow> bytes" where
  "frame_bytes payload = mem_of_u32 (htonl (word_of_nat (length payload))) @ payload"

definition frame :: "message \<Rightarrow> bytes" where
  "frame m = frame_bytes (serialize_message m)"

text \<open>Phase 1 of \<open>parse_messages\<close>: the header.\<close>

datatype header_result = Header_wait | Header_invalid | Header_ok conn_state

definition parse_header :: "conn_state \<Rightarrow> header_result" where
  "parse_header st =
     (if \<not> cs_reading_header st then Header_ok st
      else if length (cs_input_buffer st) < 4 then Header_wait
      else let len = ntohl (u32_of_mem (take 4 (cs_input_buffer st))) in
        if len = 0 \<or> len > MAX_MESSAGE_SIZE then Header_invalid
        else Header_ok (st\<lparr>cs_expected_payload_length := len, cs_reading_header := False,
               cs_input_buffer := drop 4 (cs_input_buffer st)\<rparr>))"

definition conn_weight :: "conn_state \<Rightarrow> nat" where
  "conn_weight st = 2 * length (cs_input_buffer st) + (if cs_reading_header st then 0 else 1)"

lemma conn_weight_payload:
  "parse_header st = Header_ok st' \<Longrightarrow>
   unat (cs_expected_payload_length st') \<le> length (cs_input_buffer st') \<Longrightarrow>
   conn_weight (st'\<lparr>cs_input_buffer := drop n (cs_input_buffer st'),
     cs_reading_header := True, cs_expected_payload_length := 0\<rparr>) < conn_weight st"
  by (auto simp: parse_header_def conn_weight_def Let_def split: if_splits)

text \<open>
  The loop. \<open>Removed\<close> is the return after \<open>remove_connection\<close>: the connection state is gone.
  A payload that does not deserialise is skipped, an event that finds the queue full dropped.
\<close>

datatype parse_result = Waiting conn_state event_queue | Removed event_queue

function parse_messages :: "int \<Rightarrow> conn_state \<Rightarrow> event_queue \<Rightarrow> parse_result" where
  "parse_messages fd st q =
     (case parse_header st of
        Header_wait \<Rightarrow> Waiting st q
      | Header_invalid \<Rightarrow> Removed q
      | Header_ok st1 \<Rightarrow>
          (let n = unat (cs_expected_payload_length st1) in
           if length (cs_input_buffer st1) < n then Waiting st1 q
           else
             let payload = take n (cs_input_buffer st1);
                 st2 = st1\<lparr>cs_input_buffer := drop n (cs_input_buffer st1),
                           cs_reading_header := True, cs_expected_payload_length := 0\<rparr> in
             case deserialize_message payload of
               None \<Rightarrow> parse_messages fd st2 q
             | Some m \<Rightarrow> parse_messages fd st2 (snd (eq_push q (fd, m)))))"
  by pat_completeness auto

termination
  by (relation "measure (\<lambda>(fd, st, q). conn_weight st)") (auto simp: conn_weight_payload not_less)

declare parse_messages.simps [simp del]

section \<open>Connection management\<close>

definition find_conn :: "epoll_worker \<Rightarrow> int \<Rightarrow> conn_state option" where
  "find_conn w fd = map_of (ew_connections w) fd"

definition put_conn :: "int \<Rightarrow> conn_state \<Rightarrow> epoll_worker \<Rightarrow> epoll_worker" where
  "put_conn fd st w = w\<lparr>ew_connections := put fd st (ew_connections w)\<rparr>"

text \<open>\<open>close\<close> is called on the descriptor only when the entry owns a \<open>Connection\<close>.\<close>

definition remove_connection :: "int \<Rightarrow> epoll_worker \<Rightarrow> epoll_worker" where
  "remove_connection fd w =
     (let w = record_call (Ctl_del fd) w in
      case find_conn w fd of
        None \<Rightarrow> w
      | Some st \<Rightarrow>
          (let w = (if cs_conn st then record_call (Close_fd fd) w else w) in
           w\<lparr>ew_connections := erase fd (ew_connections w)\<rparr>))"

definition modify_epoll :: "int \<Rightarrow> interest \<Rightarrow> epoll_worker \<Rightarrow> epoll_worker" where
  "modify_epoll fd ev w = record_call (Ctl_mod fd ev) w"

text \<open>\<open>nonblock\<close> and \<open>ctl\<close> say whether \<open>fcntl\<close> and \<open>epoll_ctl\<close> succeed. A connection that is not
  added is destroyed with its \<open>unique_ptr\<close>, which closes it.\<close>

definition add_connection ::
  "bool \<Rightarrow> bool \<Rightarrow> int \<Rightarrow> socket_type \<Rightarrow> epoll_worker \<Rightarrow> bool \<times> epoll_worker" where
  "add_connection nonblock ctl fd ty w =
     (if \<not> nonblock then (False, record_call (Close_fd fd) w)
      else
        let w = record_call (Ctl_add fd EPOLLIN) w in
        if \<not> ctl then (False, record_call (Close_fd fd) w)
        else
          let old = (case find_conn w fd of None \<Rightarrow> new_conn_state | Some st \<Rightarrow> st) in
          (True, put_conn fd (old\<lparr>cs_type := ty, cs_conn := True, cs_reading_header := True,
             cs_expected_payload_length := 0, cs_input_buffer := [], cs_output_buffer := []\<rparr>) w))"

text \<open>\<open>enqueue_response\<close> appends a frame to the output buffer of a known descriptor.\<close>

definition enqueue_response :: "int \<Rightarrow> message \<Rightarrow> epoll_worker \<Rightarrow> epoll_worker" where
  "enqueue_response fd m w =
     (case find_conn w fd of
        None \<Rightarrow> w
      | Some st \<Rightarrow>
          (let w' = put_conn fd (st\<lparr>cs_output_buffer := cs_output_buffer st @ frame m\<rparr>) w in
           if cs_output_buffer st = [] then modify_epoll fd EPOLLIN_OUT w' else w'))"

section \<open>Handlers\<close>

text \<open>What one \<open>recv\<close> or \<open>send\<close> call returns.\<close>

datatype recv_result = Recv_data bytes | Recv_eof | Recv_again | Recv_error
datatype send_result = Sent nat | Send_again | Send_error

text \<open>
  The receive loop of \<open>handle_read\<close>, up to the first result that ends it: the bytes appended to the
  input buffer and whether the loop ended by \<open>EAGAIN\<close>. \<open>None\<close> is a loop that is still reading.
\<close>

fun recv_loop :: "recv_result list \<Rightarrow> (bytes \<times> bool) option" where
  "recv_loop [] = None"
| "recv_loop (Recv_data bs # rs) = map_option (\<lambda>(d, ok). (bs @ d, ok)) (recv_loop rs)"
| "recv_loop (Recv_eof # rs) = Some ([], False)"
| "recv_loop (Recv_again # rs) = Some ([], True)"
| "recv_loop (Recv_error # rs) = Some ([], False)"

definition handle_read :: "recv_result list \<Rightarrow> int \<Rightarrow> epoll_worker \<Rightarrow> epoll_worker option" where
  "handle_read script fd w =
     (case find_conn w fd of
        None \<Rightarrow> Some w
      | Some st \<Rightarrow>
          (case recv_loop script of
             None \<Rightarrow> None
           | Some (d, False) \<Rightarrow> Some (remove_connection fd w)
           | Some (d, True) \<Rightarrow>
               (let st = st\<lparr>cs_input_buffer := cs_input_buffer st @ d\<rparr> in
                case parse_messages fd st (ew_queue w) of
                  Waiting st' q \<Rightarrow> Some ((put_conn fd st' w)\<lparr>ew_queue := q\<rparr>)
                | Removed q \<Rightarrow> Some ((remove_connection fd w)\<lparr>ew_queue := q\<rparr>))))"

text \<open>The send loop of \<open>handle_write\<close>: the bytes not yet sent and how it ended.\<close>

datatype send_end = All_sent | Would_block | Send_failed

fun send_loop :: "send_result list \<Rightarrow> bytes \<Rightarrow> (bytes \<times> bytes \<times> send_end) option" where
  "send_loop rs [] = Some ([], [], All_sent)"
| "send_loop [] (b # bs) = None"
| "send_loop (Sent n # rs) (b # bs) =
     map_option (\<lambda>(s, r, e). (take n (b # bs) @ s, r, e)) (send_loop rs (drop n (b # bs)))"
| "send_loop (Send_again # rs) (b # bs) = Some ([], b # bs, Would_block)"
| "send_loop (Send_error # rs) (b # bs) = Some ([], b # bs, Send_failed)"

text \<open>
  \<open>handle_write\<close> holds the connections mutex from the lookup to the end of the loop, and
  \<open>enqueue_response\<close> needs it, so nothing is queued in between and the output buffer is still
  empty when all bytes are sent.
\<close>

definition handle_write :: "send_result list \<Rightarrow> int \<Rightarrow> epoll_worker \<Rightarrow> epoll_worker option" where
  "handle_write script fd w =
     (case find_conn w fd of
        None \<Rightarrow> Some w
      | Some st \<Rightarrow>
          (if cs_output_buffer st = [] then Some (modify_epoll fd EPOLLIN w)
           else
             (case send_loop script (cs_output_buffer st) of
                None \<Rightarrow> None
              | Some (s, rest, e) \<Rightarrow>
                  (let st = st\<lparr>cs_output_buffer := []\<rparr>;
                       w = record_call (Send_bytes fd s) w in
                   Some (case e of
                      Would_block \<Rightarrow>
                        put_conn fd (st\<lparr>cs_output_buffer := rest @ cs_output_buffer st\<rparr>) w
                    | Send_failed \<Rightarrow> remove_connection fd w
                    | All_sent \<Rightarrow> modify_epoll fd EPOLLIN (put_conn fd st w))))))"

definition handle_error :: "int \<Rightarrow> epoll_worker \<Rightarrow> epoll_worker" where
  "handle_error fd w = remove_connection fd w"

section \<open>Facts about parsing\<close>

text \<open>
  One frame at the head of a buffer that waits for a header: it is taken out, delivered when it
  deserialises, and parsing goes on behind it.
\<close>

abbreviation fresh_conn :: "conn_state \<Rightarrow> bool" where
  "fresh_conn st \<equiv> cs_reading_header st \<and> cs_expected_payload_length st = 0"

definition deliver :: "int \<Rightarrow> bytes \<Rightarrow> event_queue \<Rightarrow> event_queue" where
  "deliver fd payload q = (case deserialize_message payload of
     None \<Rightarrow> q | Some m \<Rightarrow> snd (eq_push q (fd, m)))"

text \<open>The state in which the loop comes back after a complete payload.\<close>

definition after_payload :: "conn_state \<Rightarrow> conn_state" where
  "after_payload st = st\<lparr>cs_input_buffer := drop (unat (cs_expected_payload_length st)) (cs_input_buffer st),
     cs_reading_header := True, cs_expected_payload_length := 0\<rparr>"

abbreviation payload_of :: "conn_state \<Rightarrow> bytes" where
  "payload_of st \<equiv> take (unat (cs_expected_payload_length st)) (cs_input_buffer st)"

abbreviation payload_complete :: "conn_state \<Rightarrow> bool" where
  "payload_complete st \<equiv> unat (cs_expected_payload_length st) \<le> length (cs_input_buffer st)"

lemma parse_rules:
  "parse_header st = Header_wait \<Longrightarrow> parse_messages fd st q = Waiting st q"
  "parse_header st = Header_invalid \<Longrightarrow> parse_messages fd st q = Removed q"
  "parse_header st = Header_ok st1 \<Longrightarrow> parse_messages fd st q =
     (if payload_complete st1 then parse_messages fd (after_payload st1) (deliver fd (payload_of st1) q)
      else Waiting st1 q)"
  by (subst parse_messages.simps, simp add: after_payload_def deliver_def Let_def split: option.split)+

lemma parse_induct [case_names step]:
  assumes "\<And>st q. (\<And>st1. parse_header st = Header_ok st1 \<Longrightarrow> payload_complete st1 \<Longrightarrow>
      P (after_payload st1) (deliver fd (payload_of st1) q)) \<Longrightarrow> P st q"
  shows "P st q"
proof (induction "conn_weight st" arbitrary: st q rule: less_induct)
  case less
  show ?case
    by (rule assms, rule less) (simp add: after_payload_def conn_weight_payload)
qed

definition payload_ok :: "bytes \<Rightarrow> bool" where
  "payload_ok p \<longleftrightarrow> p \<noteq> [] \<and> length p \<le> 16777216"

lemma unat_MAX: "unat MAX_MESSAGE_SIZE = 16777216"
  by (simp add: MAX_MESSAGE_SIZE_def)

lemma payload_len:
  assumes "payload_ok p"
  shows "unat (word_of_nat (length p) :: u32) = length p"
    "(word_of_nat (length p) :: u32) \<noteq> 0" "\<not> MAX_MESSAGE_SIZE < word_of_nat (length p)"
proof -
  have *: "length p < 2 ^ 32" "length p > 0" using assms by (auto simp: payload_ok_def)
  show u: "unat (word_of_nat (length p) :: u32) = length p" using *(1) by simp
  show "(word_of_nat (length p) :: u32) \<noteq> 0" using u *(2) by (metis unat_0 less_irrefl)
  show "\<not> MAX_MESSAGE_SIZE < word_of_nat (length p)"
    using u assms by (simp add: word_less_nat_alt unat_MAX payload_ok_def)
qed

lemma parse_frame:
  assumes "payload_ok p" and "cs_reading_header st"
  shows "parse_messages fd (st\<lparr>cs_input_buffer := frame_bytes p @ rest\<rparr>) q
    = parse_messages fd (st\<lparr>cs_input_buffer := rest, cs_expected_payload_length := 0\<rparr>) (deliver fd p q)"
proof -
  have "length (frame_bytes p @ rest) \<ge> 4" by (simp add: frame_bytes_def)
  then show ?thesis
    using assms payload_len [OF assms(1)]
    by (cases st, subst parse_messages.simps)
      (simp add: parse_header_def frame_bytes_def Let_def deliver_def split: option.split)
qed

lemma parse_frames:
  assumes "list_all payload_ok ps" and "fresh_conn st"
  shows "parse_messages fd (st\<lparr>cs_input_buffer := concat (map frame_bytes ps)\<rparr>) q
    = Waiting (st\<lparr>cs_input_buffer := []\<rparr>) (foldl (\<lambda>q p. deliver fd p q) q ps)"
  using assms
proof (induction ps arbitrary: q)
  case Nil
  then show ?case by (subst parse_messages.simps) (simp add: parse_header_def)
next
  case (Cons p ps)
  have *: "st\<lparr>cs_input_buffer := rest, cs_expected_payload_length := 0\<rparr> = st\<lparr>cs_input_buffer := rest\<rparr>" for rest
    using Cons.prems by (cases st) simp
  from Cons show ?case by (simp add: parse_frame *)
qed

text \<open>More input behind a buffer does not change what has been parsed.\<close>

definition add_input :: "bytes \<Rightarrow> conn_state \<Rightarrow> conn_state" where
  "add_input bs st = st\<lparr>cs_input_buffer := cs_input_buffer st @ bs\<rparr>"

lemma parse_header_add_input:
  "parse_header st = Header_ok st' \<Longrightarrow> parse_header (add_input bs st) = Header_ok (add_input bs st')"
  "parse_header st = Header_invalid \<Longrightarrow> parse_header (add_input bs st) = Header_invalid"
  by (auto simp: parse_header_def add_input_def Let_def split: if_splits)

lemma parse_resume_payload:
  assumes "parse_header st = Header_ok st'"
  shows "parse_messages fd st q = parse_messages fd st' q"
proof -
  have "parse_header st' = Header_ok st'"
    using assms by (auto simp: parse_header_def Let_def split: if_splits)
  then show ?thesis using assms by (subst (1 2) parse_messages.simps) simp
qed

lemma parse_add_input:
  "parse_messages fd (add_input bs st) q =
     (case parse_messages fd st q of
        Waiting st' q' \<Rightarrow> parse_messages fd (add_input bs st') q'
      | Removed q' \<Rightarrow> Removed q')"
proof (induction st q rule: parse_induct [where fd = fd])
  case (step st q)
  show ?case
  proof (cases "parse_header st")
    case (Header_ok st1)
    note ext = parse_header_add_input(1) [OF Header_ok, of bs]
    have "payload_complete st1 \<Longrightarrow> after_payload (add_input bs st1) = add_input bs (after_payload st1)
        \<and> payload_of (add_input bs st1) = payload_of st1 \<and> payload_complete (add_input bs st1)"
      by (simp add: after_payload_def add_input_def)
    then show ?thesis
      using step [OF Header_ok] parse_rules(3) [OF ext, of fd q] parse_rules(3) [OF Header_ok, of fd q]
        parse_resume_payload [OF ext, of fd q] by (cases "payload_complete st1") simp_all
  qed (simp_all add: parse_rules parse_header_add_input)
qed

lemma parse_header_keeps:
  "parse_header st = Header_ok st' \<Longrightarrow> cs_conn st' = cs_conn st \<and> cs_type st' = cs_type st
     \<and> cs_output_buffer st' = cs_output_buffer st"
  by (auto simp: parse_header_def Let_def split: if_splits)

lemma parse_messages_keeps:
  "parse_messages fd st q = Waiting st' q' \<Longrightarrow> cs_conn st' = cs_conn st \<and> cs_type st' = cs_type st
     \<and> cs_output_buffer st' = cs_output_buffer st"
proof (induction st q rule: parse_induct [where fd = fd])
  case (step st q)
  show ?case
  proof (cases "parse_header st")
    case (Header_ok st1)
    then show ?thesis
      using step.prems step.IH [OF Header_ok] parse_header_keeps [OF Header_ok]
      by (auto simp: parse_rules after_payload_def split: if_splits)
  qed (use step.prems in \<open>simp_all add: parse_rules\<close>)
qed

end
