(* ===== verification/EpollLoop.thy ===== *)
theory EpollLoop
  imports Epoll
begin

text \<open>
  The event loop of \<open>EpollWorkerBase\<close> and what its two subclasses add to it: start-up, the accept
  loops, the connection of a node to the orchestrator and to its peers
  (\<open>epoll_worker_orchestrator.cpp\<close>, \<open>epoll_worker_node.cpp\<close>).
\<close>

section \<open>Dispatch of one event\<close>

record ready = rd_in :: bool  rd_out :: bool  rd_err :: bool

text \<open>
  The body of the loop of \<open>run\<close> for one ready descriptor: \<open>acc_client\<close> and \<open>acc_server\<close> are the
  virtual accept handlers, the scripts what the socket calls return.
\<close>

definition dispatch_event ::
  "(epoll_worker \<Rightarrow> epoll_worker) \<Rightarrow> (epoll_worker \<Rightarrow> epoll_worker) \<Rightarrow>
   recv_result list \<Rightarrow> send_result list \<Rightarrow> int \<Rightarrow> ready \<Rightarrow> epoll_worker \<Rightarrow> epoll_worker option" where
  "dispatch_event acc_client acc_server rscript wscript fd ev w =
     (case find_conn w fd of
        None \<Rightarrow> Some w
      | Some st \<Rightarrow>
          if rd_err ev then Some (handle_error fd w)
          else if cs_type st = LISTEN_CLIENT then Some (if rd_in ev then acc_client w else w)
          else if cs_type st = LISTEN_SERVER then Some (if rd_in ev then acc_server w else w)
          else do {
            w \<leftarrow> (if rd_in ev then handle_read rscript fd w else Some w);
            (if rd_out ev then handle_write wscript fd w else Some w) })"

text \<open>\<open>stop\<close>: nothing when not running, otherwise every connection is closed and forgotten.\<close>

definition stop_worker :: "epoll_worker \<Rightarrow> epoll_worker" where
  "stop_worker w =
     (if \<not> ew_running w then w
      else w\<lparr>ew_running := False, ew_connections := [],
             ew_trace := ew_trace w @ map (\<lambda>(fd, st). Close_fd fd)
               (filter (\<lambda>(fd, st). cs_conn st) (ew_connections w))\<rparr>)"

text \<open>The destructor: \<open>stop\<close>, then the epoll instance is closed if it is still recorded.\<close>

definition destroy_worker :: "epoll_worker \<Rightarrow> epoll_worker" where
  "destroy_worker w =
     (let w = stop_worker w in
      if ew_epoll_fd w \<ge> 0 then record_call (Close_fd (ew_epoll_fd w)) w else w)"

section \<open>Start-up\<close>

text \<open>A listening socket: entered with its type, keeping the other fields of the entry.\<close>

definition add_listener :: "int \<Rightarrow> socket_type \<Rightarrow> epoll_worker \<Rightarrow> epoll_worker" where
  "add_listener fd ty w =
     (let old = (case find_conn w fd of None \<Rightarrow> new_conn_state | Some st \<Rightarrow> st) in
      put_conn fd (old\<lparr>cs_type := ty, cs_reading_header := True\<rparr>) w)"

definition EPOLLIN_ET :: interest where
  "EPOLLIN_ET = \<lparr>in_read = True, in_write = False, in_edge = True\<rparr>"

definition close_epoll :: "bool \<Rightarrow> epoll_worker \<Rightarrow> epoll_worker" where
  "close_epoll reset w =
     (let w = record_call (Close_fd (ew_epoll_fd w)) w in
      if reset then w\<lparr>ew_epoll_fd := -1\<rparr> else w)"

text \<open>
  \<open>EpollWorkerOrchestrator::start\<close>. \<open>efd\<close> is what \<open>epoll_create1\<close> returns, the four flags whether
  \<open>fcntl\<close> and \<open>epoll_ctl\<close> succeed on the client and on the server socket. The first two failures close
  the epoll instance and keep its number.
\<close>

definition orch_worker_start ::
  "int \<Rightarrow> bool \<Rightarrow> bool \<Rightarrow> bool \<Rightarrow> bool \<Rightarrow> int \<Rightarrow> int \<Rightarrow> epoll_worker \<Rightarrow> epoll_worker" where
  "orch_worker_start efd nb_c ctl_c nb_s ctl_s client_fd server_fd w =
     (if ew_running w then w
      else let w = w\<lparr>ew_epoll_fd := efd\<rparr> in
        if efd < 0 then w
        else if \<not> nb_c then close_epoll False w
        else let w = record_call (Ctl_add client_fd EPOLLIN_ET) w in
          if \<not> ctl_c then close_epoll False w
          else let w = add_listener client_fd LISTEN_CLIENT w in
            if \<not> nb_s then close_epoll True w
            else let w = record_call (Ctl_add server_fd EPOLLIN_ET) w in
              if \<not> ctl_s then close_epoll True w
              else (add_listener server_fd LISTEN_SERVER w)\<lparr>ew_running := True\<rparr>)"

definition node_worker_start ::
  "int \<Rightarrow> bool \<Rightarrow> bool \<Rightarrow> int \<Rightarrow> epoll_worker \<Rightarrow> epoll_worker" where
  "node_worker_start efd nb ctl server_fd w =
     (if ew_running w then w
      else let w = w\<lparr>ew_epoll_fd := efd\<rparr> in
        if efd < 0 then w
        else if \<not> nb then close_epoll True w
        else let w = record_call (Ctl_add server_fd EPOLLIN_ET) w in
          if \<not> ctl then close_epoll True w
          else (add_listener server_fd LISTEN_SERVER w)\<lparr>ew_running := True\<rparr>)"

section \<open>Accept loops\<close>

text \<open>
  The connections \<open>accept\<close> returns before it fails, each with whether \<open>fcntl\<close> and \<open>epoll_ctl\<close>
  succeed on it. A connection that cannot be added is logged and skipped.
\<close>

type_synonym accepted = "int \<times> bool \<times> bool"

fun accept_loop :: "socket_type \<Rightarrow> accepted list \<Rightarrow> epoll_worker \<Rightarrow> epoll_worker" where
  "accept_loop ty [] w = w"
| "accept_loop ty ((fd, nb, ctl) # cs) w = accept_loop ty cs (snd (add_connection nb ctl fd ty w))"

definition orch_handle_client_accept :: "accepted list \<Rightarrow> epoll_worker \<Rightarrow> epoll_worker" where
  "orch_handle_client_accept = accept_loop CLIENT_CONN"

definition orch_handle_server_accept :: "accepted list \<Rightarrow> epoll_worker \<Rightarrow> epoll_worker" where
  "orch_handle_server_accept = accept_loop SERVER_CONN"

text \<open>
  The node's worker also records the peer in the node's \<open>node_other_node_fd\<close>, before the connection is
  added. An accepted \<open>Connection\<close> has no host set, so the name recorded is empty.
\<close>

record node_worker =
  nw_epoll :: epoll_worker
  nw_orchestrator_fd :: int
  nw_node_info :: node_info

definition push_peer_fd :: "string \<Rightarrow> int \<Rightarrow> node_worker \<Rightarrow> node_worker" where
  "push_peer_fd host fd nw = nw\<lparr>nw_node_info := (nw_node_info nw)
     \<lparr>ni_other_node_fd := ni_other_node_fd (nw_node_info nw) @ [(host, fd)]\<rparr>\<rparr>"

fun node_handle_server_accept :: "accepted list \<Rightarrow> node_worker \<Rightarrow> node_worker" where
  "node_handle_server_accept [] nw = nw"
| "node_handle_server_accept ((fd, nb, ctl) # cs) nw =
     (let nw = push_peer_fd [] fd nw in
      node_handle_server_accept cs
        (nw\<lparr>nw_epoll := snd (add_connection nb ctl fd SERVER_CONN (nw_epoll nw))\<rparr>))"

text \<open>\<open>connected\<close> is the descriptor of a socket that connected, \<open>None\<close> a failed \<open>connect\<close>.\<close>

definition connect_to_peer ::
  "int option \<Rightarrow> bool \<Rightarrow> bool \<Rightarrow> string \<Rightarrow> node_worker \<Rightarrow> bool \<times> node_worker" where
  "connect_to_peer connected nb ctl host nw =
     (case connected of
        None \<Rightarrow> (False, nw)
      | Some fd \<Rightarrow>
          (let nw = push_peer_fd host fd nw;
               (ok, w) = add_connection nb ctl fd SERVER_CONN (nw_epoll nw) in
           (ok, nw\<lparr>nw_epoll := w\<rparr>)))"

definition connect_to_orchestrator ::
  "int option \<Rightarrow> bool \<Rightarrow> bool \<Rightarrow> node_worker \<Rightarrow> bool \<times> node_worker" where
  "connect_to_orchestrator connected nb ctl nw =
     (case connected of
        None \<Rightarrow> (False, nw)
      | Some fd \<Rightarrow>
          (let nw = nw\<lparr>nw_orchestrator_fd := fd,
                 nw_node_info := (nw_node_info nw)\<lparr>ni_own_orchestrator_fd := fd\<rparr>\<rparr>;
               (ok, w) = add_connection nb ctl fd SERVER_CONN (nw_epoll nw) in
           (ok, nw\<lparr>nw_epoll := w\<rparr>)))"

definition send_node_info_to_orchestrator ::
  "u64 \<Rightarrow> message \<Rightarrow> node_worker \<Rightarrow> bool \<times> node_worker" where
  "send_node_info_to_orchestrator now g nw =
     (if nw_orchestrator_fd nw < 0 then (False, nw)
      else (True, nw\<lparr>nw_epoll := enqueue_response (nw_orchestrator_fd nw)
        (create_rdma_process_registration now g (ni_node_id (nw_node_info nw)) (nw_node_info nw))
        (nw_epoll nw)\<rparr>))"

section \<open>Reading: framing does not depend on how the bytes arrive\<close>

text \<open>C9 Two reads, with the bytes \<open>d1\<close> and then \<open>d2\<close>, leave the worker in the state of one read of
  \<open>d1 @ d2\<close>: the same messages delivered, the same partial frame kept, the same connection removed.\<close>

theorem handle_read_chunking:
  "handle_read [Recv_data d1, Recv_again] fd w \<bind> handle_read [Recv_data d2, Recv_again] fd
   = handle_read [Recv_data d1, Recv_data d2, Recv_again] fd w"
proof (cases "find_conn w fd")
  case None
  then show ?thesis by (simp add: handle_read_def)
next
  case (Some st)
  have split: "parse_messages fd (st\<lparr>cs_input_buffer := cs_input_buffer st @ d1 @ d2\<rparr>) q
    = (case parse_messages fd (st\<lparr>cs_input_buffer := cs_input_buffer st @ d1\<rparr>) q of
        Waiting st' q' \<Rightarrow> parse_messages fd (st'\<lparr>cs_input_buffer := cs_input_buffer st' @ d2\<rparr>) q'
      | Removed q' \<Rightarrow> Removed q')" for q
    using parse_add_input [of fd d2 "st\<lparr>cs_input_buffer := cs_input_buffer st @ d1\<rparr>" q,
        unfolded add_input_def] by simp
  show ?thesis
    using Some
    by (auto simp: handle_read_def split put_conn_def find_conn_def remove_connection_def
        record_call_def Let_def delete_update_same dest: parse_messages_keeps
        split: parse_result.split)
qed

text \<open>A message the framing accepts.\<close>

definition sendable :: "message \<Rightarrow> bool" where
  "sendable m \<longleftrightarrow> message_ok m \<and> length (serialize_message m) \<le> 16777216"

lemma deliver_sendable:
  "sendable m \<Longrightarrow> deliver fd (serialize_message m) q = snd (eq_push q (fd, message_on_wire m))"
  using message_rd_wr [of m "[]"]
  by (simp add: sendable_def deliver_def deserialize_message_def)

lemma deliver_all_sendable:
  "list_all sendable ms \<Longrightarrow> foldl (\<lambda>q p. deliver fd p q) q (map serialize_message ms)
   = eq_push_all q (map (\<lambda>m. (fd, message_on_wire m)) ms)"
  by (induction ms arbitrary: q) (simp_all add: deliver_sendable)

lemma frame_stream: "concat (map frame ms) = concat (map frame_bytes (map serialize_message ms))"
  by (induction ms) (simp_all add: frame_def)

text \<open>C14 A stream of frames is received as exactly its messages, in order: each becomes one event of
  the queue (or is dropped when the queue is full) and the connection waits for the next header.\<close>

theorem framed_stream_received:
  assumes "find_conn w fd = Some st" and "fresh_conn st" and "cs_input_buffer st = []"
    and "list_all sendable ms"
  shows "handle_read [Recv_data (concat (map frame ms)), Recv_again] fd w
    = Some ((put_conn fd st w)\<lparr>ew_queue :=
        eq_push_all (ew_queue w) (map (\<lambda>m. (fd, message_on_wire m)) ms)\<rparr>)"
proof -
  have "list_all payload_ok (map serialize_message ms)"
    using assms(4) by (auto simp: list_all_iff sendable_def payload_ok_def)
  moreover have "put_conn fd (st\<lparr>cs_input_buffer := []\<rparr>) w = put_conn fd st w"
    using assms(3) by (cases st) simp
  ultimately show ?thesis
    using parse_frames [OF _ assms(2), of "map serialize_message ms" fd "ew_queue w"] assms
    by (simp del: map_map add: handle_read_def frame_stream deliver_all_sendable)
qed

definition sample_worker :: epoll_worker where
  "sample_worker = \<lparr>ew_running = True, ew_epoll_fd = 3,
     ew_connections = [(7, new_conn_state\<lparr>cs_type := SERVER_CONN, cs_conn := True\<rparr>)],
     ew_queue = new_event_queue 4, ew_trace = []\<rparr>"

lemma sample_message_sendable [simp]: "sendable sample_message"
  unfolding sendable_def
  by (simp, simp add: serialize_message_def sample_message_def write_uint8_def write_uint64_def
      write_string_def write_request_info_def sample_request_def write_int_def write_node_info_def
      sample_node_def write_uint16_def write_peer_info_def sample_peer_def)

theorem framed_stream_received_witness:
  "map_option (\<lambda>w. eq_queue (ew_queue w)) (handle_read
     [Recv_data (concat (map frame [sample_message, sample_message])), Recv_again] 7 sample_worker)
   = Some [(7, message_on_wire sample_message), (7, message_on_wire sample_message)]"
  using framed_stream_received [of sample_worker 7 "new_conn_state\<lparr>cs_type := SERVER_CONN, cs_conn := True\<rparr>"
      "[sample_message, sample_message]"]
  by (simp add: find_conn_def sample_worker_def new_conn_state_def new_event_queue_def eq_push_def)

text \<open>Bytes received in the same pass of the read loop as the end of the stream are lost: whatever
  complete messages they hold, the queue stays as it was and the connection is removed, because the
  loop returns before \<open>parse_messages\<close>.\<close>

theorem eof_drops_received_messages:
  "handle_read [Recv_data d, Recv_eof] fd w =
     Some (if find_conn w fd = None then w else remove_connection fd w)
   \<and> ew_queue (remove_connection fd w) = ew_queue w"
  by (simp add: handle_read_def remove_connection_def record_call_def Let_def split: option.split)

section \<open>Writing: no byte of a frame is lost, repeated or reordered\<close>

text \<open>What has been handed to the kernel for a descriptor, and what still waits.\<close>

definition sent_to :: "int \<Rightarrow> epoll_worker \<Rightarrow> bytes" where
  "sent_to fd w = concat (map (\<lambda>c. case c of Send_bytes fd' bs \<Rightarrow> if fd' = fd then bs else [] | _ \<Rightarrow> [])
     (ew_trace w))"

definition pending_for :: "int \<Rightarrow> epoll_worker \<Rightarrow> bytes" where
  "pending_for fd w = (case find_conn w fd of None \<Rightarrow> [] | Some st \<Rightarrow> cs_output_buffer st)"

lemma send_loop_conserves: "send_loop rs bs = Some (s, r, e) \<Longrightarrow> s @ r = bs \<and> (e = All_sent \<longrightarrow> r = [])"
  by (induction rs bs arbitrary: s r e rule: send_loop.induct) fastforce+

lemma sent_to_simps [simp]:
  "sent_to fd (record_call (Send_bytes fd' bs) w) = sent_to fd w @ (if fd' = fd then bs else [])"
  "sent_to fd (record_call (Ctl_mod fd' ev) w) = sent_to fd w"
  "sent_to fd (put_conn fd' st w) = sent_to fd w"
  by (simp_all add: sent_to_def record_call_def put_conn_def)

lemma find_conn_simps [simp]:
  "find_conn (put_conn fd st w) fd' = (if fd' = fd then Some st else find_conn w fd')"
  "find_conn (record_call c w) fd' = find_conn w fd'"
  "find_conn (remove_connection fd w) fd' = (if fd' = fd then None else find_conn w fd')"
  by (auto simp: find_conn_def put_conn_def record_call_def remove_connection_def Let_def
      split: option.split)

lemma enqueue_stream:
  "find_conn w fd \<noteq> None \<Longrightarrow> sent_to fd (enqueue_response fd m w) @ pending_for fd (enqueue_response fd m w)
     = sent_to fd w @ pending_for fd w @ frame m"
  by (auto simp: enqueue_response_def pending_for_def modify_epoll_def Let_def)

lemma handle_write_stream:
  "handle_write rs fd w = Some w' \<Longrightarrow> find_conn w' fd \<noteq> None \<Longrightarrow>
   sent_to fd w' @ pending_for fd w' = sent_to fd w @ pending_for fd w"
  by (auto simp: handle_write_def pending_for_def modify_epoll_def Let_def
      split: option.splits if_splits send_end.splits dest!: send_loop_conserves)

text \<open>Any interleaving of workers queueing responses and the I/O thread writing.\<close>

datatype out_op = Op_enqueue message | Op_write "send_result list"

fun out_step :: "int \<Rightarrow> out_op \<Rightarrow> epoll_worker \<Rightarrow> epoll_worker option" where
  "out_step fd (Op_enqueue m) w = Some (enqueue_response fd m w)"
| "out_step fd (Op_write rs) w = handle_write rs fd w"

fun run_out :: "int \<Rightarrow> out_op list \<Rightarrow> epoll_worker \<Rightarrow> epoll_worker option" where
  "run_out fd [] w = Some w"
| "run_out fd (o1 # os) w = out_step fd o1 w \<bind> run_out fd os"

fun enqueued :: "out_op list \<Rightarrow> message list" where
  "enqueued [] = []"
| "enqueued (Op_enqueue m # os) = m # enqueued os"
| "enqueued (Op_write rs # os) = enqueued os"

lemma out_step_known: "out_step fd p w = Some w' \<Longrightarrow> find_conn w' fd \<noteq> None \<Longrightarrow> find_conn w fd \<noteq> None"
  by (cases p) (auto simp: enqueue_response_def handle_write_def split: option.splits)

lemma run_out_known: "run_out fd os w = Some w' \<Longrightarrow> find_conn w' fd \<noteq> None \<Longrightarrow> find_conn w fd \<noteq> None"
  by (induction os arbitrary: w) (auto simp: bind_eq_Some_conv dest: out_step_known)

text \<open>C16 As long as a connection lives, the bytes sent on it followed by its output buffer are exactly the
  frames of the responses queued for it, in order, however queueing and partial writes interleave.\<close>

theorem output_stream_integrity:
  assumes "run_out fd os w = Some w'" and "find_conn w' fd \<noteq> None"
  shows "sent_to fd w' @ pending_for fd w'
    = sent_to fd w @ pending_for fd w @ concat (map frame (enqueued os))"
  using assms
proof (induction os arbitrary: w)
  case (Cons p os)
  then obtain w1 where w1: "out_step fd p w = Some w1" "run_out fd os w1 = Some w'"
    by (auto simp: bind_eq_Some_conv)
  have known: "find_conn w1 fd \<noteq> None" using run_out_known [OF w1(2) Cons.prems(2)] .
  show ?case
  proof (cases p)
    case (Op_enqueue m)
    with w1 Cons.IH [OF w1(2) Cons.prems(2)] enqueue_stream [of w fd m]
      out_step_known [OF w1(1) known] show ?thesis by simp
  next
    case (Op_write rs)
    with w1 Cons.IH [OF w1(2) Cons.prems(2)] handle_write_stream [of rs fd w w1] known
    show ?thesis by (metis append.assoc enqueued.simps(3) out_step.simps(2))
  qed
qed simp

theorem output_stream_integrity_witness:
  "\<exists>w'. run_out 7 [Op_enqueue sample_message, Op_write [Sent 5, Send_again]] sample_worker = Some w'
     \<and> sent_to 7 w' @ pending_for 7 w' = frame sample_message"
proof -
  obtain b0 b1 b2 b3 b4 b5 bs where "frame sample_message = b0 # b1 # b2 # b3 # b4 # b5 # bs"
    by (simp add: frame_def frame_bytes_def mem_of_u32_def serialize_message_def write_uint8_def)
  note ab = this
  let ?ops = "[Op_enqueue sample_message, Op_write [Sent 5, Send_again]]"
  obtain w' where w': "run_out 7 ?ops sample_worker = Some w'" "find_conn w' 7 \<noteq> None"
    by (simp add: enqueue_response_def handle_write_def sample_worker_def find_conn_def Let_def
        put_conn_def modify_epoll_def record_call_def new_conn_state_def ab)
  have "sent_to 7 sample_worker @ pending_for 7 sample_worker = []"
    by (simp add: sent_to_def pending_for_def find_conn_def sample_worker_def new_conn_state_def)
  then show ?thesis using w' output_stream_integrity [OF w'] by auto
qed

end
