(* ===== verification/Registry.thy ===== *)
theory Registry
  imports Wire
begin

text \<open>
  The orchestrator's table of nodes, \<open>src/cpp/apps/orchestrator/node_registry.cpp\<close>: what each node
  registered and the descriptor of its connection. Each method runs under the registry's mutex.
\<close>

record node_registry =
  nr_nodes :: "(string \<times> node_info) list"
  nr_fds :: "(string \<times> int) list"

definition new_registry :: node_registry where
  "new_registry = \<lparr>nr_nodes = [], nr_fds = []\<rparr>"

definition add_node :: "node_info \<Rightarrow> node_registry \<Rightarrow> node_registry" where
  "add_node n r = r\<lparr>nr_nodes := put (ni_node_id n) n (nr_nodes r)\<rparr>"

definition remove_node :: "string \<Rightarrow> node_registry \<Rightarrow> node_registry" where
  "remove_node nid r =
     (case map_of (nr_nodes r) nid of None \<Rightarrow> r | Some _ \<Rightarrow> r\<lparr>nr_nodes := erase nid (nr_nodes r)\<rparr>)"

definition update_node_health :: "string \<Rightarrow> bool \<Rightarrow> node_registry \<Rightarrow> node_registry" where
  "update_node_health nid h r =
     (case map_of (nr_nodes r) nid of
        None \<Rightarrow> r
      | Some n \<Rightarrow> r\<lparr>nr_nodes := put nid (n\<lparr>ni_is_healthy := h\<rparr>) (nr_nodes r)\<rparr>)"

definition get_total_registered_nodes :: "node_registry \<Rightarrow> nat" where
  "get_total_registered_nodes r = length (nr_nodes r)"

definition get_all_nodes :: "node_registry \<Rightarrow> node_info list" where
  "get_all_nodes r = map snd (nr_nodes r)"

definition get_nodes_by_role :: "node_role \<Rightarrow> node_registry \<Rightarrow> node_info list" where
  "get_nodes_by_role role r = filter (\<lambda>n. ni_role n = role) (map snd (nr_nodes r))"

definition get_healthy_nodes :: "node_role \<Rightarrow> node_registry \<Rightarrow> node_info list" where
  "get_healthy_nodes role r = filter (\<lambda>n. ni_role n = role \<and> ni_is_healthy n) (map snd (nr_nodes r))"

definition get_node :: "string \<Rightarrow> node_registry \<Rightarrow> node_info option" where
  "get_node nid r = map_of (nr_nodes r) nid"

definition get_node_count :: "node_role \<Rightarrow> node_registry \<Rightarrow> nat" where
  "get_node_count role r = length (filter (\<lambda>(id, n). ni_role n = role) (nr_nodes r))"

definition get_healthy_node_count :: "node_role \<Rightarrow> node_registry \<Rightarrow> nat" where
  "get_healthy_node_count role r =
     length (filter (\<lambda>(id, n). ni_role n = role \<and> ni_is_healthy n) (nr_nodes r))"

definition add_node_fd :: "string \<Rightarrow> int \<Rightarrow> node_registry \<Rightarrow> node_registry" where
  "add_node_fd nid fd r = r\<lparr>nr_fds := put nid fd (nr_fds r)\<rparr>"

definition remove_node_fd :: "string \<Rightarrow> node_registry \<Rightarrow> node_registry" where
  "remove_node_fd nid r = r\<lparr>nr_fds := erase nid (nr_fds r)\<rparr>"

definition get_node_fd :: "string \<Rightarrow> node_registry \<Rightarrow> int option" where
  "get_node_fd nid r = map_of (nr_fds r) nid"

section \<open>Invariant\<close>

text \<open>Keys are distinct and every node is stored under its own id.\<close>

definition registry_inv :: "node_registry \<Rightarrow> bool" where
  "registry_inv r \<longleftrightarrow> keys_distinct (nr_nodes r) \<and> keys_distinct (nr_fds r)
     \<and> (\<forall>nid n. map_of (nr_nodes r) nid = Some n \<longrightarrow> ni_node_id n = nid)"

lemma registry_inv_ops [intro, simp]:
  "registry_inv new_registry"
  "registry_inv r \<Longrightarrow> registry_inv (add_node n r)"
  "registry_inv r \<Longrightarrow> registry_inv (remove_node nid r)"
  "registry_inv r \<Longrightarrow> registry_inv (update_node_health nid h r)"
  "registry_inv r \<Longrightarrow> registry_inv (add_node_fd nid fd r)"
  "registry_inv r \<Longrightarrow> registry_inv (remove_node_fd nid r)"
  by (auto simp: registry_inv_def new_registry_def add_node_def remove_node_def update_node_health_def
      add_node_fd_def remove_node_fd_def simp del: map_of_eq_Some_iff split: option.splits if_splits)

lemma in_nodes_iff:
  "registry_inv r \<Longrightarrow> n \<in> snd ` set (nr_nodes r) \<longleftrightarrow> get_node (ni_node_id n) r = Some n"
proof -
  assume inv: "registry_inv r"
  have "n \<in> snd ` set (nr_nodes r) \<longleftrightarrow> (\<exists>nid. map_of (nr_nodes r) nid = Some n)"
    using inv by (force simp: registry_inv_def image_iff)
  also have "\<dots> \<longleftrightarrow> map_of (nr_nodes r) (ni_node_id n) = Some n"
    using inv unfolding registry_inv_def by blast
  finally show ?thesis by (simp add: get_node_def)
qed

lemma set_healthy_nodes:
  "registry_inv r \<Longrightarrow> set (get_healthy_nodes role r)
     = {n. get_node (ni_node_id n) r = Some n \<and> ni_role n = role \<and> ni_is_healthy n}"
  using in_nodes_iff [of r] by (auto simp: get_healthy_nodes_def)

lemma get_node_fd_add [simp]: "get_node_fd nid (add_node_fd nid' fd r) = (if nid = nid' then Some fd else get_node_fd nid r)"
  by (simp add: get_node_fd_def add_node_fd_def)

lemma get_node_add [simp]:
  "get_node nid (add_node n r) = (if nid = ni_node_id n then Some n else get_node nid r)"
  "get_node nid (add_node_fd nid' fd r) = get_node nid r"
  "get_node_fd nid (add_node n r) = get_node_fd nid r"
  by (simp_all add: get_node_def add_node_def add_node_fd_def get_node_fd_def)

end
