(* ===== verification/Router.thy ===== *)
theory Router
  imports Registry
begin

text \<open>
  The request router, \<open>src/cpp/apps/orchestrator/request_router.h\<close> and \<open>.cpp\<close>: node selection under
  three policies, load counters, and the allocation of memory slots on decode nodes. The registry the
  router refers to is an argument; \<open>draw n\<close> is the index the random policy draws below \<open>n\<close>. Each
  critical section is atomic.
\<close>

section \<open>The contract of a slot pool\<close>

text \<open>
  What the router needs of a decode node's allocator: \<open>alloc\<close> hands out the first free slot and records its
  owner, \<open>release\<close> returns the slot a request holds.
\<close>

locale slot_pool =
  fixes free_of :: "'s \<Rightarrow> int list"
    and owner :: "'s \<Rightarrow> int \<Rightarrow> string option"
    and slot_of :: "'s \<Rightarrow> string \<Rightarrow> int option"
    and alloc :: "string \<Rightarrow> 's \<Rightarrow> (int \<times> 's) option"
    and release :: "string \<Rightarrow> 's \<Rightarrow> bool \<times> 's"
  assumes alloc_none: "free_of p = [] \<Longrightarrow> alloc r p = None"
    and alloc_some: "free_of p = s # fs \<Longrightarrow> \<exists>p'. alloc r p = Some (s, p') \<and> free_of p' = fs
      \<and> owner p' = (owner p)(s \<mapsto> r) \<and> slot_of p' = (slot_of p)(r \<mapsto> s)"
    and release_none: "slot_of p r = None \<Longrightarrow> release r p = (False, p)"
    and release_some: "slot_of p r = Some s \<Longrightarrow> \<exists>p'. release r p = (True, p') \<and> free_of p' = free_of p @ [s]
      \<and> owner p' = (owner p)(s := None) \<and> slot_of p' = (slot_of p)(r := None)"
begin

definition inv :: "int \<Rightarrow> 's \<Rightarrow> bool" where
  "inv n p \<longleftrightarrow> distinct (free_of p) \<and> set (free_of p) \<inter> dom (owner p) = {}
     \<and> set (free_of p) \<union> dom (owner p) = {0..<n}
     \<and> (\<forall>r s. slot_of p r = Some s \<longrightarrow> owner p s = Some r)"

lemma inv_alloc:
  assumes "inv n p" and "alloc r p = Some (s, p')"
  shows "inv n p'" and "0 \<le> s \<and> s < n" and "s \<in> set (free_of p)" and "owner p s = None"
    and "slot_of p' r = Some s" and "r' \<noteq> r \<Longrightarrow> slot_of p' r' = slot_of p r'"
    and "length (free_of p) = Suc (length (free_of p'))"
proof -
  obtain fs where f: "free_of p = s # fs" "free_of p' = fs" "owner p' = (owner p)(s \<mapsto> r)"
    "slot_of p' = (slot_of p)(r \<mapsto> s)"
    using assms(2) alloc_none [of p r] alloc_some [of p _ _ r] by (cases "free_of p") force+
  have "s \<in> {0..<n}" "owner p s = None" using assms(1) f(1) by (auto simp: inv_def domIff)
  then show "0 \<le> s \<and> s < n" "owner p s = None" by auto
  show "s \<in> set (free_of p)" "slot_of p' r = Some s" "r' \<noteq> r \<Longrightarrow> slot_of p' r' = slot_of p r'"
    "length (free_of p) = Suc (length (free_of p'))" by (simp_all add: f)
  show "inv n p'"
    using assms(1) \<open>owner p s = None\<close> unfolding inv_def f by (auto split: if_splits)
qed

lemma inv_release: assumes "inv n p" shows "inv n (snd (release r p))"
proof (cases "slot_of p r")
  case (Some s)
  obtain p' where p': "release r p = (True, p')" "free_of p' = free_of p @ [s]"
    "owner p' = (owner p)(s := None)" "slot_of p' = (slot_of p)(r := None)"
    using release_some [OF Some] by auto
  have "owner p s = Some r" using assms Some by (simp add: inv_def)
  then show ?thesis using assms p' unfolding inv_def by (auto split: if_splits)
qed (simp add: release_none assms)

lemma exclusive: "inv n p \<Longrightarrow> slot_of p r = Some s \<Longrightarrow> slot_of p r' = Some s \<Longrightarrow> r = r'"
  unfolding inv_def by (metis option.inject)

lemma count: "inv n p \<Longrightarrow> 0 \<le> n \<Longrightarrow> int (length (free_of p)) + int (card (dom (owner p))) = n"
  unfolding inv_def
  by (metis card_Un_disjoint card_atLeastLessThan_int diff_zero distinct_card finite_Un
      finite_atLeastLessThan_int int_nat_eq of_nat_add)

end

section \<open>State\<close>

record slot_config =
  sc_max_slots_per_node :: int
  sc_buffer_size_mb :: u64
  sc_num_layers :: int
  sc_layer_size_mb :: u64

definition default_slot_config :: slot_config where
  "default_slot_config = \<lparr>sc_max_slots_per_node = 8, sc_buffer_size_mb = 16384, sc_num_layers = 32,
     sc_layer_size_mb = 128\<rparr>"

definition get_request_size_mb :: "slot_config \<Rightarrow> u64" where
  "get_request_size_mb c = word_of_int (sc_num_layers c) * sc_layer_size_mb c"

definition get_buffer_size_bytes :: "slot_config \<Rightarrow> u64" where
  "get_buffer_size_bytes c = sc_buffer_size_mb c * 1024 * 1024"

datatype routing_policy = ROUND_ROBIN | LEAST_LOADED | RANDOM

record slot_allocator =
  sa_node_id :: string
  sa_max_slots :: int
  sa_free_slots :: "int list"
  sa_request_to_slot :: "(string \<times> int) list"
  sa_slot_to_request :: "(int \<times> string) list"

definition new_slot_allocator :: "string \<Rightarrow> int \<Rightarrow> slot_allocator" where
  "new_slot_allocator nid m = \<lparr>sa_node_id = nid, sa_max_slots = m, sa_free_slots = [0..m - 1],
     sa_request_to_slot = [], sa_slot_to_request = []\<rparr>"

definition has_free_slot :: "slot_allocator \<Rightarrow> bool" where
  "has_free_slot a \<longleftrightarrow> sa_free_slots a \<noteq> []"

definition available_slots :: "slot_allocator \<Rightarrow> int" where
  "available_slots a = int (length (sa_free_slots a))"

definition used_slots :: "slot_allocator \<Rightarrow> int" where
  "used_slots a = sa_max_slots a - int (length (sa_free_slots a))"

record router =
  rt_policy :: routing_policy
  rt_slot_config :: slot_config
  rt_node_loads :: "(string \<times> int) list"
  rt_prefill_rr_index :: u64
  rt_decode_rr_index :: u64
  rt_decode_node_slots :: "(string \<times> slot_allocator) list"
  rt_request_to_decode_node :: "(string \<times> string) list"

record routing_result =
  rr_prefill_node :: node_info
  rr_decode_node :: node_info
  rr_slot_id :: int
  rr_slot_base_offset :: u64

definition new_router :: "routing_policy \<Rightarrow> slot_config \<Rightarrow> router" where
  "new_router pol c = \<lparr>rt_policy = pol, rt_slot_config = c, rt_node_loads = [], rt_prefill_rr_index = 0,
     rt_decode_rr_index = 0, rt_decode_node_slots = [], rt_request_to_decode_node = []\<rparr>"

section \<open>Slots\<close>

text \<open>Pop the front of the free queue and record both mappings.\<close>

definition alloc_in :: "string \<Rightarrow> slot_allocator \<Rightarrow> (int \<times> slot_allocator) option" where
  "alloc_in rid a =
     (case sa_free_slots a of
        [] \<Rightarrow> None
      | s # fs \<Rightarrow> Some (s, a\<lparr>sa_free_slots := fs,
          sa_request_to_slot := put rid s (sa_request_to_slot a),
          sa_slot_to_request := put s rid (sa_slot_to_request a)\<rparr>))"

definition free_in :: "string \<Rightarrow> slot_allocator \<Rightarrow> bool \<times> slot_allocator" where
  "free_in rid a =
     (case map_of (sa_request_to_slot a) rid of
        None \<Rightarrow> (False, a)
      | Some s \<Rightarrow> (True, a\<lparr>sa_free_slots := sa_free_slots a @ [s],
          sa_request_to_slot := erase rid (sa_request_to_slot a),
          sa_slot_to_request := erase s (sa_slot_to_request a)\<rparr>))"

interpretation pool: slot_pool sa_free_slots "\<lambda>a. map_of (sa_slot_to_request a)"
  "\<lambda>a. map_of (sa_request_to_slot a)" alloc_in free_in
  by unfold_locales (auto simp: alloc_in_def free_in_def fun_eq_iff)

definition find_allocator :: "router \<Rightarrow> string \<Rightarrow> slot_allocator option" where
  "find_allocator rt nid = map_of (rt_decode_node_slots rt) nid"

definition put_allocator :: "string \<Rightarrow> slot_allocator \<Rightarrow> router \<Rightarrow> router" where
  "put_allocator nid a rt = rt\<lparr>rt_decode_node_slots := put nid a (rt_decode_node_slots rt)\<rparr>"

definition initialize_node_slots :: "string \<Rightarrow> router \<Rightarrow> router" where
  "initialize_node_slots nid rt =
     (case find_allocator rt nid of
        Some _ \<Rightarrow> rt
      | None \<Rightarrow> put_allocator nid (new_slot_allocator nid (sc_max_slots_per_node (rt_slot_config rt))) rt)"

definition allocate_slot_for_node :: "string \<Rightarrow> string \<Rightarrow> router \<Rightarrow> int option \<times> router" where
  "allocate_slot_for_node nid rid rt =
     (let rt = initialize_node_slots nid rt in
      case find_allocator rt nid of
        None \<Rightarrow> (None, rt)
      | Some a \<Rightarrow>
          (case alloc_in rid a of
             None \<Rightarrow> (None, rt)
           | Some (s, a') \<Rightarrow> (Some s, put_allocator nid a' rt)))"

definition free_slot_for_node :: "string \<Rightarrow> string \<Rightarrow> router \<Rightarrow> bool \<times> router" where
  "free_slot_for_node nid rid rt =
     (case find_allocator rt nid of
        None \<Rightarrow> (False, rt)
      | Some a \<Rightarrow> (let (freed, a') = free_in rid a in (freed, if freed then put_allocator nid a' rt else rt)))"

definition free_slot :: "string \<Rightarrow> router \<Rightarrow> router" where
  "free_slot rid rt =
     (case map_of (rt_request_to_decode_node rt) rid of
        None \<Rightarrow> rt
      | Some nid \<Rightarrow> snd (free_slot_for_node nid rid
          (rt\<lparr>rt_request_to_decode_node := erase rid (rt_request_to_decode_node rt)\<rparr>)))"

definition get_available_slots :: "string \<Rightarrow> router \<Rightarrow> int" where
  "get_available_slots nid rt = (case find_allocator rt nid of
     None \<Rightarrow> sc_max_slots_per_node (rt_slot_config rt) | Some a \<Rightarrow> available_slots a)"

definition get_used_slots :: "string \<Rightarrow> router \<Rightarrow> int" where
  "get_used_slots nid rt = (case find_allocator rt nid of None \<Rightarrow> 0 | Some a \<Rightarrow> used_slots a)"

section \<open>Loads\<close>

definition get_node_load :: "string \<Rightarrow> router \<Rightarrow> int" where
  "get_node_load nid rt = (case map_of (rt_node_loads rt) nid of None \<Rightarrow> 0 | Some l \<Rightarrow> l)"

definition increment_node_load :: "string \<Rightarrow> router \<Rightarrow> router" where
  "increment_node_load nid rt =
     rt\<lparr>rt_node_loads := put nid (get_node_load nid rt + 1) (rt_node_loads rt)\<rparr>"

definition decrement_node_load :: "string \<Rightarrow> router \<Rightarrow> router" where
  "decrement_node_load nid rt =
     (case map_of (rt_node_loads rt) nid of
        None \<Rightarrow> rt
      | Some l \<Rightarrow> if l > 0 then rt\<lparr>rt_node_loads := put nid (l - 1) (rt_node_loads rt)\<rparr> else rt)"

definition reset_node_load :: "string \<Rightarrow> router \<Rightarrow> router" where
  "reset_node_load nid rt = rt\<lparr>rt_node_loads := put nid 0 (rt_node_loads rt)\<rparr>"

definition set_policy :: "routing_policy \<Rightarrow> router \<Rightarrow> router" where
  "set_policy p rt = rt\<lparr>rt_policy := p\<rparr>"

section \<open>Selection\<close>

text \<open>\<open>fetch_add(1) % n\<close>: the node and the new value of the counter.\<close>

definition select_round_robin :: "node_info list \<Rightarrow> u64 \<Rightarrow> node_info option \<times> u64" where
  "select_round_robin nodes index =
     (if nodes = [] then (None, index)
      else (Some (nodes ! unat (index mod word_of_nat (length nodes))), index + 1))"

text \<open>The first node whose load is below the smallest seen so far, starting from \<open>INT_MAX\<close>.\<close>

fun least_loaded_from :: "router \<Rightarrow> node_info option \<Rightarrow> int \<Rightarrow> node_info list \<Rightarrow> node_info option" where
  "least_loaded_from rt best m [] = best"
| "least_loaded_from rt best m (n # ns) =
     (let load = get_node_load (ni_node_id n) rt in
      if load < m then least_loaded_from rt (Some n) load ns else least_loaded_from rt best m ns)"

definition select_least_loaded :: "router \<Rightarrow> node_info list \<Rightarrow> node_info option" where
  "select_least_loaded rt nodes = (if nodes = [] then None else least_loaded_from rt None INT_MAX nodes)"

definition select_random :: "(nat \<Rightarrow> nat) \<Rightarrow> node_info list \<Rightarrow> node_info option" where
  "select_random draw nodes = (if nodes = [] then None else Some (nodes ! draw (length nodes)))"

text \<open>What \<open>uniform_int_distribution(0, n - 1)\<close> guarantees.\<close>

definition draw_ok :: "(nat \<Rightarrow> nat) \<Rightarrow> bool" where
  "draw_ok draw \<longleftrightarrow> (\<forall>n. 0 < n \<longrightarrow> draw n < n)"

text \<open>The switch over the policy; the round-robin counter is the caller's.\<close>

definition select_by_policy ::
  "(nat \<Rightarrow> nat) \<Rightarrow> router \<Rightarrow> node_info list \<Rightarrow> u64 \<Rightarrow> node_info option \<times> u64" where
  "select_by_policy draw rt nodes index =
     (case rt_policy rt of
        ROUND_ROBIN \<Rightarrow> select_round_robin nodes index
      | LEAST_LOADED \<Rightarrow> (select_least_loaded rt nodes, index)
      | RANDOM \<Rightarrow> (select_random draw nodes, index))"

definition select_prefill_node ::
  "(nat \<Rightarrow> nat) \<Rightarrow> node_registry \<Rightarrow> router \<Rightarrow> node_info option \<times> router" where
  "select_prefill_node draw reg rt =
     (let nodes = get_healthy_nodes PREFILL reg in
      if nodes = [] then (None, rt)
      else let (sel, i) = select_by_policy draw rt nodes (rt_prefill_rr_index rt)
           in (sel, rt\<lparr>rt_prefill_rr_index := i\<rparr>))"

definition select_decode_node ::
  "(nat \<Rightarrow> nat) \<Rightarrow> node_registry \<Rightarrow> router \<Rightarrow> node_info option \<times> router" where
  "select_decode_node draw reg rt =
     (let nodes = get_healthy_nodes DECODE reg in
      if nodes = [] then (None, rt)
      else let (sel, i) = select_by_policy draw rt nodes (rt_decode_rr_index rt)
           in (sel, rt\<lparr>rt_decode_rr_index := i\<rparr>))"

definition select_decode_node_for_prefill ::
  "(nat \<Rightarrow> nat) \<Rightarrow> node_registry \<Rightarrow> string \<Rightarrow> router \<Rightarrow> node_info option \<times> router" where
  "select_decode_node_for_prefill draw reg prefill_id rt = select_decode_node draw reg rt"

text \<open>Allocators are made for the healthy decode nodes that have none, then the full ones are left out.\<close>

definition init_all :: "node_info list \<Rightarrow> router \<Rightarrow> router" where
  "init_all nodes rt = foldl (\<lambda>rt n. initialize_node_slots (ni_node_id n) rt) rt nodes"

definition nodes_with_slots :: "node_info list \<Rightarrow> router \<Rightarrow> node_info list" where
  "nodes_with_slots nodes rt = filter (\<lambda>n. case find_allocator rt (ni_node_id n) of
     None \<Rightarrow> False | Some a \<Rightarrow> has_free_slot a) nodes"

definition select_decode_node_with_slot ::
  "(nat \<Rightarrow> nat) \<Rightarrow> node_registry \<Rightarrow> router \<Rightarrow> node_info option \<times> router" where
  "select_decode_node_with_slot draw reg rt =
     (let nodes = get_healthy_nodes DECODE reg in
      if nodes = [] then (None, rt)
      else
        let rt = init_all nodes rt; cand = nodes_with_slots nodes rt in
        if cand = [] then (None, rt)
        else let (sel, i) = select_by_policy draw rt cand (rt_decode_rr_index rt)
             in (sel, rt\<lparr>rt_decode_rr_index := i\<rparr>))"

definition slot_offset :: "slot_config \<Rightarrow> int \<Rightarrow> u64" where
  "slot_offset c s = word_of_int s * (get_request_size_mb c * 1024 * 1024)"

text \<open>\<open>draw 0\<close> is the draw for the prefill node, \<open>draw 1\<close> the one for the decode node.\<close>

definition draws_ok :: "(nat \<Rightarrow> nat \<Rightarrow> nat) \<Rightarrow> bool" where
  "draws_ok draw \<longleftrightarrow> (\<forall>i. draw_ok (draw i))"

definition select_nodes_and_allocate_slot ::
  "(nat \<Rightarrow> nat \<Rightarrow> nat) \<Rightarrow> node_registry \<Rightarrow> string \<Rightarrow> router \<Rightarrow> routing_result option \<times> router" where
  "select_nodes_and_allocate_slot draw reg rid rt =
     (case select_prefill_node (draw 0) reg rt of
        (None, rt) \<Rightarrow> (None, rt)
      | (Some p, rt) \<Rightarrow>
          (case select_decode_node_with_slot (draw 1) reg rt of
             (None, rt) \<Rightarrow> (None, rt)
           | (Some d, rt) \<Rightarrow>
               (case allocate_slot_for_node (ni_node_id d) rid rt of
                  (None, rt) \<Rightarrow> (None, rt)
                | (Some s, rt) \<Rightarrow>
                    (Some \<lparr>rr_prefill_node = p, rr_decode_node = d, rr_slot_id = s,
                       rr_slot_base_offset = slot_offset (rt_slot_config rt) s\<rparr>,
                     rt\<lparr>rt_request_to_decode_node :=
                          put rid (ni_node_id d) (rt_request_to_decode_node rt)\<rparr>))))"

section \<open>Invariants\<close>

text \<open>Every allocator is a well-formed pool of the configured size, every load is non-negative.\<close>

definition allocator_inv :: "int \<Rightarrow> slot_allocator \<Rightarrow> bool" where
  "allocator_inv m a \<longleftrightarrow> sa_max_slots a = m \<and> pool.inv m a"

definition rt_inv :: "router \<Rightarrow> bool" where
  "rt_inv rt \<longleftrightarrow>
     (\<forall>nid a. find_allocator rt nid = Some a \<longrightarrow> allocator_inv (sc_max_slots_per_node (rt_slot_config rt)) a)
     \<and> (\<forall>nid. 0 \<le> get_node_load nid rt)"

lemma allocator_inv_new: "allocator_inv m (new_slot_allocator nid m)"
  by (auto simp: allocator_inv_def new_slot_allocator_def pool.inv_def)

lemma allocator_inv_alloc: "allocator_inv m a \<Longrightarrow> alloc_in rid a = Some (s, a') \<Longrightarrow> allocator_inv m a'"
  using pool.inv_alloc(1) [of m a rid s a'] by (auto simp: allocator_inv_def alloc_in_def split: list.splits)

lemma allocator_inv_free: "allocator_inv m a \<Longrightarrow> allocator_inv m (snd (free_in rid a))"
  using pool.inv_release [of m a rid] by (auto simp: allocator_inv_def free_in_def split: option.splits)

lemma find_allocator_simps [simp]:
  "find_allocator (put_allocator nid a rt) nid' = (if nid' = nid then Some a else find_allocator rt nid')"
  "find_allocator (rt\<lparr>rt_prefill_rr_index := i\<rparr>) nid' = find_allocator rt nid'"
  "find_allocator (rt\<lparr>rt_decode_rr_index := i\<rparr>) nid' = find_allocator rt nid'"
  "find_allocator (rt\<lparr>rt_request_to_decode_node := m\<rparr>) nid' = find_allocator rt nid'"
  "find_allocator (rt\<lparr>rt_node_loads := l\<rparr>) nid' = find_allocator rt nid'"
  "find_allocator (rt\<lparr>rt_policy := p\<rparr>) nid' = find_allocator rt nid'"
  by (auto simp: find_allocator_def put_allocator_def)

lemma find_initialize [simp]:
  "find_allocator (initialize_node_slots nid rt) nid' =
     (case find_allocator rt nid' of
        Some a \<Rightarrow> Some a
      | None \<Rightarrow> if nid' = nid then Some (new_slot_allocator nid (sc_max_slots_per_node (rt_slot_config rt))) else None)"
  "rt_slot_config (initialize_node_slots nid rt) = rt_slot_config rt"
  "rt_node_loads (initialize_node_slots nid rt) = rt_node_loads rt"
  "rt_policy (initialize_node_slots nid rt) = rt_policy rt"
  "rt_request_to_decode_node (initialize_node_slots nid rt) = rt_request_to_decode_node rt"
  by (auto simp: initialize_node_slots_def put_allocator_def find_allocator_def split: option.splits)

lemma init_all_simps [simp]:
  "init_all [] rt = rt" "init_all (n # ns) rt = init_all ns (initialize_node_slots (ni_node_id n) rt)"
  by (simp_all add: init_all_def)

lemma init_all_facts:
  "find_allocator (init_all nodes rt) nid =
     (case find_allocator rt nid of
        Some a \<Rightarrow> Some a
      | None \<Rightarrow> if nid \<in> ni_node_id ` set nodes
          then Some (new_slot_allocator nid (sc_max_slots_per_node (rt_slot_config rt))) else None)"
  "rt_slot_config (init_all nodes rt) = rt_slot_config rt"
  "rt_node_loads (init_all nodes rt) = rt_node_loads rt"
  "rt_policy (init_all nodes rt) = rt_policy rt"
  "rt_request_to_decode_node (init_all nodes rt) = rt_request_to_decode_node rt"
proof (induction nodes arbitrary: rt)
  case (Cons n nodes)
  { case 1 show ?case by (auto simp: Cons.IH split: option.split) }
  { case 2 show ?case by (simp add: Cons.IH) }
  { case 3 show ?case by (simp add: Cons.IH) }
  { case 4 show ?case by (simp add: Cons.IH) }
  { case 5 show ?case by (simp add: Cons.IH) }
qed (auto split: option.split)

lemma get_node_load_cong: "rt_node_loads rt' = rt_node_loads rt \<Longrightarrow> get_node_load nid rt' = get_node_load nid rt"
  by (simp add: get_node_load_def)

lemma rt_inv_D: "rt_inv rt \<Longrightarrow> find_allocator rt nid = Some a \<Longrightarrow>
    allocator_inv (sc_max_slots_per_node (rt_slot_config rt)) a"
  by (simp add: rt_inv_def)

lemma put_allocator_sel [simp]:
  "rt_slot_config (put_allocator nid a rt) = rt_slot_config rt"
  "rt_node_loads (put_allocator nid a rt) = rt_node_loads rt"
  "rt_request_to_decode_node (put_allocator nid a rt) = rt_request_to_decode_node rt"
  by (simp_all add: put_allocator_def)

lemma rt_inv_put:
  assumes "rt_inv rt" "allocator_inv (sc_max_slots_per_node (rt_slot_config rt)) a"
  shows "rt_inv (put_allocator nid a rt)"
  using assms by (simp add: rt_inv_def get_node_load_cong [OF put_allocator_sel(2)])

lemma rt_inv_init: "rt_inv rt \<Longrightarrow> rt_inv (initialize_node_slots nid rt)"
  by (simp add: initialize_node_slots_def rt_inv_put allocator_inv_new split: option.split)

lemma rt_inv_init_all: "rt_inv rt \<Longrightarrow> rt_inv (init_all nodes rt)"
  by (induction nodes arbitrary: rt) (simp_all add: rt_inv_init)

lemma rt_inv_irrelevant [simp]:
  "rt_inv (rt\<lparr>rt_prefill_rr_index := i\<rparr>) = rt_inv rt" "rt_inv (rt\<lparr>rt_decode_rr_index := i\<rparr>) = rt_inv rt"
  "rt_inv (rt\<lparr>rt_request_to_decode_node := m\<rparr>) = rt_inv rt" "rt_inv (rt\<lparr>rt_policy := p\<rparr>) = rt_inv rt"
  by (simp_all add: rt_inv_def get_node_load_def)

lemma rt_inv_allocate:
  assumes "rt_inv rt" shows "rt_inv (snd (allocate_slot_for_node nid rid rt))"
proof -
  let ?rt = "initialize_node_slots nid rt"
  have inv: "rt_inv ?rt" using assms by (rule rt_inv_init)
  show ?thesis
  proof (cases "find_allocator ?rt nid")
    case (Some a)
    show ?thesis
    proof (cases "alloc_in rid a")
      case (Some sa)
      then show ?thesis
        using rt_inv_put [OF inv] allocator_inv_alloc [OF rt_inv_D [OF inv \<open>find_allocator ?rt nid = Some a\<close>]]
          \<open>find_allocator ?rt nid = Some a\<close>
        by (cases sa) (simp add: allocate_slot_for_node_def Let_def)
    qed (simp add: allocate_slot_for_node_def Let_def Some inv del: find_initialize)
  qed (simp add: allocate_slot_for_node_def Let_def inv del: find_initialize)
qed

lemma rt_inv_free: assumes "rt_inv rt" shows "rt_inv (free_slot rid rt)"
proof (cases "map_of (rt_request_to_decode_node rt) rid")
  case (Some nid)
  let ?rt = "rt\<lparr>rt_request_to_decode_node := erase rid (rt_request_to_decode_node rt)\<rparr>"
  have inv: "rt_inv ?rt" using assms by simp
  show ?thesis
  proof (cases "find_allocator ?rt nid")
    case (Some a)
    then show ?thesis
      using \<open>map_of _ rid = Some nid\<close> rt_inv_put [OF inv] allocator_inv_free [OF rt_inv_D [OF inv Some]] inv
      by (cases "free_in rid a") (simp add: free_slot_def free_slot_for_node_def, metis snd_conv)
  qed (use \<open>map_of _ rid = Some nid\<close> inv in \<open>simp add: free_slot_def free_slot_for_node_def\<close>)
qed (simp add: free_slot_def assms)

lemma rt_inv_loads:
  "rt_inv rt \<Longrightarrow> rt_inv (increment_node_load nid rt)" "rt_inv rt \<Longrightarrow> rt_inv (decrement_node_load nid rt)"
  "rt_inv rt \<Longrightarrow> rt_inv (reset_node_load nid rt)"
  by (auto simp: rt_inv_def increment_node_load_def decrement_node_load_def reset_node_load_def
      get_node_load_def split: option.splits)

lemma rt_inv_new: "rt_inv (new_router p c)"
  by (simp add: rt_inv_def new_router_def find_allocator_def get_node_load_def)

section \<open>Selection\<close>

lemma round_robin_in: "select_round_robin nodes i = (Some n, j) \<Longrightarrow> length nodes < 2 ^ 64 \<Longrightarrow> n \<in> set nodes"
  by (auto simp: select_round_robin_def unat_mod unsigned_of_nat take_bit_nat_eq_self split: if_splits)

lemma least_loaded_from_min:
  "least_loaded_from rt best m ns = Some n \<Longrightarrow> (\<And>b. best = Some b \<Longrightarrow> get_node_load (ni_node_id b) rt = m) \<Longrightarrow>
   (n \<in> set ns \<or> best = Some n) \<and> get_node_load (ni_node_id n) rt \<le> m
     \<and> (\<forall>n' \<in> set ns. get_node_load (ni_node_id n) rt \<le> get_node_load (ni_node_id n') rt)
   \<or> best = None \<and> n \<in> set ns \<and> get_node_load (ni_node_id n) rt < m
     \<and> (\<forall>n' \<in> set ns. get_node_load (ni_node_id n) rt \<le> get_node_load (ni_node_id n') rt)"
proof (induction ns arbitrary: best m)
  case (Cons x xs)
  show ?case
  proof (cases "get_node_load (ni_node_id x) rt < m")
    case True
    then have "least_loaded_from rt (Some x) (get_node_load (ni_node_id x) rt) xs = Some n"
      using Cons.prems(1) by simp
    from Cons.IH [OF this] True show ?thesis by auto
  next
    case False
    then have "least_loaded_from rt best m xs = Some n" using Cons.prems(1) by simp
    from Cons.IH [OF this Cons.prems(2)] False show ?thesis by auto
  qed
qed auto

lemma least_loaded_from_some: "best \<noteq> None \<Longrightarrow> least_loaded_from rt best m ns \<noteq> None"
  by (induction ns arbitrary: best m) (simp_all add: Let_def)

lemma least_loaded_defined:
  "\<exists>n \<in> set ns. get_node_load (ni_node_id n) rt < m \<Longrightarrow> least_loaded_from rt best m ns \<noteq> None"
proof (induction ns arbitrary: best m)
  case (Cons a ns)
  show ?case
  proof (cases "get_node_load (ni_node_id a) rt < m")
    case True
    then show ?thesis using least_loaded_from_some [of "Some a" rt "get_node_load (ni_node_id a) rt" ns] by simp
  next
    case False
    then show ?thesis using Cons.IH [of m best] Cons.prems by auto
  qed
qed simp

lemma select_by_policy_in:
  assumes "select_by_policy draw rt nodes i = (Some n, j)" "nodes \<noteq> []" "length nodes < 2 ^ 64"
    "draw_ok draw"
  shows "n \<in> set nodes"
proof (cases "rt_policy rt")
  case ROUND_ROBIN
  then show ?thesis using assms by (auto simp: select_by_policy_def dest: round_robin_in)
next
  case LEAST_LOADED
  then show ?thesis using assms(1) least_loaded_from_min [of rt None INT_MAX nodes n]
    by (auto simp: select_by_policy_def select_least_loaded_def split: if_splits)
next
  case RANDOM
  then show ?thesis using assms by (auto simp: select_by_policy_def select_random_def draw_ok_def)
qed

lemma select_by_policy_defined:
  assumes "nodes \<noteq> []" "\<And>n. get_node_load n rt < INT_MAX"
  shows "fst (select_by_policy draw rt nodes i) \<noteq> None"
proof (cases "rt_policy rt")
  case LEAST_LOADED
  have "\<exists>n \<in> set nodes. get_node_load (ni_node_id n) rt < INT_MAX"
    using assms by (cases nodes) auto
  then show ?thesis
    using least_loaded_defined [of nodes rt INT_MAX None] LEAST_LOADED assms(1)
    by (simp add: select_by_policy_def select_least_loaded_def)
qed (simp_all add: select_by_policy_def select_round_robin_def select_random_def assms(1))

text \<open>The least-loaded policy picks a node of the list with the smallest load.\<close>

theorem least_loaded_minimal:
  assumes "select_least_loaded rt nodes = Some n"
  shows "n \<in> set nodes
    \<and> (\<forall>n' \<in> set nodes. get_node_load (ni_node_id n) rt \<le> get_node_load (ni_node_id n') rt)"
  using assms least_loaded_from_min [of rt None INT_MAX nodes n]
  by (auto simp: select_least_loaded_def split: if_splits)

definition sample_registry :: node_registry where
  "sample_registry = add_node (sample_node\<lparr>ni_node_id := ''d1'', ni_role := DECODE\<rparr>)
     (add_node (sample_node\<lparr>ni_node_id := ''d0'', ni_role := DECODE\<rparr>) (add_node sample_node new_registry))"

definition sample_router :: router where
  "sample_router = increment_node_load ''d0'' (new_router LEAST_LOADED default_slot_config)"

lemmas sample_router_simps = sample_registry_def sample_router_def sample_node_def add_node_def
  new_registry_def new_router_def increment_node_load_def get_node_load_def default_slot_config_def
  get_healthy_nodes_def

theorem least_loaded_minimal_witness:
  "\<exists>n. select_least_loaded sample_router (get_healthy_nodes DECODE sample_registry) = Some n
     \<and> get_node_load (ni_node_id n) sample_router \<le> get_node_load ''d0'' sample_router"
proof -
  obtain n where n: "select_least_loaded sample_router (get_healthy_nodes DECODE sample_registry) = Some n"
    by (simp add: select_least_loaded_def sample_router_simps INT_MAX_def)
  have "\<exists>n' \<in> set (get_healthy_nodes DECODE sample_registry). ni_node_id n' = ''d0''"
    by (simp add: sample_router_simps)
  then obtain n' where "n' \<in> set (get_healthy_nodes DECODE sample_registry)" "ni_node_id n' = ''d0''" ..
  then show ?thesis using least_loaded_minimal [OF n] n by metis
qed

text \<open>Repeated round-robin selection from the same list of nodes.\<close>

fun round_robin_n :: "nat \<Rightarrow> node_info list \<Rightarrow> u64 \<Rightarrow> node_info list" where
  "round_robin_n 0 nodes i = []"
| "round_robin_n (Suc k) nodes i =
     (case select_round_robin nodes i of (None, j) \<Rightarrow> [] | (Some n, j) \<Rightarrow> n # round_robin_n k nodes j)"

lemma round_robin_n_map:
  "nodes \<noteq> [] \<Longrightarrow> unat i + k < 2 ^ 64 \<Longrightarrow> length nodes < 2 ^ 64 \<Longrightarrow>
   round_robin_n k nodes i = map (\<lambda>j. nodes ! ((unat i + j) mod length nodes)) [0..<k]"
proof (induction k arbitrary: i)
  case (Suc k)
  have "unat (i + 1) = unat i + 1"
    using Suc.prems(2) by (simp add: unat_word_ariths)
  then have "round_robin_n k nodes (i + 1) = map (\<lambda>j. nodes ! ((unat i + Suc j) mod length nodes)) [0..<k]"
    using Suc.IH [of "i + 1"] Suc.prems by simp
  moreover have "[0..<Suc k] = 0 # map Suc [0..<k]" by (simp add: map_Suc_upt upt_conv_Cons del: upt_Suc)
  ultimately show ?case
    using Suc.prems
    by (simp add: select_round_robin_def unat_mod unsigned_of_nat take_bit_nat_eq_self comp_def del: upt_Suc)
qed simp

text \<open>Round robin is fair: as many selections as there are nodes visit every node exactly once, in the order
  of the list starting behind the previous selection (as long as the 64-bit counter does not wrap).\<close>

theorem round_robin_fair:
  assumes "nodes \<noteq> []" and "unat i + length nodes < 2 ^ 64"
  shows "round_robin_n (length nodes) nodes i = rotate (unat i mod length nodes) nodes"
proof (rule nth_equalityI)
  have len: "length nodes < 2 ^ 64" using assms(2) by simp
  show "length (round_robin_n (length nodes) nodes i) = length (rotate (unat i mod length nodes) nodes)"
    using round_robin_n_map [OF assms len] by simp
  fix k assume "k < length (round_robin_n (length nodes) nodes i)"
  then show "round_robin_n (length nodes) nodes i ! k = rotate (unat i mod length nodes) nodes ! k"
    using round_robin_n_map [OF assms len] by (simp add: nth_rotate mod_simps add.commute)
qed

theorem round_robin_fair_witness:
  "map ni_node_id (round_robin_n 3 [sample_node, sample_node\<lparr>ni_node_id := ''p1''\<rparr>, sample_node\<lparr>ni_node_id := ''p2''\<rparr>] 4)
     = [''p1'', ''p2'', ''p0'']"
proof -
  let ?ns = "[sample_node, sample_node\<lparr>ni_node_id := ''p1''\<rparr>, sample_node\<lparr>ni_node_id := ''p2''\<rparr>]"
  have len: "length ?ns = 3" by simp
  have "unat (4 :: u64) + length ?ns < 2 ^ 64" by simp
  from round_robin_fair [OF _ this, unfolded len] have "round_robin_n 3 ?ns 4 = rotate 1 ?ns" by simp
  then show ?thesis by (simp add: sample_node_def del: round_robin_n.simps)
qed

section \<open>What a successful selection does\<close>

lemma available_slots_simps:
  "get_available_slots nid rt = (case find_allocator rt nid of
     None \<Rightarrow> sc_max_slots_per_node (rt_slot_config rt) | Some a \<Rightarrow> int (length (sa_free_slots a)))"
  by (simp add: get_available_slots_def available_slots_def split: option.split)

lemma available_init_all:
  "0 \<le> sc_max_slots_per_node (rt_slot_config rt) \<Longrightarrow>
   get_available_slots nid (init_all nodes rt) = get_available_slots nid rt"
  by (auto simp: available_slots_simps init_all_facts new_slot_allocator_def split: option.split)

lemma select_prefill_facts:
  assumes "select_prefill_node draw reg rt = (sel, rt1)"
  shows "find_allocator rt1 = find_allocator rt" "rt_slot_config rt1 = rt_slot_config rt"
    "rt_node_loads rt1 = rt_node_loads rt" "rt_request_to_decode_node rt1 = rt_request_to_decode_node rt"
    "rt_inv rt \<Longrightarrow> rt_inv rt1"
    "sel = Some p \<Longrightarrow> length (nr_nodes reg) < 2 ^ 64 \<Longrightarrow> draw_ok draw \<Longrightarrow>
       p \<in> set (get_healthy_nodes PREFILL reg)"
    "sel = None \<Longrightarrow> (\<And>n. get_node_load n rt < INT_MAX) \<Longrightarrow> get_healthy_nodes PREFILL reg = []"
proof -
  let ?ns = "get_healthy_nodes PREFILL reg"
  obtain s i where si: "select_by_policy draw rt ?ns (rt_prefill_rr_index rt) = (s, i)" by fastforce
  have len: "length (nr_nodes reg) < 2 ^ 64 \<Longrightarrow> length ?ns < 2 ^ 64"
    using length_filter_le [of "\<lambda>n. ni_role n = PREFILL \<and> ni_is_healthy n" "map snd (nr_nodes reg)"]
    unfolding get_healthy_nodes_def length_map by linarith
  have rt1: "rt1 = (if ?ns = [] then rt else rt\<lparr>rt_prefill_rr_index := i\<rparr>)"
    and sel: "sel = (if ?ns = [] then None else s)"
    using assms si by (auto simp: select_prefill_node_def Let_def split: if_splits)
  show "find_allocator rt1 = find_allocator rt" "rt_slot_config rt1 = rt_slot_config rt"
    "rt_node_loads rt1 = rt_node_loads rt" "rt_request_to_decode_node rt1 = rt_request_to_decode_node rt"
    "rt_inv rt \<Longrightarrow> rt_inv rt1"
    by (simp_all add: rt1 fun_eq_iff)
  show "p \<in> set ?ns" if "sel = Some p" "length (nr_nodes reg) < 2 ^ 64" "draw_ok draw"
    using select_by_policy_in [of draw rt ?ns "rt_prefill_rr_index rt" p i] that si sel len
    by (simp split: if_splits)
  show "?ns = []" if "sel = None" "\<And>n. get_node_load n rt < INT_MAX"
    using select_by_policy_defined [of ?ns rt draw "rt_prefill_rr_index rt"] that si sel
    by (simp split: if_splits)
qed

lemma in_nodes_with_slots:
  "n \<in> set (nodes_with_slots ns rt) \<longleftrightarrow>
     n \<in> set ns \<and> (\<exists>a. find_allocator rt (ni_node_id n) = Some a \<and> sa_free_slots a \<noteq> [])"
  by (auto simp: nodes_with_slots_def has_free_slot_def split: option.splits)

lemma select_decode_facts:
  assumes "select_decode_node_with_slot draw reg rt = (sel, rt1)"
  shows "find_allocator rt1 = find_allocator (init_all (get_healthy_nodes DECODE reg) rt)"
    "rt_slot_config rt1 = rt_slot_config rt" "rt_node_loads rt1 = rt_node_loads rt"
    "rt_request_to_decode_node rt1 = rt_request_to_decode_node rt" "rt_inv rt \<Longrightarrow> rt_inv rt1"
    "sel = Some d \<Longrightarrow> length (nr_nodes reg) < 2 ^ 64 \<Longrightarrow> draw_ok draw \<Longrightarrow>
       d \<in> set (nodes_with_slots (get_healthy_nodes DECODE reg) rt1)"
    "sel = None \<Longrightarrow> (\<And>n. get_node_load n rt < INT_MAX) \<Longrightarrow>
       nodes_with_slots (get_healthy_nodes DECODE reg) rt1 = []"
proof -
  let ?ns = "get_healthy_nodes DECODE reg"
  let ?rt = "init_all ?ns rt"
  let ?c = "nodes_with_slots ?ns ?rt"
  obtain s i where si: "select_by_policy draw ?rt ?c (rt_decode_rr_index ?rt) = (s, i)" by fastforce
  have rt1: "rt1 = (if ?ns = [] then rt else if ?c = [] then ?rt else ?rt\<lparr>rt_decode_rr_index := i\<rparr>)"
    and sel: "sel = (if ?ns = [] then None else if ?c = [] then None else s)"
    using assms si by (auto simp: select_decode_node_with_slot_def Let_def split: if_splits)
  have len: "length ?c < 2 ^ 64" if "length (nr_nodes reg) < 2 ^ 64"
  proof -
    have "length ?c \<le> length ?ns" by (simp add: nodes_with_slots_def)
    also have "\<dots> \<le> length (nr_nodes reg)"
      using length_filter_le [of "\<lambda>n. ni_role n = DECODE \<and> ni_is_healthy n" "map snd (nr_nodes reg)"]
      unfolding get_healthy_nodes_def length_map .
    finally show ?thesis using that by simp
  qed
  have c1: "?ns \<noteq> [] \<Longrightarrow> nodes_with_slots ?ns rt1 = ?c"
    by (simp add: rt1 nodes_with_slots_def)
  show "find_allocator rt1 = find_allocator ?rt" "rt_slot_config rt1 = rt_slot_config rt"
    "rt_node_loads rt1 = rt_node_loads rt" "rt_request_to_decode_node rt1 = rt_request_to_decode_node rt"
    "rt_inv rt \<Longrightarrow> rt_inv rt1"
    by (auto simp: rt1 fun_eq_iff init_all_facts(2-5) rt_inv_init_all)
  show "d \<in> set (nodes_with_slots ?ns rt1)"
    if "sel = Some d" "length (nr_nodes reg) < 2 ^ 64" "draw_ok draw"
    using select_by_policy_in [of draw ?rt ?c "rt_decode_rr_index ?rt" d i] that si sel len c1
    by (simp split: if_splits)
  show "sel = None \<Longrightarrow> (\<And>n. get_node_load n rt < INT_MAX) \<Longrightarrow> nodes_with_slots ?ns rt1 = []"
  proof -
    assume n: "sel = None" and l: "\<And>n. get_node_load n rt < INT_MAX"
    have "get_node_load n ?rt < INT_MAX" for n
      using l by (simp add: get_node_load_cong [OF init_all_facts(3)])
    then have "?ns = [] \<or> ?c = []"
      using select_by_policy_defined [of ?c ?rt draw "rt_decode_rr_index ?rt"] si sel n by (auto split: if_splits)
    then show ?thesis using c1 by (cases "?ns = []") (simp_all add: nodes_with_slots_def)
  qed
qed

lemma allocate_facts:
  assumes "rt_inv rt" and "find_allocator rt nid = Some a" and "sa_free_slots a \<noteq> []"
  obtains s a' where "alloc_in rid a = Some (s, a')"
    "allocate_slot_for_node nid rid rt = (Some s, put_allocator nid a' rt)"
proof -
  obtain s a' where "alloc_in rid a = Some (s, a')"
    using assms(3) by (auto simp: alloc_in_def neq_Nil_conv)
  moreover have "initialize_node_slots nid rt = rt"
    using assms(2) by (simp add: initialize_node_slots_def)
  ultimately show ?thesis using that assms(2) by (simp add: allocate_slot_for_node_def)
qed

text \<open>The three steps of a successful selection put together.\<close>

lemma select_nodes_cases:
  assumes "select_nodes_and_allocate_slot draw reg rid rt = (res, rt')"
    and inv: "rt_inv rt" and len: "length (nr_nodes reg) < 2 ^ 64" and draws: "draws_ok draw"
  obtains (fail) "res = None" "rt_inv rt'"
      "(\<And>n. get_node_load n rt < INT_MAX) \<Longrightarrow> get_healthy_nodes PREFILL reg = []
         \<or> nodes_with_slots (get_healthy_nodes DECODE reg) (init_all (get_healthy_nodes DECODE reg) rt) = []"
  | (ok) p d s a a' rt2 where "p \<in> set (get_healthy_nodes PREFILL reg)" "d \<in> set (get_healthy_nodes DECODE reg)"
      "rt_inv rt2" "find_allocator rt2 = find_allocator (init_all (get_healthy_nodes DECODE reg) rt)"
      "rt_slot_config rt2 = rt_slot_config rt" "rt_node_loads rt2 = rt_node_loads rt"
      "rt_request_to_decode_node rt2 = rt_request_to_decode_node rt"
      "find_allocator rt2 (ni_node_id d) = Some a" "alloc_in rid a = Some (s, a')"
      "res = Some \<lparr>rr_prefill_node = p, rr_decode_node = d, rr_slot_id = s,
         rr_slot_base_offset = slot_offset (rt_slot_config rt) s\<rparr>"
      "rt' = (put_allocator (ni_node_id d) a' rt2)
         \<lparr>rt_request_to_decode_node := put rid (ni_node_id d) (rt_request_to_decode_node rt)\<rparr>"
proof -
  let ?D = "get_healthy_nodes DECODE reg"
  have draw: "draw_ok (draw 0)" "draw_ok (draw 1)" using draws by (simp_all add: draws_ok_def)
  obtain sp rt1 where 1: "select_prefill_node (draw 0) reg rt = (sp, rt1)" by fastforce
  obtain sd rt2 where 2: "select_decode_node_with_slot (draw 1) reg rt1 = (sd, rt2)" by fastforce
  note f1 = select_prefill_facts [OF 1] and f2 = select_decode_facts [OF 2]
  have fa: "find_allocator rt2 = find_allocator (init_all ?D rt)"
    unfolding f2(1) by (simp only: fun_eq_iff init_all_facts(1) f1(1,2)) simp
  have load: "get_node_load n rt1 = get_node_load n rt" for n by (rule get_node_load_cong, rule f1)
  show ?thesis
  proof (cases sp)
    case None
    with assms(1) 1 f1(5) [OF inv] f1(7) show ?thesis
      by (intro fail) (auto simp: select_nodes_and_allocate_slot_def)
  next
    case (Some p)
    show ?thesis
    proof (cases sd)
      case None
      have "(\<And>n. get_node_load n rt < INT_MAX) \<Longrightarrow> nodes_with_slots ?D (init_all ?D rt) = []"
        using f2(7) [OF None] fa by (simp add: load nodes_with_slots_def)
      with assms(1) 1 2 Some None f1(5) f2(5) inv show ?thesis
        by (intro fail) (auto simp: select_nodes_and_allocate_slot_def)
    next
      case (Some d)
      have d: "d \<in> set ?D" "\<exists>a. find_allocator rt2 (ni_node_id d) = Some a \<and> sa_free_slots a \<noteq> []"
        using f2(6) [OF Some len draw(2)] by (auto simp: in_nodes_with_slots)
      then obtain a where a: "find_allocator rt2 (ni_node_id d) = Some a" "sa_free_slots a \<noteq> []" by blast
      have inv2: "rt_inv rt2" using f1(5) f2(5) inv by blast
      obtain s a' where sa: "alloc_in rid a = Some (s, a')"
        "allocate_slot_for_node (ni_node_id d) rid rt2 = (Some s, put_allocator (ni_node_id d) a' rt2)"
        using allocate_facts [OF inv2 a] by blast
      show ?thesis
        by (rule ok [OF f1(6) [OF \<open>sp = Some p\<close> len draw(1)] d(1) inv2 fa _ _ _ a(1) sa(1)])
          (use assms(1) 1 2 sa(2) \<open>sp = Some p\<close> Some f1 f2 in \<open>auto simp: select_nodes_and_allocate_slot_def\<close>)
    qed
  qed
qed

lemma rt_inv_select:
  assumes "rt_inv rt" "length (nr_nodes reg) < 2 ^ 64" "draws_ok draw"
  shows "rt_inv (snd (select_nodes_and_allocate_slot draw reg rid rt))"
proof -
  obtain res rt' where e: "select_nodes_and_allocate_slot draw reg rid rt = (res, rt')" by fastforce
  from e assms show ?thesis
  proof (cases rule: select_nodes_cases)
    case (ok p d s a a' rt2)
    have "allocator_inv (sc_max_slots_per_node (rt_slot_config rt2)) a'"
      using allocator_inv_alloc [OF rt_inv_D [OF ok(3,8)] ok(9)] .
    then show ?thesis using rt_inv_put [OF ok(3)] by (simp add: e ok(11))
  qed (simp add: e)
qed

text \<open>C20 What \<open>select_nodes_and_allocate_slot\<close> promises when it returns a result: both nodes are registered and healthy
  and have the right role; the slot is in range, was held by nobody and is now held by the request on that
  decode node; its base offset is the slot times the request size; exactly one slot fewer is
  available there and no other node's slots change.\<close>

theorem select_nodes_spec:
  assumes "rt_inv rt" and "registry_inv reg" and "length (nr_nodes reg) < 2 ^ 64" and "draws_ok draw"
    and "select_nodes_and_allocate_slot draw reg rid rt = (Some res, rt')"
  defines "p \<equiv> rr_prefill_node res" and "d \<equiv> rr_decode_node res" and "s \<equiv> rr_slot_id res"
  shows "get_node (ni_node_id p) reg = Some p \<and> ni_role p = PREFILL \<and> ni_is_healthy p
    \<and> get_node (ni_node_id d) reg = Some d \<and> ni_role d = DECODE \<and> ni_is_healthy d
    \<and> 0 \<le> s \<and> s < sc_max_slots_per_node (rt_slot_config rt)
    \<and> rr_slot_base_offset res = slot_offset (rt_slot_config rt) s
    \<and> (\<forall>a. find_allocator rt (ni_node_id d) = Some a \<longrightarrow> map_of (sa_slot_to_request a) s = None)
    \<and> (\<exists>a'. find_allocator rt' (ni_node_id d) = Some a' \<and> map_of (sa_request_to_slot a') rid = Some s)
    \<and> map_of (rt_request_to_decode_node rt') rid = Some (ni_node_id d)
    \<and> (\<forall>nid. get_available_slots nid rt'
          = get_available_slots nid rt - (if nid = ni_node_id d then 1 else 0))"
  using assms(5,1,3,4)
proof (cases rule: select_nodes_cases)
  case (ok p' d' s' a a' rt2)
  let ?m = "sc_max_slots_per_node (rt_slot_config rt)"
  have eqs: "p = p'" "d = d'" "s = s'" and off: "rr_slot_base_offset res = slot_offset (rt_slot_config rt) s"
    using ok(10) by (auto simp: p_def d_def s_def)
  have "allocator_inv ?m a" using rt_inv_D [OF ok(3,8)] ok(5) by simp
  note pi = pool.inv_alloc [OF _ ok(9), of ?m] this [unfolded allocator_inv_def]
  have free: "map_of (sa_slot_to_request b) s = None" if "find_allocator rt (ni_node_id d) = Some b" for b
    using that ok(4,8) pi by (simp add: init_all_facts eqs)
  have avail: "get_available_slots nid rt' = get_available_slots nid rt - (if nid = ni_node_id d then 1 else 0)" for nid
  proof -
    have "get_available_slots nid rt2 = get_available_slots nid rt"
    proof -
      have "get_available_slots nid rt2 = get_available_slots nid (init_all (get_healthy_nodes DECODE reg) rt)"
        by (simp only: available_slots_simps ok(4,5) init_all_facts(2))
      then show ?thesis using available_init_all [of rt nid] pi by simp
    qed
    moreover have "get_available_slots nid rt' = get_available_slots nid rt2 - (if nid = ni_node_id d then 1 else 0)"
      using pi ok(8) by (auto simp: available_slots_simps ok(11) eqs split: option.split)
    ultimately show ?thesis by simp
  qed
  show ?thesis
    using pi ok(1,2) set_healthy_nodes [OF assms(2)] free avail off
    by (auto simp: eqs ok(11))
qed simp

lemma draw_zero [simp]: "draws_ok (\<lambda>_ _. 0)"
  by (simp add: draws_ok_def draw_ok_def)

lemma sample_router_inv [simp]: "rt_inv sample_router" "registry_inv sample_registry"
  "length (nr_nodes sample_registry) < 2 ^ 64"
  by (simp_all add: sample_router_def rt_inv_loads rt_inv_new sample_registry_def)
    (simp add: sample_router_simps)

lemma sample_router_slots: "0 \<le> sc_max_slots_per_node (rt_slot_config sample_router)"
  by (simp add: sample_router_simps)

lemma sample_select:
  "\<exists>res rt'. select_nodes_and_allocate_slot (\<lambda>_ _. 0) sample_registry rid sample_router = (Some res, rt')
     \<and> ni_node_id (rr_prefill_node res) = ''p0'' \<and> ni_node_id (rr_decode_node res) = ''d1'' \<and> rr_slot_id res = 0"
  by (simp add: select_nodes_and_allocate_slot_def select_prefill_node_def select_by_policy_def
      select_least_loaded_def select_decode_node_with_slot_def nodes_with_slots_def
      initialize_node_slots_def find_allocator_def put_allocator_def new_slot_allocator_def has_free_slot_def
      allocate_slot_for_node_def alloc_in_def sample_router_simps INT_MAX_def Let_def upto_rec1)

theorem select_nodes_spec_witness:
  "\<exists>res rt'. select_nodes_and_allocate_slot (\<lambda>_ _. 0) sample_registry ''r1'' sample_router = (Some res, rt')
     \<and> ni_role (rr_decode_node res) = DECODE
     \<and> get_available_slots ''d1'' rt' = get_available_slots ''d1'' sample_router - 1"
proof -
  obtain res rt' where e: "select_nodes_and_allocate_slot (\<lambda>_ _. 0) sample_registry ''r1'' sample_router = (Some res, rt')"
    and d: "ni_node_id (rr_decode_node res) = ''d1''" using sample_select by blast
  show ?thesis
    using select_nodes_spec [OF sample_router_inv draw_zero e] e d by metis
qed

text \<open>Routing fails only for lack of nodes or slots: when no load has reached \<open>INT_MAX\<close>, no result is returned exactly
  if there is no healthy prefill node or every healthy decode node has all its slots in use.\<close>

lemma select_nodes_fails_iff:
  assumes "rt_inv rt" and "length (nr_nodes reg) < 2 ^ 64" and "draws_ok draw" and "\<And>n. get_node_load n rt < INT_MAX"
  shows "fst (select_nodes_and_allocate_slot draw reg rid rt) = None \<longleftrightarrow>
    get_healthy_nodes PREFILL reg = [] \<or> (\<forall>n \<in> set (get_healthy_nodes DECODE reg). get_available_slots (ni_node_id n) rt \<le> 0)"
proof -
  let ?D = "get_healthy_nodes DECODE reg"
  obtain res rt' where e: "select_nodes_and_allocate_slot draw reg rid rt = (res, rt')" by fastforce
  have full: "nodes_with_slots ?D (init_all ?D rt) = [] \<longleftrightarrow> (\<forall>n \<in> set ?D. get_available_slots (ni_node_id n) rt \<le> 0)"
  proof -
    have "(\<exists>a. find_allocator (init_all ?D rt) (ni_node_id n) = Some a \<and> sa_free_slots a \<noteq> [])
        \<longleftrightarrow> 0 < get_available_slots (ni_node_id n) rt" if "n \<in> set ?D" for n
      using that by (auto simp: init_all_facts available_slots_simps new_slot_allocator_def split: option.split)
    then show ?thesis
      using in_nodes_with_slots [of _ ?D "init_all ?D rt"] by (metis all_not_in_conv linorder_not_le set_empty)
  qed
  from e assms(1-3) show ?thesis
  proof (cases rule: select_nodes_cases)
    case fail
    then show ?thesis using assms(4) full by (auto simp: e)
  next
    case (ok p d s a a' rt2)
    then have "d \<in> set (nodes_with_slots ?D (init_all ?D rt))"
      by (auto simp: in_nodes_with_slots alloc_in_def split: list.splits)
    then have "nodes_with_slots ?D (init_all ?D rt) \<noteq> []" "get_healthy_nodes PREFILL reg \<noteq> []"
      using ok(1) by auto
    then show ?thesis by (simp add: e ok(10) flip: full)
  qed
qed

section \<open>All sequences of router operations\<close>

text \<open>Each selection may see another state of the registry.\<close>

inductive rt_reach :: "slot_config \<Rightarrow> router \<Rightarrow> bool" for c where
  rt_new: "rt_reach c (new_router pol c)"
| rt_select: "rt_reach c rt \<Longrightarrow> length (nr_nodes reg) < 2 ^ 64 \<Longrightarrow> draws_ok draw \<Longrightarrow>
    rt_reach c (snd (select_nodes_and_allocate_slot draw reg rid rt))"
| rt_free: "rt_reach c rt \<Longrightarrow> rt_reach c (free_slot rid rt)"
| rt_init: "rt_reach c rt \<Longrightarrow> rt_reach c (initialize_node_slots nid rt)"
| rt_inc: "rt_reach c rt \<Longrightarrow> rt_reach c (increment_node_load nid rt)"
| rt_dec: "rt_reach c rt \<Longrightarrow> rt_reach c (decrement_node_load nid rt)"
| rt_reset: "rt_reach c rt \<Longrightarrow> rt_reach c (reset_node_load nid rt)"
| rt_set: "rt_reach c rt \<Longrightarrow> rt_reach c (set_policy p rt)"

lemma select_config [simp]:
  "rt_slot_config (snd (select_nodes_and_allocate_slot draw reg rid rt)) = rt_slot_config rt"
proof -
  have a: "allocate_slot_for_node nid rid r = (x, r') \<Longrightarrow> rt_slot_config r' = rt_slot_config r" for nid r x r'
    by (auto simp: allocate_slot_for_node_def Let_def split: option.splits)
  obtain sp rt1 where 1: "select_prefill_node (draw 0) reg rt = (sp, rt1)" by fastforce
  obtain sd rt2 where 2: "select_decode_node_with_slot (draw 1) reg rt1 = (sd, rt2)" by fastforce
  have "rt_slot_config rt1 = rt_slot_config rt" "rt_slot_config rt2 = rt_slot_config rt1"
    using select_prefill_facts(2) [OF 1] select_decode_facts(2) [OF 2] .
  then show ?thesis
    using 1 2 by (auto simp: select_nodes_and_allocate_slot_def dest: a split: option.split prod.split)
qed

lemma config_simps [simp]:
  "rt_slot_config (free_slot rid rt) = rt_slot_config rt"
  "rt_slot_config (increment_node_load nid rt) = rt_slot_config rt"
  "rt_slot_config (decrement_node_load nid rt) = rt_slot_config rt"
  "rt_slot_config (reset_node_load nid rt) = rt_slot_config rt"
  "rt_slot_config (set_policy p rt) = rt_slot_config rt"
  by (simp_all add: free_slot_def free_slot_for_node_def increment_node_load_def decrement_node_load_def
      reset_node_load_def set_policy_def split: option.split prod.split)

lemma rt_reach_inv: "rt_reach c rt \<Longrightarrow> rt_inv rt \<and> rt_slot_config rt = c"
proof (induction rule: rt_reach.induct)
  case (rt_new pol) then show ?case by (simp add: rt_inv_new) (simp add: new_router_def)
qed (simp_all add: rt_inv_select rt_inv_free rt_inv_init rt_inv_loads, simp add: set_policy_def)

text \<open>C21 Whatever the sequence of selections, releases and load updates, and whatever nodes come and go in between,
  the slots of a decode node are partitioned into free ones and held ones, a free slot is queued once,
  and no two requests hold the same slot.\<close>

theorem slots_partitioned:
  assumes "rt_reach c rt" and "find_allocator rt nid = Some a"
  shows "distinct (sa_free_slots a)
    \<and> set (sa_free_slots a) \<inter> dom (map_of (sa_slot_to_request a)) = {}
    \<and> set (sa_free_slots a) \<union> dom (map_of (sa_slot_to_request a)) = {0..<sc_max_slots_per_node c}
    \<and> (\<forall>r r' s. map_of (sa_request_to_slot a) r = Some s \<longrightarrow> map_of (sa_request_to_slot a) r' = Some s \<longrightarrow> r = r')"
proof -
  have inv: "pool.inv (sc_max_slots_per_node c) a"
    using rt_reach_inv [OF assms(1)] rt_inv_D [OF _ assms(2)] by (auto simp: allocator_inv_def)
  then show ?thesis using pool.exclusive [OF inv] unfolding pool.inv_def by blast
qed

theorem slots_partitioned_witness:
  "\<exists>a. find_allocator (snd (select_nodes_and_allocate_slot (\<lambda>_ _. 0) sample_registry ''r1'' sample_router)) ''d1'' = Some a
     \<and> distinct (sa_free_slots a)"
proof -
  let ?rt = "snd (select_nodes_and_allocate_slot (\<lambda>_ _. 0) sample_registry ''r1'' sample_router)"
  have "rt_reach default_slot_config sample_router" unfolding sample_router_def by (intro rt_inc rt_new)
  then have reach: "rt_reach default_slot_config ?rt" by (intro rt_select sample_router_inv draw_zero)
  obtain res rt' where e: "select_nodes_and_allocate_slot (\<lambda>_ _. 0) sample_registry ''r1'' sample_router = (Some res, rt')"
    and d: "ni_node_id (rr_decode_node res) = ''d1''" using sample_select by blast
  have "\<exists>a. find_allocator ?rt ''d1'' = Some a"
    using e sample_router_inv(1,3) draw_zero
    by (cases rule: select_nodes_cases) (auto simp: e simp flip: d)
  then show ?thesis using slots_partitioned [OF reach] by blast
qed

section \<open>Releasing a slot\<close>

text \<open>The slot a request holds, as \<open>free_slot\<close> finds it.\<close>

definition held_slot :: "string \<Rightarrow> router \<Rightarrow> (string \<times> int) option" where
  "held_slot rid rt = do {
     nid \<leftarrow> map_of (rt_request_to_decode_node rt) rid;
     a \<leftarrow> find_allocator rt nid;
     k \<leftarrow> map_of (sa_request_to_slot a) rid;
     Some (nid, k) }"

lemma free_slot_held:
  assumes "held_slot rid rt = Some (nid, k)"
  shows "get_available_slots n (free_slot rid rt) = get_available_slots n rt + (if n = nid then 1 else 0)"
    and "\<exists>a. find_allocator (free_slot rid rt) nid = Some a \<and> k \<in> set (sa_free_slots a)"
    and "held_slot rid (free_slot rid rt) = None"
proof -
  obtain a where a: "map_of (rt_request_to_decode_node rt) rid = Some nid" "find_allocator rt nid = Some a"
    "map_of (sa_request_to_slot a) rid = Some k"
    using assms by (auto simp: held_slot_def bind_eq_Some_conv)
  then show "get_available_slots n (free_slot rid rt) = get_available_slots n rt + (if n = nid then 1 else 0)"
    "\<exists>a. find_allocator (free_slot rid rt) nid = Some a \<and> k \<in> set (sa_free_slots a)"
    "held_slot rid (free_slot rid rt) = None"
    by (auto simp: free_slot_def free_slot_for_node_def free_in_def available_slots_simps held_slot_def
        split: option.split)
qed

lemma free_slot_not_held:
  "held_slot rid rt = None \<Longrightarrow> get_available_slots n (free_slot rid rt) = get_available_slots n rt"
  by (auto simp: free_slot_def free_slot_for_node_def free_in_def available_slots_simps held_slot_def
      split: option.splits)

lemma select_available:
  assumes "select_nodes_and_allocate_slot draw reg rid rt = (res, rt')" "rt_inv rt"
    "length (nr_nodes reg) < 2 ^ 64" "draws_ok draw" "0 \<le> sc_max_slots_per_node (rt_slot_config rt)"
  shows "res = None \<Longrightarrow> get_available_slots n rt' = get_available_slots n rt"
    and "res = Some r \<Longrightarrow> get_available_slots n rt'
        = get_available_slots n rt - (if n = ni_node_id (rr_decode_node r) then 1 else 0)
      \<and> held_slot rid rt' = Some (ni_node_id (rr_decode_node r), rr_slot_id r)"
proof -
  obtain sp rt1 where 1: "select_prefill_node (draw 0) reg rt = (sp, rt1)" by fastforce
  obtain sd rt2 where 2: "select_decode_node_with_slot (draw 1) reg rt1 = (sd, rt2)" by fastforce
  note f1 = select_prefill_facts [OF 1] and f2 = select_decode_facts [OF 2]
  have av1: "get_available_slots n rt1 = get_available_slots n rt" for n
    by (simp only: available_slots_simps f1(1,2))
  have av2: "get_available_slots n rt2 = get_available_slots n rt" for n
  proof -
    have "get_available_slots n rt2 = get_available_slots n (init_all (get_healthy_nodes DECODE reg) rt1)"
      by (simp only: available_slots_simps f2(1,2) init_all_facts(2))
    then show ?thesis using available_init_all [of rt1 n] assms(5) by (simp only: f1(2) av1)
  qed
  have sel: "(res, rt') = (case sp of None \<Rightarrow> (None, rt1) | Some p \<Rightarrow> (case sd of None \<Rightarrow> (None, rt2) | Some d \<Rightarrow>
      (case allocate_slot_for_node (ni_node_id d) rid rt2 of (None, rt) \<Rightarrow> (None, rt)
       | (Some s, rt) \<Rightarrow> (Some \<lparr>rr_prefill_node = p, rr_decode_node = d, rr_slot_id = s,
           rr_slot_base_offset = slot_offset (rt_slot_config rt) s\<rparr>,
         rt\<lparr>rt_request_to_decode_node := put rid (ni_node_id d) (rt_request_to_decode_node rt)\<rparr>))))"
    using assms(1) 1 2
    by (cases sp; cases sd) (simp_all add: select_nodes_and_allocate_slot_def del: One_nat_def)
  have alloc: "(\<exists>s a'. allocate_slot_for_node (ni_node_id d) rid rt2 = (Some s, put_allocator (ni_node_id d) a' rt2)
      \<and> map_of (sa_request_to_slot a') rid = Some s
      \<and> (\<exists>a. find_allocator rt2 (ni_node_id d) = Some a \<and> length (sa_free_slots a) = Suc (length (sa_free_slots a'))))"
    if d: "sd = Some d" for d
  proof -
    obtain a where a: "find_allocator rt2 (ni_node_id d) = Some a" "sa_free_slots a \<noteq> []"
      using f2(6) [OF d assms(3)] assms(4) by (auto simp: in_nodes_with_slots draws_ok_def)
    obtain s a' where sa: "alloc_in rid a = Some (s, a')"
      "allocate_slot_for_node (ni_node_id d) rid rt2 = (Some s, put_allocator (ni_node_id d) a' rt2)"
      using allocate_facts [of rt2, OF _ a] f2(5) f1(5) assms(2) by blast
    then show ?thesis using a by (auto simp: alloc_in_def split: list.splits)
  qed
  show "res = None \<Longrightarrow> get_available_slots n rt' = get_available_slots n rt"
    using sel av1 av2 alloc by (auto split: option.splits)
  show "res = Some r \<Longrightarrow> get_available_slots n rt'
        = get_available_slots n rt - (if n = ni_node_id (rr_decode_node r) then 1 else 0)
      \<and> held_slot rid rt' = Some (ni_node_id (rr_decode_node r), rr_slot_id r)"
  proof -
    assume "res = Some r"
    then obtain p d where pd: "sp = Some p" "sd = Some d" using sel by (auto split: option.splits)
    obtain s a' a where al: "allocate_slot_for_node (ni_node_id d) rid rt2 = (Some s, put_allocator (ni_node_id d) a' rt2)"
      "map_of (sa_request_to_slot a') rid = Some s" "find_allocator rt2 (ni_node_id d) = Some a"
      "length (sa_free_slots a) = Suc (length (sa_free_slots a'))"
      using alloc [OF pd(2)] by blast
    have r: "rr_decode_node r = d" "rr_slot_id r = s"
      and rt': "rt' = (put_allocator (ni_node_id d) a' rt2)
        \<lparr>rt_request_to_decode_node := put rid (ni_node_id d) (rt_request_to_decode_node rt2)\<rparr>"
      using sel pd al(1) \<open>res = Some r\<close> by auto
    have "get_available_slots n rt' = get_available_slots n rt2 - (if n = ni_node_id d then 1 else 0)"
      using al(3,4) by (auto simp: available_slots_simps rt' split: option.split)
    then show ?thesis using av2 al(2) by (simp add: r rt' held_slot_def)
  qed
qed

lemma available_loads [simp]:
  "get_available_slots n (increment_node_load i rt) = get_available_slots n rt"
  "get_available_slots n (decrement_node_load i rt) = get_available_slots n rt"
  by (auto simp: available_slots_simps increment_node_load_def decrement_node_load_def split: option.split)

lemma node_load_simps [simp]:
  "get_node_load n (increment_node_load i rt) = get_node_load n rt + (if n = i then 1 else 0)"
  "get_node_load n (free_slot rid rt) = get_node_load n rt"
  by (auto simp: get_node_load_def increment_node_load_def free_slot_def free_slot_for_node_def
      put_allocator_def split: option.split prod.split)

lemma node_load_decrement:
  "0 \<le> get_node_load i rt \<Longrightarrow>
   get_node_load n (decrement_node_load i rt) = (if n = i then max 0 (get_node_load i rt - 1) else get_node_load n rt)"
  by (auto simp: get_node_load_def decrement_node_load_def split: option.splits)

lemma held_slot_loads [simp]:
  "held_slot rid (increment_node_load i rt) = held_slot rid rt"
  "held_slot rid (decrement_node_load i rt) = held_slot rid rt"
  by (simp_all add: held_slot_def increment_node_load_def decrement_node_load_def split: option.split)

lemma select_loads:
  assumes "select_nodes_and_allocate_slot draw reg rid rt = (res, rt')"
  shows "get_node_load n rt' = get_node_load n rt"
proof -
  have a: "allocate_slot_for_node nid rid r = (x, r') \<Longrightarrow> rt_node_loads r' = rt_node_loads r" for nid r x r'
    by (auto simp: allocate_slot_for_node_def Let_def split: option.splits)
  obtain sp rt1 where 1: "select_prefill_node (draw 0) reg rt = (sp, rt1)" by fastforce
  obtain sd rt2 where 2: "select_decode_node_with_slot (draw 1) reg rt1 = (sd, rt2)" by fastforce
  have l: "rt_node_loads rt1 = rt_node_loads rt" "rt_node_loads rt2 = rt_node_loads rt1"
    using select_prefill_facts(3) [OF 1] select_decode_facts(3) [OF 2] .
  have "rt_node_loads rt' = rt_node_loads rt"
    using assms 1 2 l by (auto simp: select_nodes_and_allocate_slot_def split: option.splits prod.splits dest!: a)
  then show ?thesis by (rule get_node_load_cong)
qed

lemma find_allocator_loads [simp]:
  "find_allocator (increment_node_load i rt) n = find_allocator rt n"
  "find_allocator (decrement_node_load i rt) n = find_allocator rt n"
  by (simp_all add: find_allocator_def increment_node_load_def decrement_node_load_def split: option.split)

text \<open>Routing reads the nodes of the registry, never the descriptors.\<close>

lemma get_healthy_nodes_fds [simp]: "get_healthy_nodes role (add_node_fd nid fd reg) = get_healthy_nodes role reg"
  by (simp add: get_healthy_nodes_def add_node_fd_def)

lemma select_nodes_fds [simp]:
  "select_nodes_and_allocate_slot draw (add_node_fd nid fd reg) rid rt = select_nodes_and_allocate_slot draw reg rid rt"
  unfolding select_nodes_and_allocate_slot_def select_prefill_node_def select_decode_node_with_slot_def
    get_healthy_nodes_fds ..

lemma select_slot:
  assumes "select_nodes_and_allocate_slot draw reg rid rt = (Some res, rt')" "rt_inv rt"
    "length (nr_nodes reg) < 2 ^ 64" "draws_ok draw"
  shows "0 \<le> rr_slot_id res" "rr_slot_id res < sc_max_slots_per_node (rt_slot_config rt)"
    "rr_slot_base_offset res = slot_offset (rt_slot_config rt) (rr_slot_id res)"
proof -
  have "(0 \<le> rr_slot_id res \<and> rr_slot_id res < sc_max_slots_per_node (rt_slot_config rt))
    \<and> rr_slot_base_offset res = slot_offset (rt_slot_config rt) (rr_slot_id res)"
    using assms
  proof (cases rule: select_nodes_cases)
    case (ok p d s a a' rt2)
    have "pool.inv (sc_max_slots_per_node (rt_slot_config rt)) a"
      using rt_inv_D [OF ok(3,8)] ok(5) by (simp add: allocator_inv_def)
    from pool.inv_alloc(2) [OF this ok(9)] show ?thesis using ok(10) by simp
  qed simp
  then show "0 \<le> rr_slot_id res" "rr_slot_id res < sc_max_slots_per_node (rt_slot_config rt)"
    "rr_slot_base_offset res = slot_offset (rt_slot_config rt) (rr_slot_id res)" by simp_all
qed

end
