(* ===== verification/Exchange.thy ===== *)
theory Exchange
  imports Types
begin

text \<open>
  The cluster start-up tracker, \<open>src/cpp/apps/orchestrator/rdma_exchange_tracker.cpp\<close>. An unordered
  set is a list without duplicates. The tracker's \<open>std::shared_mutex\<close> is not recursive: asking for it
  while the calling thread holds it is undefined behaviour. The usual library on Linux detects it and throws \<open>std::system_error\<close>, which
  nothing in the worker threads catches, so the process ends; another one may let the thread wait for itself. \<open>lock_section\<close> makes the
  attempt a value, \<open>Relocked\<close>, and no step of the thread follows it.
\<close>

datatype 'a lock_outcome = Done 'a | Relocked

text \<open>Run a critical section; \<open>held\<close> says whether the calling thread already owns the mutex.\<close>

definition lock_section :: "bool \<Rightarrow> 'a \<Rightarrow> 'a lock_outcome" where
  "lock_section held body = (if held then Relocked else Done body)"

record exchange =
  xt_expected_prefill :: int
  xt_expected_decode :: int
  xt_registered :: "string list"
  xt_registered_prefill :: "string list"
  xt_registered_decode :: "string list"
  xt_ready :: "string list"

definition new_exchange :: "int \<Rightarrow> int \<Rightarrow> exchange" where
  "new_exchange p d = \<lparr>xt_expected_prefill = p, xt_expected_decode = d, xt_registered = [],
     xt_registered_prefill = [], xt_registered_decode = [], xt_ready = []\<rparr>"

text \<open>\<open>size_t == int\<close>: the integer is converted to the unsigned type.\<close>

definition size_is :: "string list \<Rightarrow> int \<Rightarrow> bool" where
  "size_is xs n \<longleftrightarrow> (word_of_nat (length xs) :: u64) = word_of_int n"

definition topology_complete :: "exchange \<Rightarrow> bool" where
  "topology_complete t \<longleftrightarrow> size_is (xt_registered_prefill t) (xt_expected_prefill t)
     \<and> size_is (xt_registered_decode t) (xt_expected_decode t)"

definition all_nodes_registered :: "bool \<Rightarrow> exchange \<Rightarrow> bool lock_outcome" where
  "all_nodes_registered held t = lock_section held (topology_complete t)"

definition xt_register_node :: "string \<Rightarrow> node_role \<Rightarrow> exchange \<Rightarrow> (bool \<times> exchange) lock_outcome" where
  "xt_register_node nid role t =
     (if nid \<in> set (xt_registered t)
      then (case all_nodes_registered True t of Done b \<Rightarrow> Done (b, t) | Relocked \<Rightarrow> Relocked)
      else
        let t = t\<lparr>xt_registered := List.insert nid (xt_registered t)\<rparr>;
            t = (if role = PREFILL then t\<lparr>xt_registered_prefill := List.insert nid (xt_registered_prefill t)\<rparr>
                 else if role = DECODE then t\<lparr>xt_registered_decode := List.insert nid (xt_registered_decode t)\<rparr>
                 else t)
        in Done (topology_complete t, t))"

text \<open>A wait that ends, by notification or by its timeout, returns the predicate as it then is.\<close>

definition wait_for_all_nodes :: "exchange \<Rightarrow> bool" where
  "wait_for_all_nodes t = topology_complete t"

definition get_registered_nodes :: "exchange \<Rightarrow> string list" where
  "get_registered_nodes t = xt_registered t"

definition operational :: "exchange \<Rightarrow> bool" where
  "operational t \<longleftrightarrow> length (xt_ready t) = length (xt_registered t) \<and> length (xt_registered t) > 0"

definition all_nodes_ready :: "bool \<Rightarrow> exchange \<Rightarrow> bool lock_outcome" where
  "all_nodes_ready held t = lock_section held (operational t)"

definition mark_node_ready :: "string \<Rightarrow> exchange \<Rightarrow> (bool \<times> exchange) lock_outcome" where
  "mark_node_ready nid t =
     (if nid \<notin> set (xt_registered t) then Done (False, t)
      else if nid \<in> set (xt_ready t)
      then (case all_nodes_ready True t of Done b \<Rightarrow> Done (b, t) | Relocked \<Rightarrow> Relocked)
      else let t = t\<lparr>xt_ready := List.insert nid (xt_ready t)\<rparr>
           in Done (length (xt_ready t) = length (xt_registered t), t))"

definition wait_for_all_ready :: "exchange \<Rightarrow> bool" where
  "wait_for_all_ready t = operational t"

definition get_ready_nodes :: "exchange \<Rightarrow> string list" where
  "get_ready_nodes t = xt_ready t"

record exchange_stats =
  xs_expected_prefill :: int  xs_expected_decode :: int  xs_registered_prefill :: nat
  xs_registered_decode :: nat  xs_ready :: nat  xs_topology_validated :: bool
  xs_cluster_operational :: bool

definition xt_get_stats :: "exchange \<Rightarrow> exchange_stats" where
  "xt_get_stats t = \<lparr>xs_expected_prefill = xt_expected_prefill t, xs_expected_decode = xt_expected_decode t,
     xs_registered_prefill = length (xt_registered_prefill t),
     xs_registered_decode = length (xt_registered_decode t), xs_ready = length (xt_ready t),
     xs_topology_validated = topology_complete t, xs_cluster_operational = operational t\<rparr>"

section \<open>Registration of a list of nodes\<close>

text \<open>The registrations a cluster sends, in the order they arrive; the last answer.\<close>

fun register_all :: "(string \<times> node_role) list \<Rightarrow> exchange \<Rightarrow> (bool list \<times> exchange) lock_outcome" where
  "register_all [] t = Done ([], t)"
| "register_all ((nid, role) # ns) t =
     (case xt_register_node nid role t of
        Relocked \<Rightarrow> Relocked
      | Done (b, t) \<Rightarrow> (case register_all ns t of
            Relocked \<Rightarrow> Relocked | Done (bs, t) \<Rightarrow> Done (b # bs, t)))"

fun ready_all :: "string list \<Rightarrow> exchange \<Rightarrow> (bool list \<times> exchange) lock_outcome" where
  "ready_all [] t = Done ([], t)"
| "ready_all (nid # ns) t =
     (case mark_node_ready nid t of
        Relocked \<Rightarrow> Relocked
      | Done (b, t) \<Rightarrow> (case ready_all ns t of
            Relocked \<Rightarrow> Relocked | Done (bs, t) \<Rightarrow> Done (b # bs, t)))"

definition xt_inv :: "exchange \<Rightarrow> bool" where
  "xt_inv t \<longleftrightarrow> distinct (xt_registered t) \<and> distinct (xt_registered_prefill t)
     \<and> distinct (xt_registered_decode t) \<and> distinct (xt_ready t)
     \<and> set (xt_registered_prefill t) \<union> set (xt_registered_decode t) \<subseteq> set (xt_registered t)
     \<and> set (xt_registered_prefill t) \<inter> set (xt_registered_decode t) = {}
     \<and> set (xt_ready t) \<subseteq> set (xt_registered t)"

lemma xt_inv_register: "xt_inv t \<Longrightarrow> xt_register_node nid role t = Done (b, t') \<Longrightarrow> xt_inv t'"
  by (auto simp: xt_inv_def xt_register_node_def all_nodes_registered_def lock_section_def Let_def
      split: if_splits lock_outcome.splits)

lemma xt_inv_ready: "xt_inv t \<Longrightarrow> mark_node_ready nid t = Done (b, t') \<Longrightarrow> xt_inv t'"
  by (auto simp: xt_inv_def mark_node_ready_def all_nodes_ready_def lock_section_def Let_def
      split: if_splits lock_outcome.splits)

lemma size_is_iff: "length xs < 2 ^ 63 \<Longrightarrow> 0 \<le> n \<Longrightarrow> n < 2 ^ 63 \<Longrightarrow> size_is xs n \<longleftrightarrow> int (length xs) = n"
proof -
  assume a: "length xs < 2 ^ 63" "0 \<le> n" "n < 2 ^ 63"
  have "(word_of_nat (length xs) :: u64) = word_of_int (int (length xs))" by simp
  moreover have "uint (word_of_int (int (length xs)) :: u64) = int (length xs)"
    "uint (word_of_int n :: u64) = n"
    using a by (simp_all add: unsigned_of_int unsigned_of_nat take_bit_int_eq_self take_bit_nat_eq_self)
  ultimately show ?thesis unfolding size_is_def by metis
qed

section \<open>Properties\<close>

text \<open>A node that registers, or reports ready, a second time makes the thread that holds the tracker's
  exclusive lock ask for it again: both duplicate paths do, whatever the state.\<close>

theorem duplicate_registration_relocks:
  "(nid \<in> set (xt_registered t) \<longleftrightarrow> xt_register_node nid role t = Relocked)
   \<and> (nid \<in> set (xt_registered t) \<inter> set (xt_ready t) \<longleftrightarrow> mark_node_ready nid t = Relocked)"
  by (auto simp: xt_register_node_def mark_node_ready_def all_nodes_registered_def all_nodes_ready_def
      lock_section_def Let_def)

lemma register_all_spec:
  assumes "distinct (map fst ns)" "fst ` set ns \<inter> set (xt_registered t) = {}" "xt_inv t"
  shows "\<exists>bs t'. register_all ns t = Done (bs, t') \<and> length bs = length ns \<and> xt_inv t'
    \<and> set (xt_registered t') = set (xt_registered t) \<union> fst ` set ns
    \<and> set (xt_registered_prefill t') = set (xt_registered_prefill t) \<union> {n. (n, PREFILL) \<in> set ns}
    \<and> set (xt_registered_decode t') = set (xt_registered_decode t) \<union> {n. (n, DECODE) \<in> set ns}
    \<and> xt_expected_prefill t' = xt_expected_prefill t \<and> xt_expected_decode t' = xt_expected_decode t
    \<and> xt_ready t' = xt_ready t \<and> (ns \<noteq> [] \<longrightarrow> last bs = topology_complete t')"
  using assms
proof (induction ns arbitrary: t)
  case (Cons x ns)
  obtain nid role where x: "x = (nid, role)" by fastforce
  obtain b t1 where s: "xt_register_node nid role t = Done (b, t1)"
    and f: "b = topology_complete t1" "set (xt_registered t1) = insert nid (set (xt_registered t))"
      "set (xt_registered_prefill t1) = set (xt_registered_prefill t) \<union> (if role = PREFILL then {nid} else {})"
      "set (xt_registered_decode t1) = set (xt_registered_decode t) \<union> (if role = DECODE then {nid} else {})"
      "xt_expected_prefill t1 = xt_expected_prefill t" "xt_expected_decode t1 = xt_expected_decode t"
      "xt_ready t1 = xt_ready t"
    using Cons.prems(2) x by (auto simp: xt_register_node_def Let_def)
  have "fst ` set ns \<inter> set (xt_registered t1) = {}" using Cons.prems x f by auto
  from Cons.IH [OF _ this xt_inv_register [OF Cons.prems(3) s]] Cons.prems(1) obtain bs t' where r:
    "register_all ns t1 = Done (bs, t')" "length bs = length ns" "xt_inv t'"
    "set (xt_registered t') = set (xt_registered t1) \<union> fst ` set ns"
    "set (xt_registered_prefill t') = set (xt_registered_prefill t1) \<union> {n. (n, PREFILL) \<in> set ns}"
    "set (xt_registered_decode t') = set (xt_registered_decode t1) \<union> {n. (n, DECODE) \<in> set ns}"
    "xt_expected_prefill t' = xt_expected_prefill t1" "xt_expected_decode t' = xt_expected_decode t1"
    "xt_ready t' = xt_ready t1" "ns \<noteq> [] \<longrightarrow> last bs = topology_complete t'"
    by auto
  have "last (b # bs) = topology_complete t'"
    using r f(1) by (cases ns) auto
  then show ?case using x s f r by (auto simp: split: if_splits)
qed simp

text \<open>The registration phase ends when it should: after registrations of distinct nodes, in any order, the last
  one reports completion exactly if the numbers of prefill and of decode nodes are the expected ones.\<close>

theorem registration_complete_iff:
  assumes "distinct (map fst ns)" and "ns \<noteq> []" and "length ns < 2 ^ 63"
    and "0 \<le> p" and "p < 2 ^ 63" and "0 \<le> d" and "d < 2 ^ 63"
  shows "\<exists>bs t. register_all ns (new_exchange p d) = Done (bs, t) \<and>
    (last bs \<longleftrightarrow> int (card {n. (n, PREFILL) \<in> set ns}) = p \<and> int (card {n. (n, DECODE) \<in> set ns}) = d)"
proof -
  have "xt_inv (new_exchange p d)" by (simp add: xt_inv_def new_exchange_def)
  from register_all_spec [OF assms(1) _ this] obtain bs t where r:
    "register_all ns (new_exchange p d) = Done (bs, t)" "xt_inv t" "set (xt_registered t) = fst ` set ns"
    "set (xt_registered_prefill t) = {n. (n, PREFILL) \<in> set ns}"
    "set (xt_registered_decode t) = {n. (n, DECODE) \<in> set ns}"
    "xt_expected_prefill t = p" "xt_expected_decode t = d" "last bs = topology_complete t"
    using assms(2) by (auto simp: new_exchange_def)
  have len: "length (xt_registered_prefill t) = card {n. (n, PREFILL) \<in> set ns}"
    "length (xt_registered_decode t) = card {n. (n, DECODE) \<in> set ns}"
    using r(2,4,5) distinct_card unfolding xt_inv_def by metis+
  have "card (fst ` set ns) \<le> length ns" by (metis card_image_le card_length finite_set le_trans)
  moreover have "card {n. (n, PREFILL) \<in> set ns} \<le> card (fst ` set ns)"
    "card {n. (n, DECODE) \<in> set ns} \<le> card (fst ` set ns)"
    by (rule card_mono; force)+
  ultimately have "length (xt_registered_prefill t) < 2 ^ 63" "length (xt_registered_decode t) < 2 ^ 63"
    using assms(3) len by simp_all
  then show ?thesis
    using r(1,6-8) assms(4-7) len by (auto simp: topology_complete_def size_is_iff)
qed

theorem registration_complete_iff_witness:
  "\<exists>bs t. register_all [(''p0'', PREFILL), (''d0'', DECODE), (''d1'', DECODE)] (new_exchange 1 2) = Done (bs, t) \<and> last bs"
proof -
  have "{n. (n, PREFILL) \<in> set [(''p0'', PREFILL), (''d0'', DECODE), (''d1'', DECODE)]} = {''p0''}"
    "{n. (n, DECODE) \<in> set [(''p0'', PREFILL), (''d0'', DECODE), (''d1'', DECODE)]} = {''d0'', ''d1''}" by auto
  then show ?thesis
    using registration_complete_iff [of "[(''p0'', PREFILL), (''d0'', DECODE), (''d1'', DECODE)]" 1 2] by auto
qed

text \<open>The ready phase does not wait for the cluster: the first registered node that reports ready makes the
  tracker answer that all nodes are ready, although other expected nodes have not even registered.\<close>

theorem ready_before_cluster_complete:
  "(case register_all [(nid, PREFILL)] (new_exchange 2 3) of
      Done (_, t) \<Rightarrow> (case mark_node_ready nid t of Done (b, t') \<Rightarrow> b \<and> operational t' \<and> \<not> topology_complete t'
        | Relocked \<Rightarrow> False)
    | Relocked \<Rightarrow> False)"
  by (simp add: new_exchange_def xt_register_node_def mark_node_ready_def Let_def operational_def
      topology_complete_def size_is_def)

end
