(* ===== verification/OrchTracker.thy ===== *)
theory OrchTracker
  imports Complex_Main Types
begin

text \<open>
  The orchestrator's request tracker, \<open>src/cpp/apps/orchestrator/request_tracker.cpp\<close>. Every method
  runs under the tracker's mutex. \<open>now\<close> is the system clock in milliseconds, the unit the
  methods use; averages are exact rationals, without the rounding of \<open>double\<close>.
\<close>

record tracked =
  tk_info :: request_info
  tk_status :: request_status
  tk_client_fd :: int
  tk_response :: string
  tk_error :: string

type_synonym request_table = "(string \<times> tracked) list"

definition track_request :: "request_info \<Rightarrow> int \<Rightarrow> request_table \<Rightarrow> request_table" where
  "track_request r fd t = put (ri_request_id r)
     \<lparr>tk_info = r, tk_status = PENDING, tk_client_fd = fd, tk_response = [], tk_error = []\<rparr> t"

text \<open>A timestamp is written by the first transition that reaches its phase.\<close>

definition stamp_status :: "u64 \<Rightarrow> request_status \<Rightarrow> request_info \<Rightarrow> request_info" where
  "stamp_status now s i =
     (case s of
        PREFILLING \<Rightarrow> if ri_timestamp_prefill_start i = 0 then i\<lparr>ri_timestamp_prefill_start := now\<rparr> else i
      | TRANSFERRING \<Rightarrow> if ri_timestamp_prefill_done i = 0 then i\<lparr>ri_timestamp_prefill_done := now\<rparr> else i
      | DECODING \<Rightarrow> if ri_timestamp_decode_start i = 0 then i\<lparr>ri_timestamp_decode_start := now\<rparr> else i
      | COMPLETED \<Rightarrow> if ri_timestamp_decode_done i = 0 then i\<lparr>ri_timestamp_decode_done := now\<rparr> else i
      | FAILED \<Rightarrow> if ri_timestamp_decode_done i = 0 then i\<lparr>ri_timestamp_decode_done := now\<rparr> else i
      | ERROR \<Rightarrow> if ri_timestamp_decode_done i = 0 then i\<lparr>ri_timestamp_decode_done := now\<rparr> else i
      | _ \<Rightarrow> i)"

definition update_status :: "u64 \<Rightarrow> string \<Rightarrow> request_status \<Rightarrow> request_table \<Rightarrow> request_table" where
  "update_status now rid s t =
     (case map_of t rid of
        None \<Rightarrow> t
      | Some r \<Rightarrow> put rid (r\<lparr>tk_status := s, tk_info := stamp_status now s (tk_info r)\<rparr>) t)"

definition mark_prefill_complete :: "u64 \<Rightarrow> string \<Rightarrow> request_table \<Rightarrow> request_table" where
  "mark_prefill_complete now rid t =
     (case map_of t rid of
        None \<Rightarrow> t
      | Some r \<Rightarrow> put rid (r\<lparr>tk_info := (tk_info r)\<lparr>ri_timestamp_prefill_done := now\<rparr>,
          tk_status := TRANSFERRING\<rparr>) t)"

definition mark_decode_complete :: "u64 \<Rightarrow> string \<Rightarrow> string \<Rightarrow> request_table \<Rightarrow> request_table" where
  "mark_decode_complete now rid response t =
     (case map_of t rid of
        None \<Rightarrow> t
      | Some r \<Rightarrow> put rid (r\<lparr>tk_info := (tk_info r)\<lparr>ri_timestamp_decode_done := now\<rparr>,
          tk_status := COMPLETED, tk_response := response\<rparr>) t)"

definition mark_failed :: "string \<Rightarrow> string \<Rightarrow> request_table \<Rightarrow> request_table" where
  "mark_failed rid err t =
     (case map_of t rid of
        None \<Rightarrow> t
      | Some r \<Rightarrow> put rid (r\<lparr>tk_status := FAILED, tk_error := err\<rparr>) t)"

definition get_request :: "string \<Rightarrow> request_table \<Rightarrow> request_info option" where
  "get_request rid t = map_option tk_info (map_of t rid)"

definition get_status :: "string \<Rightarrow> request_table \<Rightarrow> request_status option" where
  "get_status rid t = map_option tk_status (map_of t rid)"

definition get_client_fd :: "string \<Rightarrow> request_table \<Rightarrow> int option" where
  "get_client_fd rid t = map_option tk_client_fd (map_of t rid)"

definition get_response :: "string \<Rightarrow> request_table \<Rightarrow> string option" where
  "get_response rid t = (case map_of t rid of
     None \<Rightarrow> None | Some r \<Rightarrow> if tk_response r = [] then None else Some (tk_response r))"

definition get_error :: "string \<Rightarrow> request_table \<Rightarrow> string option" where
  "get_error rid t = (case map_of t rid of
     None \<Rightarrow> None | Some r \<Rightarrow> if tk_error r = [] then None else Some (tk_error r))"

definition terminal :: "request_status \<Rightarrow> bool" where
  "terminal s \<longleftrightarrow> s = COMPLETED \<or> s = FAILED \<or> s = ERROR"

definition timed_out :: "u64 \<Rightarrow> int \<Rightarrow> tracked \<Rightarrow> bool" where
  "timed_out now timeout_ms r \<longleftrightarrow>
     \<not> terminal (tk_status r) \<and> now - ri_timestamp_created (tk_info r) > word_of_int timeout_ms"

definition get_timed_out_requests :: "u64 \<Rightarrow> int \<Rightarrow> request_table \<Rightarrow> string list" where
  "get_timed_out_requests now timeout_ms t = map fst (filter (\<lambda>(rid, r). timed_out now timeout_ms r) t)"

definition remove_request :: "string \<Rightarrow> request_table \<Rightarrow> request_table" where
  "remove_request rid t = (case map_of t rid of None \<Rightarrow> t | Some _ \<Rightarrow> erase rid t)"

definition request_end_time :: "tracked \<Rightarrow> u64" where
  "request_end_time r = (if ri_timestamp_decode_done (tk_info r) = 0
     then ri_timestamp_created (tk_info r) else ri_timestamp_decode_done (tk_info r))"

definition old_request :: "u64 \<Rightarrow> int \<Rightarrow> tracked \<Rightarrow> bool" where
  "old_request now max_age_ms r \<longleftrightarrow>
     terminal (tk_status r) \<and> now - request_end_time r > word_of_int max_age_ms"

text \<open>The loop over the table with its \<open>erase\<close>.\<close>

fun cleanup_old_requests :: "u64 \<Rightarrow> int \<Rightarrow> request_table \<Rightarrow> nat \<times> request_table" where
  "cleanup_old_requests now age [] = (0, [])"
| "cleanup_old_requests now age ((rid, r) # t) =
     (let (n, t') = cleanup_old_requests now age t in
      if old_request now age r then (Suc n, t') else (n, (rid, r) # t'))"

section \<open>Statistics\<close>

definition calculate_latency_ms :: "u64 \<Rightarrow> u64 \<Rightarrow> rat" where
  "calculate_latency_ms start stop =
     (if start = 0 \<or> stop = 0 \<or> stop < start then 0 else of_nat (unat (stop - start)))"

record tracker_stats =
  ts_total :: nat  ts_pending :: nat  ts_prefilling :: nat  ts_decoding :: nat
  ts_completed :: nat  ts_failed :: nat
  ts_avg_prefill :: rat  ts_avg_decode :: rat  ts_avg_total :: rat

definition count_where :: "(tracked \<Rightarrow> bool) \<Rightarrow> request_table \<Rightarrow> nat" where
  "count_where P t = length (filter (\<lambda>(rid, r). P r) t)"

text \<open>The average latency over the requests that have both timestamps.\<close>

definition average_latency :: "(request_info \<Rightarrow> u64) \<Rightarrow> (request_info \<Rightarrow> u64) \<Rightarrow> request_table \<Rightarrow> rat" where
  "average_latency t1 t2 t =
     (let rs = filter (\<lambda>i. t1 i > 0 \<and> t2 i > 0) (map (\<lambda>(rid, r). tk_info r) t) in
      if rs = [] then 0 else sum_list (map (\<lambda>i. calculate_latency_ms (t1 i) (t2 i)) rs) / of_nat (length rs))"

definition ot_get_stats :: "request_table \<Rightarrow> tracker_stats" where
  "ot_get_stats t = \<lparr>ts_total = length t,
     ts_pending = count_where (\<lambda>r. tk_status r = PENDING) t,
     ts_prefilling = count_where (\<lambda>r. tk_status r = PREFILLING) t,
     ts_decoding = count_where (\<lambda>r. tk_status r = DECODING) t,
     ts_completed = count_where (\<lambda>r. tk_status r = COMPLETED) t,
     ts_failed = count_where (\<lambda>r. tk_status r = FAILED \<or> tk_status r = ERROR) t,
     ts_avg_prefill = average_latency ri_timestamp_prefill_start ri_timestamp_prefill_done t,
     ts_avg_decode = average_latency ri_timestamp_decode_start ri_timestamp_decode_done t,
     ts_avg_total = average_latency ri_timestamp_created ri_timestamp_decode_done t\<rparr>"

section \<open>Properties\<close>

lemma get_status_simps [simp]:
  "get_status rid (track_request r fd t) = (if rid = ri_request_id r then Some PENDING else get_status rid t)"
  "get_client_fd rid (track_request r fd t) = (if rid = ri_request_id r then Some fd else get_client_fd rid t)"
  "get_status rid (update_status now rid' s t) =
     (if rid = rid' then map_option (\<lambda>_. s) (get_status rid t) else get_status rid t)"
  "get_client_fd rid (update_status now rid' s t) = get_client_fd rid t"
  by (auto simp: get_status_def get_client_fd_def track_request_def update_status_def split: option.split)

lemma cleanup_filter:
  "cleanup_old_requests now age t
     = (count_where (old_request now age) t, filter (\<lambda>(rid, r). \<not> old_request now age r) t)"
  by (induction t) (auto simp: count_where_def)

text \<open>Cleaning up touches finished requests only: it keeps every request in progress and every younger one, in
  order, and returns the number of requests it removed.\<close>

theorem cleanup_keeps_active:
  "cleanup_old_requests now age t = (n, t') \<Longrightarrow>
     t' = filter (\<lambda>(rid, r). \<not> (terminal (tk_status r) \<and> now - request_end_time r > word_of_int age)) t
     \<and> n + length t' = length t"
  unfolding old_request_def [symmetric]
  by (auto simp: cleanup_filter count_where_def case_prod_unfold sum_length_filter_compl)

definition sample_table :: request_table where
  "sample_table = [(''a'', \<lparr>tk_info = \<lparr>ri_request_id = ''a'', ri_prompt = [], ri_max_tokens = 1,
      ri_prefill_node_id = [], ri_decode_node_id = [], ri_slot_id = 0, ri_slot_base_offset = 0,
      ri_timestamp_created = 1700000000000000000, ri_timestamp_prefill_start = 0, ri_timestamp_prefill_done = 0,
      ri_timestamp_decode_start = 0, ri_timestamp_decode_done = 0\<rparr>, tk_status = PREFILLING,
      tk_client_fd = 9, tk_response = [], tk_error = []\<rparr>)]"

theorem cleanup_keeps_active_witness:
  "cleanup_old_requests 100 10 sample_table = (0, sample_table)"
  using cleanup_keeps_active [of 100 10 sample_table 0 sample_table]
  by (simp add: sample_table_def terminal_def old_request_def)

text \<open>Requests carry a creation time in nanoseconds while the timeout check reads the clock in
  milliseconds: the subtraction wraps and every request in progress is reported as timed out,
  however recent and whatever the timeout.\<close>

theorem every_active_request_times_out:
  assumes "map_of t rid = Some r" and "\<not> terminal (tk_status r)"
    and "unat now_ms < unat (ri_timestamp_created (tk_info r))"
    and "unat (ri_timestamp_created (tk_info r)) < 2 ^ 63" and "0 \<le> timeout" and "timeout \<le> INT_MAX"
  shows "rid \<in> set (get_timed_out_requests now_ms timeout t)"
proof -
  let ?c = "ri_timestamp_created (tk_info r)"
  have "unat (now_ms - ?c) = 2 ^ 64 - (unat ?c - unat now_ms)"
    using assms(3) by (simp add: unat_sub_if')
  then have "unat (now_ms - ?c) > 2 ^ 31" using assms(4) by simp
  moreover have "unat (word_of_int timeout :: u64) < 2 ^ 31"
    using assms(5,6) by (simp add: unsigned_of_int take_bit_int_eq_self INT_MAX_def)
  ultimately have "timed_out now_ms timeout r"
    using assms(2) by (simp add: timed_out_def word_less_nat_alt)
  then show ?thesis
    using map_of_SomeD [OF assms(1)] by (force simp: get_timed_out_requests_def image_iff)
qed

theorem every_active_request_times_out_witness:
  "''a'' \<in> set (get_timed_out_requests 1700000000000 600000 sample_table)"
proof (rule every_active_request_times_out)
  show "map_of sample_table ''a'' = Some (snd (hd sample_table))" by (simp add: sample_table_def)
qed (simp_all add: sample_table_def terminal_def INT_MAX_def)

end
