(* ===== verification/Config.thy ===== *)
theory Config
  imports Wire
begin

text \<open>
  Configuration, \<open>src/cpp/common/config.h\<close> and \<open>.cpp\<close>, and the helpers of \<open>src/cpp/common/utils.cpp\<close>
  that compute. yaml-cpp is a parameter: \<open>yaml_api\<close> holds the operations \<open>fromFile\<close> uses of a
  node, with \<open>None\<close> for a conversion that throws.
\<close>

section \<open>Numbers and hashes\<close>

text \<open>\<open>std::to_string\<close> of an unsigned number.\<close>

fun show_nat :: "nat \<Rightarrow> string" where
  "show_nat n = (if n < 10 then [char_of (48 + n)] else show_nat (n div 10) @ [char_of (48 + n mod 10)])"

declare show_nat.simps [simp del]

text \<open>One round of FNV-1a and the 64-bit hash of a string.\<close>

definition fnv_offset :: u64 where
  "fnv_offset = 14695981039346656037"

definition fnv_prime :: u64 where
  "fnv_prime = 1099511628211"

definition hash_key :: "string \<Rightarrow> u64" where
  "hash_key key = foldl (\<lambda>h c. (h XOR ucast (byte_of_char c)) * fnv_prime) fnv_offset key"

text \<open>The loop of \<open>Config::generate_node_id\<close>, which repeats the hash instead of calling it.\<close>

fun node_id_loop :: "u64 \<Rightarrow> string \<Rightarrow> u64" where
  "node_id_loop h [] = h"
| "node_id_loop h (c # cs) =
     (let h = h XOR ucast (byte_of_char c); h = h * fnv_prime in node_id_loop h cs)"

definition generate_node_id :: "string \<Rightarrow> u16 \<Rightarrow> string" where
  "generate_node_id host port =
     show_nat (unat (node_id_loop 14695981039346656037 (host @ '':'' @ show_nat (unat port))))"

text \<open>\<open>counter.fetch_add(1)\<close>: the id and the new counter.\<close>

definition generate_request_id :: "u64 \<Rightarrow> u64 \<times> u64" where
  "generate_request_id counter = (counter, counter + 1)"

text \<open>\<open>hash\<close> is \<open>std::hash<std::string>\<close>, whose values the standard leaves open.\<close>

definition generate_transaction_id :: "(string \<Rightarrow> u64) \<Rightarrow> u64 \<Rightarrow> string \<Rightarrow> u32 \<Rightarrow> u64" where
  "generate_transaction_id hash timestamp nid worker =
     push_bit 32 timestamp OR push_bit 8 (hash nid AND 0xFFFFFF) OR ucast (worker AND 0xFF)"

section \<open>The configuration record\<close>

record peer_config =
  pc_node_id :: string
  pc_hostname :: string
  pc_client_socket_port :: u32
  pc_server_socket_port :: u32

record rdma_config =
  rc_ib_devices :: "string list"
  rc_ib_port :: int
  rc_gid_index :: int
  rc_mtu :: int
  rc_sl :: int
  rc_qp_max_send_wr :: int
  rc_qp_max_recv_wr :: int
  rc_qp_max_inline_data :: int
  rc_max_rd_atomic :: int
  rc_min_rnr_timer :: int
  rc_timeout :: int
  rc_retry_cnt :: int
  rc_rnr_retry :: int
  rc_cq_depth :: int

definition default_rdma_config :: rdma_config where
  "default_rdma_config = \<lparr>rc_ib_devices = [], rc_ib_port = 1, rc_gid_index = 0, rc_mtu = 0, rc_sl = 0,
     rc_qp_max_send_wr = 64, rc_qp_max_recv_wr = 64, rc_qp_max_inline_data = 64, rc_max_rd_atomic = 16,
     rc_min_rnr_timer = 12, rc_timeout = 14, rc_retry_cnt = 7, rc_rnr_retry = 7, rc_cq_depth = 128\<rparr>"

record memory_config =
  mc_kv_buffer_mb :: u64
  mc_required_mb :: u64
  mc_layer_size_mb :: u64
  mc_num_kv_chunks :: int
  mc_chunk_size_mb :: u64
  mc_mr_relaxed_ordering :: bool
  mc_max_concurrent_requests :: int

definition default_memory_config :: memory_config where
  "default_memory_config = \<lparr>mc_kv_buffer_mb = 16384, mc_required_mb = 0, mc_layer_size_mb = 128,
     mc_num_kv_chunks = 16, mc_chunk_size_mb = 64, mc_mr_relaxed_ordering = True,
     mc_max_concurrent_requests = 8\<rparr>"

record gpu_config =
  gc_gpu_ids :: "int list"
  gc_enable_peer_access :: bool
  gc_require_same_numa :: bool

record config =
  cf_node_id :: string
  cf_client_socket_port :: u32
  cf_server_socket_port :: u32
  cf_hostname :: string
  cf_replication_factor :: u32
  cf_vnodes_number :: u32
  cf_number_of_keys_hashtable :: u32
  cf_size_local_buffer :: u64
  cf_client_event_queue_size :: u64
  cf_worker_pool_size :: u32
  cf_orchestrator_host :: string
  cf_orchestrator_port :: u32
  cf_orchestrator_id :: string
  cf_vllm_port :: u32
  cf_model_name :: string
  cf_num_layers :: u32
  cf_role :: string
  cf_orchestrator_event_queue_size :: u32
  cf_expected_decode_nodes :: int
  cf_expected_prefill_nodes :: int
  cf_prefill_nodes :: "peer_config list"
  cf_decode_nodes :: "peer_config list"
  cf_peers :: "peer_config list"
  cf_use_gpu :: bool
  cf_rdma :: rdma_config
  cf_memory :: memory_config
  cf_gpu :: gpu_config

section \<open>Reading a file\<close>

record 'y yaml_api =
  y_get :: "'y \<Rightarrow> string \<Rightarrow> 'y"
  y_defined :: "'y \<Rightarrow> bool"
  y_items :: "'y \<Rightarrow> 'y list"
  y_string :: "'y \<Rightarrow> string option"
  y_int :: "'y \<Rightarrow> int option"
  y_u32 :: "'y \<Rightarrow> u32 option"
  y_size :: "'y \<Rightarrow> u64 option"
  y_bool :: "'y \<Rightarrow> bool option"
  y_float_ok :: "'y \<Rightarrow> bool"

text \<open>\<open>n[k] ? n[k].as<T>() : d\<close>.\<close>

definition with_default :: "'y yaml_api \<Rightarrow> ('y \<Rightarrow> 'a option) \<Rightarrow> 'y \<Rightarrow> string \<Rightarrow> 'a \<Rightarrow> 'a option" where
  "with_default api as n k d = (if y_defined api (y_get api n k) then as (y_get api n k) else Some d)"

fun map_opt :: "('a \<Rightarrow> 'b option) \<Rightarrow> 'a list \<Rightarrow> 'b list option" where
  "map_opt f [] = Some []"
| "map_opt f (x # xs) = do { y \<leftarrow> f x; ys \<leftarrow> map_opt f xs; Some (y # ys) }"

definition read_peer :: "'y yaml_api \<Rightarrow> 'y \<Rightarrow> peer_config option" where
  "read_peer api n = do {
     host \<leftarrow> y_string api (y_get api n ''host'');
     cport \<leftarrow> y_u32 api (y_get api n ''client_socket_port'');
     sport \<leftarrow> y_u32 api (y_get api n ''server_socket_port'');
     Some \<lparr>pc_node_id = generate_node_id host (ucast cport), pc_hostname = host,
       pc_client_socket_port = cport, pc_server_socket_port = sport\<rparr> }"

definition read_rdma :: "'y yaml_api \<Rightarrow> 'y \<Rightarrow> rdma_config option" where
  "read_rdma api n = (let int_or = with_default api (y_int api) n in do {
     ib_port \<leftarrow> int_or ''ib_port'' 1;
     gid \<leftarrow> int_or ''gid_index'' 0;
     mtu \<leftarrow> int_or ''mtu'' 4096;
     sl \<leftarrow> int_or ''sl'' 0;
     swr \<leftarrow> int_or ''qp_max_send_wr'' 64;
     rwr \<leftarrow> int_or ''qp_max_recv_wr'' 64;
     inl \<leftarrow> int_or ''qp_max_inline_data'' 64;
     rda \<leftarrow> int_or ''max_rd_atomic'' 16;
     rnr \<leftarrow> int_or ''min_rnr_timer'' 12;
     tmo \<leftarrow> int_or ''timeout'' 14;
     rty \<leftarrow> int_or ''retry_cnt'' 7;
     rrt \<leftarrow> int_or ''rnr_retry'' 7;
     cqd \<leftarrow> int_or ''cq_depth'' 128;
     Some \<lparr>rc_ib_devices = [], rc_ib_port = ib_port, rc_gid_index = gid, rc_mtu = mtu, rc_sl = sl,
       rc_qp_max_send_wr = swr, rc_qp_max_recv_wr = rwr, rc_qp_max_inline_data = inl, rc_max_rd_atomic = rda,
       rc_min_rnr_timer = rnr, rc_timeout = tmo, rc_retry_cnt = rty, rc_rnr_retry = rrt, rc_cq_depth = cqd\<rparr> })"

definition read_gpu :: "'y yaml_api \<Rightarrow> 'y \<Rightarrow> gpu_config option" where
  "read_gpu api n = do {
     peer \<leftarrow> with_default api (y_bool api) n ''enable_peer_access'' True;
     numa \<leftarrow> with_default api (y_bool api) n ''require_same_numa'' False;
     Some \<lparr>gc_gpu_ids = [], gc_enable_peer_access = peer, gc_require_same_numa = numa\<rparr> }"

definition read_memory :: "'y yaml_api \<Rightarrow> 'y \<Rightarrow> memory_config option" where
  "read_memory api mem = (let size_or = with_default api (y_size api) mem in do {
     kv \<leftarrow> size_or ''kv_buffer_mb'' 1024;
     layer \<leftarrow> size_or ''layer_size_mb'' 128;
     chunks \<leftarrow> with_default api (y_int api) mem ''num_kv_chunks'' 16;
     chunk \<leftarrow> size_or ''chunk_size_mb'' 64;
     relaxed \<leftarrow> with_default api (y_bool api) mem ''mr_relaxed_ordering'' True;
     conc \<leftarrow> with_default api (y_int api) mem ''max_concurrent_requests'' 8;
     Some \<lparr>mc_kv_buffer_mb = kv, mc_required_mb = 0, mc_layer_size_mb = layer, mc_num_kv_chunks = chunks,
       mc_chunk_size_mb = chunk, mc_mr_relaxed_ordering = relaxed, mc_max_concurrent_requests = conc\<rparr> })"

definition required_mb :: "u32 \<Rightarrow> memory_config \<Rightarrow> u64" where
  "required_mb layers m = ucast layers * mc_layer_size_mb m * word_of_int (mc_max_concurrent_requests m)"

text \<open>The assignments of \<open>fromFile\<close>. \<open>g\<close> is the content of the two counters nobody sets without an
  orchestrator section. The memory utilisation is a float only passed on to vLLM: its value is left out, that its
  conversion can throw is not.\<close>

definition read_config :: "'y yaml_api \<Rightarrow> int \<times> int \<Rightarrow> 'y \<Rightarrow> config option" where
  "read_config api g y = do {
     host \<leftarrow> y_string api (y_get api y ''host'');
     cport \<leftarrow> y_int api (y_get api y ''client_socket_port'');
     sport \<leftarrow> y_int api (y_get api y ''server_socket_port'');
     repl \<leftarrow> with_default api (y_u32 api) y ''replication_factor'' 3;
     keys \<leftarrow> with_default api (y_u32 api) y ''number_of_keys_hashtable'' 10000;
     buf \<leftarrow> with_default api (y_size api) y ''size_local_buffer'' 1024;
     evq \<leftarrow> with_default api (y_size api) y ''event_queue_size'' 1000;
     pool \<leftarrow> with_default api (y_u32 api) y ''worker_pool_size'' 4;
     ohost \<leftarrow> y_string api (y_get api y ''orchestrator_host'');
     oport \<leftarrow> y_int api (y_get api y ''orchestrator_port'');
     layers \<leftarrow> with_default api (y_u32 api) y ''num_layers'' 12;
     vllm \<leftarrow> with_default api (y_u32 api) y ''vllm_port'' 8000;
     model \<leftarrow> with_default api (y_string api) y ''model_name'' [];
     _ \<leftarrow> with_default api (\<lambda>n. if y_float_ok api n then Some () else None) y ''gpu_memory_utilization'' ();
     use_gpu \<leftarrow> with_default api (y_bool api) y ''use_gpu'' True;
     role \<leftarrow> y_string api (y_get api (y_get api y ''node'') ''role'');
     vnodes \<leftarrow> with_default api (y_int api) y ''vnodes_number'' 1;
     rdma \<leftarrow> (if y_defined api (y_get api y ''node'') then read_rdma api (y_get api y ''node'')
              else Some default_rdma_config);
     gpu \<leftarrow> (if y_defined api (y_get api y ''node'') then read_gpu api (y_get api y ''node'')
             else Some \<lparr>gc_gpu_ids = [], gc_enable_peer_access = True, gc_require_same_numa = False\<rparr>);
     mem \<leftarrow> (if y_defined api (y_get api y ''memory'') then read_memory api (y_get api y ''memory'')
             else Some default_memory_config);
     (dec, pre) \<leftarrow> (if y_defined api (y_get api y ''orchestrator'') then do {
           d \<leftarrow> with_default api (y_int api) (y_get api y ''orchestrator'') ''expected_decode_nodes'' 1;
           p \<leftarrow> with_default api (y_int api) (y_get api y ''orchestrator'') ''expected_prefill_nodes'' 1;
           Some (d, p) } else Some g);
     peers \<leftarrow> map_opt (read_peer api) (y_items api (y_get api y ''peers''));
     prefills \<leftarrow> map_opt (read_peer api) (y_items api (y_get api y ''prefill_nodes''));
     decodes \<leftarrow> map_opt (read_peer api) (y_items api (y_get api y ''decode_nodes''));
     Some \<lparr>cf_node_id = generate_node_id host (ucast (word_of_int cport :: u32)),
       cf_client_socket_port = word_of_int cport, cf_server_socket_port = word_of_int sport,
       cf_hostname = host, cf_replication_factor = repl, cf_vnodes_number = word_of_int vnodes,
       cf_number_of_keys_hashtable = keys, cf_size_local_buffer = buf, cf_client_event_queue_size = evq,
       cf_worker_pool_size = pool, cf_orchestrator_host = ohost, cf_orchestrator_port = word_of_int oport,
       cf_orchestrator_id = generate_node_id ohost (ucast (word_of_int oport :: u32)),
       cf_vllm_port = vllm, cf_model_name = model, cf_num_layers = layers, cf_role = role,
       cf_orchestrator_event_queue_size = ucast evq, cf_expected_decode_nodes = dec,
       cf_expected_prefill_nodes = pre, cf_prefill_nodes = prefills, cf_decode_nodes = decodes,
       cf_peers = peers, cf_use_gpu = use_gpu, cf_rdma = rdma,
       cf_memory = mem\<lparr>mc_required_mb := required_mb layers mem\<rparr>, cf_gpu = gpu\<rparr> }"

datatype config_error = Yaml_error | No_node_id | No_host | Invalid_port u32 | No_peer

definition validate :: "config \<Rightarrow> config_error option" where
  "validate c =
     (if cf_node_id c = [] then Some No_node_id
      else if cf_hostname c = [] then Some No_host
      else if cf_client_socket_port c \<le> 0 \<or> cf_client_socket_port c > 65535
        then Some (Invalid_port (cf_client_socket_port c))
      else if cf_peers c = [] then Some No_peer
      else None)"

definition config_from_file :: "'y yaml_api \<Rightarrow> int \<times> int \<Rightarrow> 'y option \<Rightarrow> config_error + config" where
  "config_from_file api g file =
     (case file \<bind> read_config api g of
        None \<Rightarrow> Inl Yaml_error
      | Some c \<Rightarrow> (case validate c of Some e \<Rightarrow> Inl e | None \<Rightarrow> Inr c))"

section \<open>Properties\<close>

lemma node_id_loop_foldl: "node_id_loop h key = foldl (\<lambda>h c. (h XOR ucast (byte_of_char c)) * fnv_prime) h key"
  by (induction key arbitrary: h) (simp_all add: fnv_prime_def Let_def)

lemma generate_node_id_hash:
  "generate_node_id host port = show_nat (unat (hash_key (host @ '':'' @ show_nat (unat port))))"
  by (simp add: generate_node_id_def node_id_loop_foldl hash_key_def fnv_offset_def)

lemma show_nat_nonempty [simp]: "show_nat n \<noteq> []"
  by (subst show_nat.simps) simp

lemma read_config_derived:
  assumes "read_config api g y = Some c"
  shows "cf_node_id c = generate_node_id (cf_hostname c) (ucast (cf_client_socket_port c))
    \<and> cf_orchestrator_id c = generate_node_id (cf_orchestrator_host c) (ucast (cf_orchestrator_port c))
    \<and> mc_required_mb (cf_memory c) = required_mb (cf_num_layers c) (cf_memory c)
    \<and> cf_orchestrator_event_queue_size c = ucast (cf_client_event_queue_size c)"
  using assms unfolding read_config_def
  by (auto simp: bind_eq_Some_conv required_mb_def)

definition peer_id_ok :: "peer_config \<Rightarrow> bool" where
  "peer_id_ok p \<longleftrightarrow> pc_node_id p = generate_node_id (pc_hostname p) (ucast (pc_client_socket_port p))"

lemma read_peer_id: "map_opt (read_peer api) ns = Some ps \<Longrightarrow> list_all peer_id_ok ps"
  by (induction ns arbitrary: ps) (auto simp: bind_eq_Some_conv read_peer_def peer_id_ok_def)

lemma read_config_peers:
  assumes "read_config api g y = Some c"
  shows "list_all peer_id_ok (cf_peers c @ cf_prefill_nodes c @ cf_decode_nodes c)"
  using assms unfolding read_config_def
  by (auto simp: bind_eq_Some_conv list_all_append dest!: read_peer_id)

lemma accepted_config_required:
  "config_from_file api g file = Inr c \<Longrightarrow> mc_required_mb (cf_memory c) = required_mb (cf_num_layers c) (cf_memory c)"
  by (auto simp: config_from_file_def bind_eq_Some_conv dest!: read_config_derived split: option.splits)

text \<open>Neither list of devices is ever read from a file.\<close>

lemma accepted_config_devices:
  "config_from_file api g file = Inr c \<Longrightarrow> rc_ib_devices (cf_rdma c) = [] \<and> gc_gpu_ids (cf_gpu c) = []"
proof -
  have rdma: "read_rdma api y = Some r \<Longrightarrow> rc_ib_devices r = []" for y r
    unfolding read_rdma_def Let_def by (auto simp: bind_eq_Some_conv)
  have gpu: "read_gpu api y = Some r \<Longrightarrow> gc_gpu_ids r = []" for y r
    unfolding read_gpu_def by (auto simp: bind_eq_Some_conv)
  show "config_from_file api g file = Inr c \<Longrightarrow> ?thesis"
    unfolding config_from_file_def read_config_def
    by (auto simp: bind_eq_Some_conv default_rdma_config_def split: option.splits if_splits dest!: rdma gpu)
qed

text \<open>A configuration that \<open>fromFile\<close> returns has a usable port, a host and a peer; this node, the orchestrator and every listed
  node are identified by the decimal FNV-1a hash of host and port, so all nodes that read the same addresses
  agree on the ids; and the minimum buffer is layers times layer size times concurrent requests.\<close>

theorem accepted_config:
  assumes "config_from_file api g file = Inr c"
  shows "0 < unat (cf_client_socket_port c) \<and> unat (cf_client_socket_port c) \<le> 65535
    \<and> cf_hostname c \<noteq> [] \<and> cf_peers c \<noteq> []
    \<and> cf_node_id c = show_nat (unat (hash_key (cf_hostname c @ '':'' @ show_nat (unat (cf_client_socket_port c)))))
    \<and> cf_orchestrator_id c = generate_node_id (cf_orchestrator_host c) (ucast (cf_orchestrator_port c))
    \<and> (\<forall>p \<in> set (cf_peers c @ cf_prefill_nodes c @ cf_decode_nodes c).
         pc_node_id p = generate_node_id (pc_hostname p) (ucast (pc_client_socket_port p)))
    \<and> mc_required_mb (cf_memory c)
        = ucast (cf_num_layers c) * mc_layer_size_mb (cf_memory c) * word_of_int (mc_max_concurrent_requests (cf_memory c))"
proof -
  obtain y where read: "read_config api g y = Some c" and v: "validate c = None"
    using assms by (auto simp: config_from_file_def bind_eq_Some_conv split: option.splits)
  have port: "0 < unat (cf_client_socket_port c)" "unat (cf_client_socket_port c) \<le> 65535"
    "cf_hostname c \<noteq> []" "cf_peers c \<noteq> []"
    using v by (auto simp: validate_def word_le_nat_alt word_less_nat_alt unat_gt_0 not_less split: if_splits)
  have "unat (ucast (cf_client_socket_port c) :: u16) = unat (cf_client_socket_port c)"
    using port(2) by (simp add: unsigned_ucast_eq take_bit_nat_eq_self)
  then show ?thesis
    using read_config_derived [OF read] read_config_peers [OF read] port
    by (auto simp: generate_node_id_hash required_mb_def list_all_iff peer_id_ok_def)
qed

text \<open>A small model of yaml-cpp: a tree, and its conversions.\<close>

datatype yaml = Y_undefined | Y_str string | Y_num int | Y_map "(string \<times> yaml) list" | Y_seq "yaml list"

definition yaml_tree :: "yaml yaml_api" where
  "yaml_tree = \<lparr>
     y_get = (\<lambda>n k. case n of Y_map m \<Rightarrow> (case map_of m k of None \<Rightarrow> Y_undefined | Some v \<Rightarrow> v) | _ \<Rightarrow> Y_undefined),
     y_defined = (\<lambda>n. n \<noteq> Y_undefined),
     y_items = (\<lambda>n. case n of Y_seq ns \<Rightarrow> ns | _ \<Rightarrow> []),
     y_string = (\<lambda>n. case n of Y_str s \<Rightarrow> Some s | _ \<Rightarrow> None),
     y_int = (\<lambda>n. case n of Y_num i \<Rightarrow> Some i | _ \<Rightarrow> None),
     y_u32 = (\<lambda>n. case n of Y_num i \<Rightarrow> Some (word_of_int i) | _ \<Rightarrow> None),
     y_size = (\<lambda>n. case n of Y_num i \<Rightarrow> Some (word_of_int i) | _ \<Rightarrow> None),
     y_bool = (\<lambda>n. None),
     y_float_ok = (\<lambda>n. True)\<rparr>"

definition sample_yaml :: yaml where
  "sample_yaml = (let peer = Y_map [(''host'', Y_str ''a''), (''client_socket_port'', Y_num 7000), (''server_socket_port'', Y_num 7001)] in
     Y_map [(''host'', Y_str ''b''), (''client_socket_port'', Y_num 8000), (''server_socket_port'', Y_num 8001),
       (''orchestrator_host'', Y_str ''a''), (''orchestrator_port'', Y_num 7001),
       (''node'', Y_map [(''role'', Y_str ''decode'')]), (''peers'', Y_seq [peer])])"

lemma sample_yaml_config:
  "\<exists>c. config_from_file yaml_tree (0, 0) (Some sample_yaml) = Inr c \<and> cf_num_layers c = 12
     \<and> cf_memory c = default_memory_config\<lparr>mc_required_mb := 12288\<rparr>"
  by (simp add: config_from_file_def read_config_def yaml_tree_def sample_yaml_def with_default_def read_peer_def read_rdma_def
      read_gpu_def required_mb_def default_memory_config_def validate_def generate_node_id_def Let_def)

theorem accepted_config_witness:
  "\<exists>c. config_from_file yaml_tree (0, 0) (Some sample_yaml) = Inr c \<and> mc_required_mb (cf_memory c) = 12 * 128 * 8"
proof -
  obtain c where c: "config_from_file yaml_tree (0, 0) (Some sample_yaml) = Inr c"
    and m: "cf_num_layers c = 12" "cf_memory c = default_memory_config\<lparr>mc_required_mb := 12288\<rparr>"
    using sample_yaml_config by blast
  then show ?thesis using accepted_config [OF c] by (simp add: default_memory_config_def)
qed

end
