(* ===== verification/Orchestrator.thy ===== *)
theory Orchestrator
  imports EpollLoop Router Exchange OrchTracker Config
begin

text \<open>
  The orchestrator: the message handlers of \<open>src/cpp/nodes/worker_orchestrator.cpp\<close> over the shared
  registry, router, request tracker, exchange tracker and I/O worker, the worker thread's loop
  (\<open>worker_pool_orchestrator.cpp\<close>) and the engine (\<open>orchestrator_engine.cpp\<close>). One event is one
  step. A handler that asks for a mutex its thread holds ends in \<open>Relocked\<close>.
\<close>

section \<open>State\<close>

datatype engine_state = STARTING | WAITING_FOR_NODES | QP_EXCHANGING | WAITING_FOR_READY | RUNNING | STOPPED

record orch =
  oc_config :: config
  oc_node_id :: string
  oc_registry :: node_registry
  oc_router :: router
  oc_tracker :: request_table
  oc_exchange :: exchange
  oc_epoll :: epoll_worker
  oc_state :: engine_state
  oc_events_processed :: u64

text \<open>
  What one event takes from outside: the successive readings of the two clocks, the indeterminate content
  of new messages and of a new \<open>RequestInfo\<close>, and the random policy's draws.
\<close>

record env =
  en_ns :: "nat \<Rightarrow> u64"
  en_ms :: "nat \<Rightarrow> u64"
  en_message :: message
  en_request :: request_info
  en_draw :: "nat \<Rightarrow> nat \<Rightarrow> nat"

definition send_to :: "int \<Rightarrow> message \<Rightarrow> orch \<Rightarrow> orch" where
  "send_to fd m s = s\<lparr>oc_epoll := enqueue_response fd m (oc_epoll s)\<rparr>"

abbreviation orchestrator_id :: "orch \<Rightarrow> string" where
  "orchestrator_id s \<equiv> cf_orchestrator_id (oc_config s)"

definition on_router :: "(router \<Rightarrow> router) \<Rightarrow> orch \<Rightarrow> orch" where
  "on_router f s = s\<lparr>oc_router := f (oc_router s)\<rparr>"

definition on_tracker :: "(request_table \<Rightarrow> request_table) \<Rightarrow> orch \<Rightarrow> orch" where
  "on_tracker f s = s\<lparr>oc_tracker := f (oc_tracker s)\<rparr>"

section \<open>Handlers\<close>

definition capacity_error :: string where
  "capacity_error = ''All nodes at capacity. Please try again later.''"

text \<open>The request the orchestrator builds; the fields it does not set keep the indeterminate content.\<close>

definition routed_request :: "env \<Rightarrow> request_info \<Rightarrow> routing_result \<Rightarrow> request_info" where
  "routed_request e r res = (new_request_info (en_request e))
     \<lparr>ri_request_id := ri_request_id r, ri_prompt := ri_prompt r, ri_max_tokens := ri_max_tokens r,
      ri_prefill_node_id := ni_node_id (rr_prefill_node res),
      ri_decode_node_id := ni_node_id (rr_decode_node res),
      ri_slot_id := rr_slot_id res, ri_slot_base_offset := rr_slot_base_offset res,
      ri_timestamp_created := en_ns e 0\<rparr>"

definition handle_client_request :: "env \<Rightarrow> int \<Rightarrow> message \<Rightarrow> orch \<Rightarrow> orch" where
  "handle_client_request e client_fd m s =
     (let rid = ri_request_id (msg_request_info m);
          (routing, rt) = select_nodes_and_allocate_slot (en_draw e) (oc_registry s) rid (oc_router s);
          s = s\<lparr>oc_router := rt\<rparr> in
      case routing of
        None \<Rightarrow> send_to client_fd (create_error (en_ns e 1) (en_message e) capacity_error) s
      | Some res \<Rightarrow>
          (let info = routed_request e (msg_request_info m) res;
               s = on_tracker (track_request info client_fd) s;
               assign = create_assign_request (en_ns e 1) (en_message e) (orchestrator_id s) info;
               prep = create_prepare_decode_slot (en_ns e 2) (en_message e) (orchestrator_id s) info in
           case get_node_fd (ni_node_id (rr_decode_node res)) (oc_registry s) of
             None \<Rightarrow> on_router (free_slot (ri_request_id info)) s
           | Some decode_fd \<Rightarrow>
               (let s = send_to decode_fd prep s in
                case get_node_fd (ni_node_id (rr_prefill_node res)) (oc_registry s) of
                  None \<Rightarrow> on_router (free_slot (ri_request_id info)) s
                | Some prefill_fd \<Rightarrow>
                    on_router (increment_node_load (ni_node_id (rr_decode_node res)))
                      (on_router (increment_node_load (ni_node_id (rr_prefill_node res)))
                         (send_to prefill_fd assign s)))))"

text \<open>The end of a request that three handlers share in the same order: free the slot, lower both loads.\<close>

definition release_request :: "request_info \<Rightarrow> orch \<Rightarrow> orch" where
  "release_request r s =
     on_router (decrement_node_load (ri_decode_node_id r))
       (on_router (decrement_node_load (ri_prefill_node_id r))
         (on_router (free_slot (ri_request_id r)) s))"

definition reply_to_client :: "string \<Rightarrow> message \<Rightarrow> orch \<Rightarrow> orch" where
  "reply_to_client rid m s = (case get_client_fd rid (oc_tracker s) of None \<Rightarrow> s | Some fd \<Rightarrow> send_to fd m s)"

definition handle_prefill_complete_orchestrator :: "env \<Rightarrow> int \<Rightarrow> message \<Rightarrow> orch \<Rightarrow> orch" where
  "handle_prefill_complete_orchestrator e server_fd m s =
     (let r = msg_request_info m; rid = ri_request_id r;
          s = on_tracker (update_status (en_ms e 0) rid DECODING) s in
      case get_node_fd (ri_decode_node_id r) (oc_registry s) of
        Some decode_fd \<Rightarrow> send_to decode_fd (prefill_complete (en_ns e 0) (en_message e) (orchestrator_id s) r) s
      | None \<Rightarrow>
          (let s = release_request r (on_tracker (update_status (en_ms e 1) rid FAILED) s) in
           reply_to_client rid (create_request_failed (en_ns e 0) (en_message e) (orchestrator_id s) r
             (''Decode node '' @ ri_decode_node_id r @ '' not found'')) s))"

text \<open>The loop over all registered nodes; one without a descriptor is skipped.\<close>

definition broadcast :: "message \<Rightarrow> node_info list \<Rightarrow> orch \<Rightarrow> orch" where
  "broadcast m nodes s = foldl (\<lambda>s n. case get_node_fd (ni_node_id n) (oc_registry s) of
     None \<Rightarrow> s | Some fd \<Rightarrow> send_to fd m s) s nodes"

definition handle_process_rdma_registration :: "env \<Rightarrow> int \<Rightarrow> message \<Rightarrow> orch \<Rightarrow> orch lock_outcome" where
  "handle_process_rdma_registration e server_fd m s =
     (let n = msg_node_info m;
          s = s\<lparr>oc_registry := add_node_fd (ni_node_id n) server_fd (add_node n (oc_registry s))\<rparr> in
      case xt_register_node (ni_node_id n) (ni_role n) (oc_exchange s) of
        Relocked \<Rightarrow> Relocked
      | Done (_, x) \<Rightarrow>
          (let s = s\<lparr>oc_exchange := x\<rparr>;
               total = int (get_total_registered_nodes (oc_registry s));
               expected = cf_expected_prefill_nodes (oc_config s) + cf_expected_decode_nodes (oc_config s) in
           Done (if total = expected
             then (let all = get_all_nodes (oc_registry s) in
               broadcast (create_broadcast_member_info (en_ns e 0) (en_message e) (oc_node_id s) all) all s)
             else s)))"

definition handle_ready :: "env \<Rightarrow> int \<Rightarrow> message \<Rightarrow> orch \<Rightarrow> orch lock_outcome" where
  "handle_ready e server_fd m s =
     (case mark_node_ready (msg_source_node_id m) (oc_exchange s) of
        Relocked \<Rightarrow> Relocked
      | Done (all_ready, x) \<Rightarrow>
          (let s = s\<lparr>oc_exchange := x\<rparr> in Done (if all_ready then s\<lparr>oc_state := RUNNING\<rparr> else s)))"

definition handle_decode_complete :: "env \<Rightarrow> int \<Rightarrow> message \<Rightarrow> orch \<Rightarrow> orch" where
  "handle_decode_complete e server_fd m s =
     (let r = msg_request_info m; rid = ri_request_id r;
          s = release_request r (on_tracker (update_status (en_ms e 0) rid COMPLETED) s) in
      reply_to_client rid (create_client_response (en_ns e 0) (en_message e) (orchestrator_id s) r
        (msg_response_text m)) s)"

definition handle_request_failed :: "env \<Rightarrow> int \<Rightarrow> message \<Rightarrow> orch \<Rightarrow> orch" where
  "handle_request_failed e server_fd m s =
     (let r = msg_request_info m; rid = ri_request_id r;
          s = release_request r (on_tracker (update_status (en_ms e 0) rid FAILED) s) in
      reply_to_client rid (create_request_failed (en_ns e 0) (en_message e) (orchestrator_id s) r
        (msg_error_message m)) s)"

section \<open>Dispatch\<close>

text \<open>The switch has five cases; every other type is logged as unknown.\<close>

definition orch_process_event :: "env \<Rightarrow> event \<Rightarrow> orch \<Rightarrow> orch lock_outcome" where
  "orch_process_event e ev s =
     (let (fd, m) = ev; s = s\<lparr>oc_events_processed := oc_events_processed s + 1\<rparr> in
      case msg_type m of
        CLIENT_REQUEST \<Rightarrow> Done (handle_client_request e fd m s)
      | RDMA_PROCESS_REGISTRATION \<Rightarrow> handle_process_rdma_registration e fd m s
      | RDMA_READY \<Rightarrow> handle_ready e fd m s
      | REQUEST_FAILED \<Rightarrow> Done (handle_request_failed e fd m s)
      | PREFILL_COMPLETE_ORCHESTRATOR \<Rightarrow> Done (handle_prefill_complete_orchestrator e fd m s)
      | _ \<Rightarrow> Done s)"

text \<open>
  A worker thread's loop over the events it pops until the pool stops running; a handler that asks for a mutex it holds does not
  come back.
\<close>

fun worker_loop :: "(nat \<Rightarrow> env) \<Rightarrow> event list \<Rightarrow> orch \<Rightarrow> orch lock_outcome" where
  "worker_loop es [] s = Done s"
| "worker_loop es (ev # evs) s =
     (case orch_process_event (es 0) ev s of
        Relocked \<Rightarrow> Relocked
      | Done s' \<Rightarrow> worker_loop (\<lambda>i. es (Suc i)) evs s')"

section \<open>Engine\<close>

text \<open>The router is built with the default slot configuration, whatever the configuration file says.\<close>

definition new_orch :: "config \<Rightarrow> int \<Rightarrow> orch" where
  "new_orch c epoll_fd = \<lparr>oc_config = c, oc_node_id = cf_node_id c, oc_registry = new_registry,
     oc_router = new_router LEAST_LOADED default_slot_config, oc_tracker = [],
     oc_exchange = new_exchange (cf_expected_prefill_nodes c) (cf_expected_decode_nodes c),
     oc_epoll = \<lparr>ew_running = False, ew_epoll_fd = epoll_fd, ew_connections = [],
       ew_queue = new_event_queue (unat (cf_orchestrator_event_queue_size c)), ew_trace = []\<rparr>,
     oc_state = STARTING, oc_events_processed = 0\<rparr>"

record engine =
  eg_orch :: orch
  eg_running :: bool
  eg_pool_running :: bool
  eg_client_fd :: int
  eg_server_fd :: int

text \<open>What the system calls of \<open>start\<close> answer: the descriptors of the two bound sockets (\<open>None\<close> for a failure
  of \<open>bind\<close>), whether \<open>listen\<close> succeeds, and the answers \<open>orch_worker_start\<close> needs.\<close>

record start_calls =
  sy_bind_client :: "int option"
  sy_listen_client :: bool
  sy_bind_server :: "int option"
  sy_listen_server :: bool
  sy_epoll_fd :: int
  sy_nonblock_client :: bool
  sy_ctl_client :: bool
  sy_nonblock_server :: bool
  sy_ctl_server :: bool

definition engine_start :: "start_calls \<Rightarrow> engine \<Rightarrow> bool \<times> engine" where
  "engine_start c g =
     (case sy_bind_client c of
        None \<Rightarrow> (False, g\<lparr>eg_client_fd := -1\<rparr>)
      | Some cfd \<Rightarrow>
          (let g = g\<lparr>eg_client_fd := cfd\<rparr> in
           if \<not> sy_listen_client c then (False, g)
           else case sy_bind_server c of
             None \<Rightarrow> (False, g\<lparr>eg_server_fd := -1\<rparr>)
           | Some sfd \<Rightarrow>
               (let g = g\<lparr>eg_server_fd := sfd\<rparr> in
                if \<not> sy_listen_server c then (False, g)
                else
                  let s = eg_orch g;
                      w = orch_worker_start (sy_epoll_fd c) (sy_nonblock_client c) (sy_ctl_client c)
                            (sy_nonblock_server c) (sy_ctl_server c) cfd sfd (oc_epoll s)
                  in (True, g\<lparr>eg_orch := s\<lparr>oc_epoll := w, oc_state := WAITING_FOR_NODES\<rparr>,
                        eg_pool_running := True, eg_running := True\<rparr>))))"

definition engine_shutdown :: "engine \<Rightarrow> engine" where
  "engine_shutdown g =
     (if \<not> eg_running g then g
      else
        let s = eg_orch g; w = stop_worker (oc_epoll s);
            w = (if eg_pool_running g then w\<lparr>ew_queue := eq_wake_all (ew_queue w)\<rparr> else w)
        in g\<lparr>eg_orch := s\<lparr>oc_state := STOPPED, oc_epoll := w\<rparr>, eg_pool_running := False,
             eg_running := False, eg_client_fd := -1, eg_server_fd := -1\<rparr>)"

section \<open>Invariant over all events\<close>

definition orch_inv :: "orch \<Rightarrow> bool" where
  "orch_inv s \<longleftrightarrow> registry_inv (oc_registry s) \<and> rt_inv (oc_router s) \<and> xt_inv (oc_exchange s)
     \<and> rt_slot_config (oc_router s) = default_slot_config"

definition env_ok :: "env \<Rightarrow> orch \<Rightarrow> bool" where
  "env_ok e s \<longleftrightarrow> draws_ok (en_draw e) \<and> length (nr_nodes (oc_registry s)) < 2 ^ 64"

lemma orch_sel [simp]:
  "oc_registry (send_to fd m s) = oc_registry s" "oc_router (send_to fd m s) = oc_router s"
  "oc_exchange (send_to fd m s) = oc_exchange s" "oc_tracker (send_to fd m s) = oc_tracker s"
  "oc_config (send_to fd m s) = oc_config s" "oc_state (send_to fd m s) = oc_state s"
  "oc_registry (on_router f s) = oc_registry s" "oc_router (on_router f s) = f (oc_router s)"
  "oc_exchange (on_router f s) = oc_exchange s" "oc_tracker (on_router f s) = oc_tracker s"
  "oc_epoll (on_router f s) = oc_epoll s" "oc_config (on_router f s) = oc_config s" "oc_state (on_router f s) = oc_state s"
  "oc_registry (on_tracker g s) = oc_registry s" "oc_router (on_tracker g s) = oc_router s"
  "oc_exchange (on_tracker g s) = oc_exchange s" "oc_tracker (on_tracker g s) = g (oc_tracker s)"
  "oc_epoll (on_tracker g s) = oc_epoll s" "oc_config (on_tracker g s) = oc_config s" "oc_state (on_tracker g s) = oc_state s"
  "oc_epoll (send_to fd m s) = enqueue_response fd m (oc_epoll s)"
  by (simp_all add: send_to_def on_router_def on_tracker_def)

lemma reply_sel [simp]:
  "oc_registry (reply_to_client rid m s) = oc_registry s" "oc_router (reply_to_client rid m s) = oc_router s"
  "oc_exchange (reply_to_client rid m s) = oc_exchange s" "oc_tracker (reply_to_client rid m s) = oc_tracker s"
  by (simp_all add: reply_to_client_def split: option.split)

lemma broadcast_sel [simp]:
  "oc_registry (broadcast m ns s) = oc_registry s" "oc_router (broadcast m ns s) = oc_router s"
  "oc_exchange (broadcast m ns s) = oc_exchange s" "oc_tracker (broadcast m ns s) = oc_tracker s"
  by (induction ns arbitrary: s) (simp_all add: broadcast_def split: option.split)

lemma release_sel [simp]:
  "oc_registry (release_request r s) = oc_registry s" "oc_exchange (release_request r s) = oc_exchange s"
  "oc_tracker (release_request r s) = oc_tracker s" "oc_epoll (release_request r s) = oc_epoll s"
  "oc_config (release_request r s) = oc_config s"
  "oc_router (release_request r s) = decrement_node_load (ri_decode_node_id r)
     (decrement_node_load (ri_prefill_node_id r) (free_slot (ri_request_id r) (oc_router s)))"
  by (simp_all add: release_request_def)

lemma orch_inv_select:
  "orch_inv s \<Longrightarrow> env_ok e s \<Longrightarrow> select_nodes_and_allocate_slot (en_draw e) (oc_registry s) rid (oc_router s) = (res, rt)
   \<Longrightarrow> rt_inv rt \<and> rt_slot_config rt = default_slot_config"
  using rt_inv_select [of "oc_router s" "oc_registry s" "en_draw e" rid]
    select_config [of "en_draw e" "oc_registry s" rid "oc_router s"]
  by (auto simp: orch_inv_def env_ok_def)

lemma orch_inv_irrelevant [simp]:
  "orch_inv (on_tracker g s) = orch_inv s" "orch_inv (send_to fd m s) = orch_inv s"
  "orch_inv (reply_to_client rid m s) = orch_inv s" "orch_inv (broadcast m ns s) = orch_inv s"
  "orch_inv (s\<lparr>oc_state := st\<rparr>) = orch_inv s" "orch_inv (s\<lparr>oc_events_processed := n\<rparr>) = orch_inv s"
  by (simp_all add: orch_inv_def)

lemma orch_inv_router:
  "orch_inv s \<Longrightarrow> orch_inv (on_router (free_slot rid) s)"
  "orch_inv s \<Longrightarrow> orch_inv (on_router (increment_node_load nid) s)"
  "orch_inv s \<Longrightarrow> orch_inv (on_router (decrement_node_load nid) s)"
  by (simp_all add: orch_inv_def rt_inv_free rt_inv_loads)

lemma orch_inv_client:
  assumes "orch_inv s" "env_ok e s" shows "orch_inv (handle_client_request e fd m s)"
proof -
  obtain res rt where r: "select_nodes_and_allocate_slot (en_draw e) (oc_registry s)
      (ri_request_id (msg_request_info m)) (oc_router s) = (res, rt)" by fastforce
  have "orch_inv (s\<lparr>oc_router := rt\<rparr>)"
    using orch_inv_select [OF assms r] assms(1) by (simp add: orch_inv_def)
  then show ?thesis
    by (simp add: handle_client_request_def r Let_def orch_inv_router split: option.split)
qed

lemma orch_inv_release: "orch_inv s \<Longrightarrow> orch_inv (release_request r s)"
  by (simp add: release_request_def orch_inv_router)

lemma orch_inv_failed: "orch_inv s \<Longrightarrow> orch_inv (handle_request_failed e fd m s)"
  by (simp add: handle_request_failed_def Let_def orch_inv_release)

lemma orch_inv_prefill: "orch_inv s \<Longrightarrow> orch_inv (handle_prefill_complete_orchestrator e fd m s)"
  by (simp add: handle_prefill_complete_orchestrator_def Let_def orch_inv_release split: option.split)

lemma orch_inv_registration:
  assumes "orch_inv s" "handle_process_rdma_registration e fd m s = Done s'"
  shows "orch_inv s'"
proof -
  let ?n = "msg_node_info m"
  obtain b x where x: "xt_register_node (ni_node_id ?n) (ni_role ?n) (oc_exchange s) = Done (b, x)"
    using assms(2) by (auto simp: handle_process_rdma_registration_def Let_def split: lock_outcome.splits)
  let ?s = "s\<lparr>oc_registry := add_node_fd (ni_node_id ?n) fd (add_node ?n (oc_registry s)), oc_exchange := x\<rparr>"
  have "orch_inv ?s" using assms(1) xt_inv_register [OF _ x] by (simp add: orch_inv_def)
  then show ?thesis
    using assms(2) x by (auto simp: handle_process_rdma_registration_def Let_def split: if_splits)
qed

lemma orch_inv_ready:
  assumes "orch_inv s" "handle_ready e fd m s = Done s'" shows "orch_inv s'"
proof -
  obtain b x where x: "mark_node_ready (msg_source_node_id m) (oc_exchange s) = Done (b, x)"
    using assms(2) by (auto simp: handle_ready_def split: lock_outcome.splits)
  have "orch_inv (s\<lparr>oc_exchange := x\<rparr>)" using assms(1) xt_inv_ready [OF _ x] by (simp add: orch_inv_def)
  then show ?thesis using assms(2) x by (auto simp: handle_ready_def Let_def split: if_splits)
qed

lemma env_ok_events [simp]: "env_ok e (s\<lparr>oc_events_processed := n\<rparr>) = env_ok e s"
  by (simp add: env_ok_def)

lemma orch_inv_event:
  assumes "orch_inv s" "env_ok e s" "orch_process_event e ev s = Done s'"
  shows "orch_inv s'"
proof -
  let ?s = "s\<lparr>oc_events_processed := oc_events_processed s + 1\<rparr>"
  have s: "orch_inv ?s" "env_ok e ?s" using assms(1,2) by simp_all
  show ?thesis
    using assms(3) orch_inv_client [OF s] orch_inv_registration [OF s(1)] orch_inv_ready [OF s(1)]
      orch_inv_failed [OF s(1)] orch_inv_prefill [OF s(1)] s(1)
    by (cases ev, cases "msg_type (snd ev)") (auto simp: orch_process_event_def Let_def)
qed

inductive orch_reach :: "config \<Rightarrow> orch \<Rightarrow> bool" for c where
  orch_start: "orch_reach c (new_orch c epoll_fd)"
| orch_event: "orch_reach c s \<Longrightarrow> env_ok e s \<Longrightarrow> orch_process_event e ev s = Done s' \<Longrightarrow> orch_reach c s'"
| orch_io: "orch_reach c s \<Longrightarrow> orch_reach c (s\<lparr>oc_epoll := w\<rparr>)"

lemma orch_reach_inv: "orch_reach c s \<Longrightarrow> orch_inv s"
proof (induction rule: orch_reach.induct)
  case (orch_start epoll_fd)
  show ?case by (simp add: orch_inv_def new_orch_def rt_inv_new xt_inv_def new_exchange_def)
    (simp add: new_router_def)
next
  case (orch_event s e ev s')
  then show ?case by (blast intro: orch_inv_event)
next
  case (orch_io s w)
  then show ?case by (simp add: orch_inv_def)
qed

definition sample_config :: config where
  "sample_config = \<lparr>cf_node_id = ''orch'', cf_client_socket_port = 9000, cf_server_socket_port = 9001,
     cf_hostname = ''h'', cf_replication_factor = 3, cf_vnodes_number = 1, cf_number_of_keys_hashtable = 10,
     cf_size_local_buffer = 1024, cf_client_event_queue_size = 1000, cf_worker_pool_size = 4,
     cf_orchestrator_host = ''h'', cf_orchestrator_port = 9001, cf_orchestrator_id = ''orch'',
     cf_vllm_port = 8000, cf_model_name = [], cf_num_layers = 12, cf_role = ''orchestrator'',
     cf_orchestrator_event_queue_size = 1000, cf_expected_decode_nodes = 2, cf_expected_prefill_nodes = 1,
     cf_prefill_nodes = [], cf_decode_nodes = [], cf_peers = [], cf_use_gpu = True,
     cf_rdma = default_rdma_config, cf_memory = default_memory_config,
     cf_gpu = \<lparr>gc_gpu_ids = [], gc_enable_peer_access = True, gc_require_same_numa = False\<rparr>\<rparr>"

definition sample_env :: env where
  "sample_env = \<lparr>en_ns = (\<lambda>k. 1000 + word_of_nat k), en_ms = (\<lambda>k. 1), en_message = sample_message,
     en_request = sample_request, en_draw = (\<lambda>_ _. 0)\<rparr>"

text \<open>An orchestrator whose three nodes have registered over the descriptors 21, 22 and 23.\<close>

definition sample_orch :: orch where
  "sample_orch = (new_orch sample_config 3)\<lparr>oc_registry :=
     add_node_fd ''p0'' 21 (add_node_fd ''d0'' 22 (add_node_fd ''d1'' 23 sample_registry)),
     oc_router := sample_router\<rparr>"

lemma sample_orch_ok: "orch_inv sample_orch" "env_ok sample_env sample_orch"
  by (simp_all add: orch_inv_def sample_orch_def new_orch_def xt_inv_def new_exchange_def env_ok_def sample_env_def)
    (simp_all add: add_node_fd_def sample_router_simps)

section \<open>Properties\<close>

lemma slots_of_pool:
  assumes "pool.inv n a"
  shows "distinct (sa_free_slots a) \<and> set (sa_free_slots a) \<inter> dom (map_of (sa_slot_to_request a)) = {}
    \<and> set (sa_free_slots a) \<union> dom (map_of (sa_slot_to_request a)) = {0..<n}
    \<and> inj_on (map_of (sa_request_to_slot a)) (dom (map_of (sa_request_to_slot a)))"
proof -
  have "inj_on (map_of (sa_request_to_slot a)) (dom (map_of (sa_request_to_slot a)))"
    using pool.exclusive [OF assms] by (intro inj_onI) (metis domD)
  then show ?thesis using assms unfolding pool.inv_def by blast
qed

text \<open>C30 In every state the orchestrator can reach, by any events from clients and nodes in any order: each node is
  registered under its own id, the slots of every decode node are split between free and held ones with no slot
  held twice, and no load counter is negative.\<close>

theorem orchestrator_invariant:
  assumes "orch_reach c s"
  shows "(\<forall>nid n. get_node nid (oc_registry s) = Some n \<longrightarrow> ni_node_id n = nid)
    \<and> (\<forall>nid a. find_allocator (oc_router s) nid = Some a \<longrightarrow>
         distinct (sa_free_slots a) \<and> set (sa_free_slots a) \<inter> dom (map_of (sa_slot_to_request a)) = {}
         \<and> set (sa_free_slots a) \<union> dom (map_of (sa_slot_to_request a)) = {0..<8}
         \<and> inj_on (map_of (sa_request_to_slot a)) (dom (map_of (sa_request_to_slot a))))
    \<and> (\<forall>nid. 0 \<le> get_node_load nid (oc_router s))"
proof -
  have inv: "orch_inv s" using orch_reach_inv [OF assms] .
  have alloc: "pool.inv 8 a" if "find_allocator (oc_router s) nid = Some a" for nid a
    using inv rt_inv_D [OF _ that] by (auto simp: orch_inv_def allocator_inv_def default_slot_config_def)
  have "\<forall>nid n. get_node nid (oc_registry s) = Some n \<longrightarrow> ni_node_id n = nid"
    using inv by (simp add: orch_inv_def registry_inv_def get_node_def)
  moreover have "\<forall>nid. 0 \<le> get_node_load nid (oc_router s)"
    using inv by (simp add: orch_inv_def rt_inv_def)
  ultimately show ?thesis using slots_of_pool [OF alloc] by blast
qed

theorem orchestrator_invariant_witness:
  "\<exists>s. orch_process_event sample_env (9, sample_message\<lparr>msg_type := CLIENT_REQUEST\<rparr>) (new_orch sample_config 3) = Done s
     \<and> 0 \<le> get_node_load ''d0'' (oc_router s)"
proof -
  have ok: "env_ok sample_env (new_orch sample_config 3)"
    by (simp add: env_ok_def sample_env_def new_orch_def new_registry_def)
  obtain s where s: "orch_process_event sample_env (9, sample_message\<lparr>msg_type := CLIENT_REQUEST\<rparr>) (new_orch sample_config 3) = Done s"
    by (simp add: orch_process_event_def Let_def)
  show ?thesis using orchestrator_invariant [OF orch_event [OF orch_start ok s]] s by blast
qed

text \<open>A \<open>DECODE_COMPLETE\<close> from a decode node is dropped as an unknown type: apart from the event counter nothing
  changes. The request keeps its status and its slot, the loads stay up, and the client gets no reply.\<close>

theorem decode_complete_ignored:
  "orch_process_event e (fd, m\<lparr>msg_type := DECODE_COMPLETE\<rparr>) s
     = Done (s\<lparr>oc_events_processed := oc_events_processed s + 1\<rparr>)"
  by (simp add: orch_process_event_def)

lemma client_available:
  assumes "orch_inv s" "env_ok e s"
  shows "get_available_slots n (oc_router (handle_client_request e fd m s)) \<le> get_available_slots n (oc_router s)"
proof -
  let ?rid = "ri_request_id (msg_request_info m)"
  obtain res rt where r: "select_nodes_and_allocate_slot (en_draw e) (oc_registry s) ?rid (oc_router s) = (res, rt)"
    by fastforce
  have pre: "rt_inv (oc_router s)" "length (nr_nodes (oc_registry s)) < 2 ^ 64" "draws_ok (en_draw e)"
    "0 \<le> sc_max_slots_per_node (rt_slot_config (oc_router s))"
    using assms by (simp_all add: orch_inv_def env_ok_def default_slot_config_def)
  show ?thesis
  proof (cases res)
    case None
    then show ?thesis
      using select_available(1) [OF r pre None] by (simp add: handle_client_request_def r Let_def)
  next
    case (Some q)
    note sel = select_available(2) [OF r pre Some]
    have "get_available_slots n (free_slot ?rid rt) = get_available_slots n (oc_router s)"
      using free_slot_held(1) [of ?rid rt "ni_node_id (rr_decode_node q)" "rr_slot_id q" n] sel [of n] by simp
    then show ?thesis
      using sel [of n] Some
      by (simp add: handle_client_request_def r Let_def routed_request_def split: option.split)
  qed
qed

text \<open>Only failure gives slots back: an event of any type other than \<open>REQUEST_FAILED\<close> and
  \<open>PREFILL_COMPLETE_ORCHESTRATOR\<close> leaves every node with at most as many available slots as before. A request that
  succeeds keeps its slot for ever.\<close>

theorem only_failures_free_slots:
  assumes "orch_inv s" and "env_ok e s" and "orch_process_event e (fd, m) s = Done s'"
    and "msg_type m \<noteq> REQUEST_FAILED" and "msg_type m \<noteq> PREFILL_COMPLETE_ORCHESTRATOR"
  shows "get_available_slots n (oc_router s') \<le> get_available_slots n (oc_router s)"
proof -
  let ?s = "s\<lparr>oc_events_processed := oc_events_processed s + 1\<rparr>"
  have "oc_router s' = oc_router s \<or> s' = handle_client_request e fd m ?s"
    using assms(3-5)
    by (cases "msg_type m") (auto simp: orch_process_event_def handle_process_rdma_registration_def
        handle_ready_def Let_def split: lock_outcome.splits if_splits)
  then show ?thesis using client_available [of ?s e n fd m] assms(1,2) by auto
qed

theorem only_failures_free_slots_witness:
  "\<exists>s'. orch_process_event sample_env (9, sample_message\<lparr>msg_type := CLIENT_REQUEST\<rparr>) sample_orch = Done s'
     \<and> get_available_slots ''d1'' (oc_router s') \<le> get_available_slots ''d1'' (oc_router sample_orch)"
proof -
  obtain s' where s': "orch_process_event sample_env (9, sample_message\<lparr>msg_type := CLIENT_REQUEST\<rparr>) sample_orch = Done s'"
    by (simp add: orch_process_event_def Let_def)
  show ?thesis using only_failures_free_slots [OF sample_orch_ok s'] s' by simp
qed

end
