(* ===== verification/OrchestratorProps.thy ===== *)
theory OrchestratorProps
  imports Orchestrator
begin

text \<open>
  What the orchestrator's handlers do to a request: admission, refusal, release after a failure, the membership
  broadcast, and the states in which a slot or a reply is lost. The model is in \<open>Orchestrator\<close>.
\<close>

section \<open>Output buffers\<close>

lemma pending_enqueue:
  "pending_for fd (enqueue_response fd' m w)
     = pending_for fd w @ (if fd = fd' \<and> find_conn w fd \<noteq> None then frame m else [])"
  by (auto simp: enqueue_response_def pending_for_def modify_epoll_def Let_def split: option.split)

lemma find_conn_enqueue [simp]:
  "find_conn (enqueue_response fd' m w) fd = None \<longleftrightarrow> find_conn w fd = None"
  "(\<exists>st. find_conn (enqueue_response fd' m w) fd = Some st) \<longleftrightarrow> (\<exists>st. find_conn w fd = Some st)"
  by (auto simp: enqueue_response_def modify_epoll_def Let_def split: option.split)

section \<open>Admission and refusal\<close>

text \<open>A client request is refused exactly for lack of a healthy prefill node or of a free slot on every healthy
  decode node: then the client is sent the capacity error, nothing is tracked and no slot or load changes.
  In every other case the request becomes tracked as pending.\<close>

theorem client_request_refused_iff:
  fixes e fd m s
  defines "rid \<equiv> ri_request_id (msg_request_info m)" and "s' \<equiv> handle_client_request e fd m s"
  assumes "orch_inv s" and "env_ok e s" and "\<And>n. get_node_load n (oc_router s) < INT_MAX"
  shows "if get_healthy_nodes PREFILL (oc_registry s) = []
           \<or> (\<forall>n \<in> set (get_healthy_nodes DECODE (oc_registry s)). get_available_slots (ni_node_id n) (oc_router s) \<le> 0)
    then oc_epoll s' = enqueue_response fd (create_error (en_ns e 1) (en_message e) capacity_error) (oc_epoll s)
      \<and> oc_tracker s' = oc_tracker s
      \<and> (\<forall>n. get_available_slots n (oc_router s') = get_available_slots n (oc_router s))
    else get_status rid (oc_tracker s') = Some PENDING"
proof -
  obtain res rt where r: "select_nodes_and_allocate_slot (en_draw e) (oc_registry s) rid (oc_router s) = (res, rt)"
    by fastforce
  have pre: "rt_inv (oc_router s)" "length (nr_nodes (oc_registry s)) < 2 ^ 64" "draws_ok (en_draw e)"
    "0 \<le> sc_max_slots_per_node (rt_slot_config (oc_router s))"
    using assms by (simp_all add: orch_inv_def env_ok_def default_slot_config_def)
  note fails = select_nodes_fails_iff [OF pre(1-3) assms(5), of rid, unfolded r fst_conv, symmetric]
  show ?thesis
  proof (cases res)
    case None
    then show ?thesis unfolding fails
      using select_available(1) [OF r pre None]
      by (simp add: s'_def handle_client_request_def r [unfolded rid_def] Let_def)
  next
    case (Some q)
    then show ?thesis unfolding fails
      by (simp add: s'_def rid_def handle_client_request_def r [unfolded rid_def] Let_def routed_request_def
          split: option.split)
  qed
qed

lemma sample_orch_load: "get_node_load n (oc_router sample_orch) < INT_MAX"
  by (simp add: sample_orch_def sample_router_simps INT_MAX_def)

theorem client_request_refused_iff_witness:
  "get_status ''req-1'' (oc_tracker (handle_client_request sample_env 9 sample_message sample_orch)) = Some PENDING"
proof -
  have "ri_request_id (msg_request_info sample_message) = ''req-1''" by (simp add: sample_message_def sample_request_def)
  moreover have "get_healthy_nodes PREFILL (oc_registry sample_orch) \<noteq> []"
    "\<exists>n \<in> set (get_healthy_nodes DECODE (oc_registry sample_orch)). \<not> get_available_slots (ni_node_id n) (oc_router sample_orch) \<le> 0"
    by (simp_all add: sample_orch_def sample_router_simps add_node_fd_def get_available_slots_def find_allocator_def)
      blast
  ultimately show ?thesis
    using client_request_refused_iff [OF sample_orch_ok sample_orch_load, of 9 sample_message] by (auto split: if_splits)
qed

text \<open>Admission: with both connections known, the handler tracks the request, charges one slot of the chosen decode node
  and nothing else, raises both loads by one, and queues exactly two messages, the decode node's
  preparation before the prefill node's assignment, both with the slot that was allocated.\<close>

theorem client_request_admitted:
  fixes e fd m s
  defines "r \<equiv> msg_request_info m" and "s' \<equiv> handle_client_request e fd m s"
  assumes "orch_inv s" and "env_ok e s"
    and "select_nodes_and_allocate_slot (en_draw e) (oc_registry s) (ri_request_id r) (oc_router s) = (Some res, rt)"
  defines "p \<equiv> ni_node_id (rr_prefill_node res)" and "d \<equiv> ni_node_id (rr_decode_node res)"
    and "info \<equiv> routed_request e r res"
  assumes "get_node_fd p (oc_registry s) = Some pfd" and "get_node_fd d (oc_registry s) = Some dfd"
  shows "oc_epoll s' = enqueue_response pfd (create_assign_request (en_ns e 1) (en_message e) (orchestrator_id s) info)
      (enqueue_response dfd (create_prepare_decode_slot (en_ns e 2) (en_message e) (orchestrator_id s) info) (oc_epoll s))
    \<and> get_request (ri_request_id r) (oc_tracker s') = Some info
    \<and> get_client_fd (ri_request_id r) (oc_tracker s') = Some fd
    \<and> held_slot (ri_request_id r) (oc_router s') = Some (d, rr_slot_id res)
    \<and> (\<forall>n. get_available_slots n (oc_router s') = get_available_slots n (oc_router s) - (if n = d then 1 else 0)
         \<and> get_node_load n (oc_router s') = get_node_load n (oc_router s) + (if n = p then 1 else 0) + (if n = d then 1 else 0))"
proof -
  have pre: "rt_inv (oc_router s)" "length (nr_nodes (oc_registry s)) < 2 ^ 64" "draws_ok (en_draw e)"
    "0 \<le> sc_max_slots_per_node (rt_slot_config (oc_router s))"
    using assms(3,4) by (simp_all add: orch_inv_def env_ok_def default_slot_config_def)
  have sel: "get_available_slots n rt = get_available_slots n (oc_router s) - (if n = d then 1 else 0)"
    "held_slot (ri_request_id r) rt = Some (d, rr_slot_id res)" "get_node_load n rt = get_node_load n (oc_router s)" for n
    using select_available(2) [OF assms(5) pre refl] select_loads [OF assms(5)] by (simp_all add: d_def)
  have s': "s' = on_router (increment_node_load d) (on_router (increment_node_load p)
      (send_to pfd (create_assign_request (en_ns e 1) (en_message e) (orchestrator_id s) info)
        (send_to dfd (create_prepare_decode_slot (en_ns e 2) (en_message e) (orchestrator_id s) info)
          (on_tracker (track_request info fd) (s\<lparr>oc_router := rt\<rparr>)))))"
    using assms(9,10) assms(5)
    by (simp add: s'_def handle_client_request_def Let_def r_def info_def p_def d_def)
  show ?thesis
    by (simp add: s' sel get_request_def get_client_fd_def track_request_def held_slot_loads)
      (simp add: info_def routed_request_def new_request_info_def r_def)
qed

theorem client_request_admitted_witness:
  "\<exists>d. held_slot ''req-1'' (oc_router (handle_client_request sample_env 9 sample_message sample_orch)) = Some (d, 0)"
proof -
  let ?r = "msg_request_info sample_message"
  have rid: "ri_request_id ?r = ''req-1''" by (simp add: sample_message_def sample_request_def)
  obtain res rt where sel: "select_nodes_and_allocate_slot (\<lambda>_ _. 0) sample_registry ''req-1'' sample_router = (Some res, rt)"
    and ids: "ni_node_id (rr_prefill_node res) = ''p0''" "ni_node_id (rr_decode_node res) = ''d1''" "rr_slot_id res = 0"
    using sample_select [of "''req-1''"] by blast
  have "select_nodes_and_allocate_slot (en_draw sample_env) (oc_registry sample_orch) (ri_request_id ?r)
      (oc_router sample_orch) = (Some res, rt)"
    using sel by (simp add: rid sample_env_def sample_orch_def select_nodes_fds)
  moreover have "get_node_fd (ni_node_id (rr_prefill_node res)) (oc_registry sample_orch) = Some 21"
    "get_node_fd (ni_node_id (rr_decode_node res)) (oc_registry sample_orch) = Some 23"
    by (simp_all add: ids sample_orch_def)
  ultimately show ?thesis
    using client_request_admitted [OF sample_orch_ok, of sample_message res rt 21 23 9] by (auto simp: rid ids)
qed

section \<open>Release\<close>

text \<open>A reported failure releases everything the request held: its slot goes back to its decode node, both loads fall by
  one (never below zero), the tracker shows it as failed, and the waiting client gets the failure message.\<close>

theorem request_failed_releases:
  fixes m
  defines "r \<equiv> msg_request_info m"
  assumes "orch_inv s" and "msg_type m = REQUEST_FAILED" and "orch_process_event e (fd, m) s = Done s'"
    and "held_slot (ri_request_id r) (oc_router s) = Some (nid, k)"
    and "get_client_fd (ri_request_id r) (oc_tracker s) = Some cfd" and "find_conn (oc_epoll s) cfd \<noteq> None"
    and "ri_prefill_node_id r \<noteq> ri_decode_node_id r"
  shows "get_available_slots nid (oc_router s') = get_available_slots nid (oc_router s) + 1
    \<and> (\<exists>a. find_allocator (oc_router s') nid = Some a \<and> k \<in> set (sa_free_slots a))
    \<and> (\<forall>n \<in> {ri_prefill_node_id r, ri_decode_node_id r}.
         get_node_load n (oc_router s') = max 0 (get_node_load n (oc_router s) - 1))
    \<and> get_status (ri_request_id r) (oc_tracker s') = Some FAILED
    \<and> pending_for cfd (oc_epoll s') = pending_for cfd (oc_epoll s)
        @ frame (create_request_failed (en_ns e 0) (en_message e) (orchestrator_id s) r (msg_error_message m))"
proof -
  have load: "0 \<le> get_node_load n (oc_router s)" for n using assms(2) by (simp add: orch_inv_def rt_inv_def)
  have tracked: "\<exists>t. get_status (ri_request_id r) (oc_tracker s) = Some t"
    using assms(6) by (auto simp: get_status_def get_client_fd_def)
  have s': "s' = handle_request_failed e fd m (s\<lparr>oc_events_processed := oc_events_processed s + 1\<rparr>)"
    using assms(3,4) by (simp add: orch_process_event_def)
  have rt: "oc_router s' = decrement_node_load (ri_decode_node_id r)
      (decrement_node_load (ri_prefill_node_id r) (free_slot (ri_request_id r) (oc_router s)))"
    by (simp add: s' handle_request_failed_def Let_def r_def)
  have ot: "oc_tracker s' = update_status (en_ms e 0) (ri_request_id r) FAILED (oc_tracker s)"
    by (simp add: s' handle_request_failed_def Let_def r_def)
  have ep: "oc_epoll s' = enqueue_response cfd
      (create_request_failed (en_ns e 0) (en_message e) (orchestrator_id s) r (msg_error_message m)) (oc_epoll s)"
    using assms(6) by (simp add: s' handle_request_failed_def Let_def r_def reply_to_client_def release_request_def)
  show ?thesis
    using free_slot_held(1,2) [OF assms(5)] tracked assms(7,8) load
    by (auto simp: rt ot ep pending_enqueue node_load_decrement find_allocator_loads)
qed

text \<open>The sample orchestrator with a client on descriptor 9, after it has served that client's request.\<close>

definition sample_served :: orch where
  "sample_served = handle_client_request sample_env 9 sample_message
     (sample_orch\<lparr>oc_epoll := put_conn 9 new_conn_state (oc_epoll sample_orch)\<rparr>)"

lemma sample_served_facts:
  "orch_inv sample_served" "held_slot ''req-1'' (oc_router sample_served) = Some (''d1'', 0)"
  "get_client_fd ''req-1'' (oc_tracker sample_served) = Some 9" "find_conn (oc_epoll sample_served) 9 \<noteq> None"
proof -
  let ?s = "sample_orch\<lparr>oc_epoll := put_conn 9 new_conn_state (oc_epoll sample_orch)\<rparr>"
  have ok: "orch_inv ?s" "env_ok sample_env ?s" using sample_orch_ok by (simp_all add: orch_inv_def env_ok_def)
  show "orch_inv sample_served" unfolding sample_served_def by (rule orch_inv_client [OF ok])
  have rid: "ri_request_id (msg_request_info sample_message) = ''req-1''" by (simp add: sample_message_def sample_request_def)
  obtain res rt where sel: "select_nodes_and_allocate_slot (\<lambda>_ _. 0) sample_registry ''req-1'' sample_router = (Some res, rt)"
    and ids: "ni_node_id (rr_prefill_node res) = ''p0''" "ni_node_id (rr_decode_node res) = ''d1''" "rr_slot_id res = 0"
    using sample_select [of "''req-1''"] by blast
  have sel': "select_nodes_and_allocate_slot (en_draw sample_env) (oc_registry ?s) ''req-1'' (oc_router ?s) = (Some res, rt)"
    using sel by (simp add: sample_env_def sample_orch_def)
  have fds: "get_node_fd ''p0'' (oc_registry ?s) = Some 21" "get_node_fd ''d1'' (oc_registry ?s) = Some 23"
    by (simp_all add: sample_orch_def)
  have held: "held_slot ''req-1'' rt = Some (''d1'', 0)"
    using select_available(2) [OF sel sample_router_inv(1,3) draw_zero sample_router_slots refl] ids by simp
  show "held_slot ''req-1'' (oc_router sample_served) = Some (''d1'', 0)"
    "get_client_fd ''req-1'' (oc_tracker sample_served) = Some 9" "find_conn (oc_epoll sample_served) 9 \<noteq> None"
    using sel' fds held ids
    by (simp_all add: sample_served_def handle_client_request_def rid Let_def routed_request_def)
qed

lemma sample_served_registry: "oc_registry sample_served = oc_registry sample_orch"
  by (simp add: sample_served_def handle_client_request_def Let_def split: prod.split option.split)

theorem request_failed_releases_witness:
  "\<exists>s'. orch_process_event sample_env (21, sample_message\<lparr>msg_type := REQUEST_FAILED, msg_request_info :=
       sample_request\<lparr>ri_prefill_node_id := ''p0'', ri_decode_node_id := ''d1''\<rparr>\<rparr>) sample_served = Done s'
     \<and> get_available_slots ''d1'' (oc_router s') = get_available_slots ''d1'' (oc_router sample_served) + 1"
proof -
  let ?m = "sample_message\<lparr>msg_type := REQUEST_FAILED, msg_request_info :=
       sample_request\<lparr>ri_prefill_node_id := ''p0'', ri_decode_node_id := ''d1''\<rparr>\<rparr>"
  obtain s' where s': "orch_process_event sample_env (21, ?m) sample_served = Done s'"
    by (simp add: orch_process_event_def)
  have rid: "ri_request_id (msg_request_info ?m) = ''req-1''" by (simp add: sample_request_def)
  show ?thesis
    using request_failed_releases [OF sample_served_facts(1) _ s', unfolded rid, OF _ sample_served_facts(2-4)] s'
    by simp
qed

text \<open>A prefill completion moves the request on: with the decode node connected, its status becomes decoding, exactly one message
  goes out, to that node, and slots and loads stay; otherwise the request ends as failed and the slot it
  holds is given back.\<close>

theorem prefill_complete_outcome:
  fixes e fd m s
  defines "r \<equiv> msg_request_info m" and "s' \<equiv> handle_prefill_complete_orchestrator e fd m s"
  assumes "held_slot (ri_request_id r) (oc_router s) = Some (nid, k)"
  shows "case get_node_fd (ri_decode_node_id r) (oc_registry s) of
      Some dfd \<Rightarrow> get_status (ri_request_id r) (oc_tracker s') = map_option (\<lambda>_. DECODING) (get_status (ri_request_id r) (oc_tracker s))
        \<and> oc_epoll s' = enqueue_response dfd (prefill_complete (en_ns e 0) (en_message e) (orchestrator_id s) r) (oc_epoll s)
        \<and> oc_router s' = oc_router s
    | None \<Rightarrow> get_status (ri_request_id r) (oc_tracker s') = map_option (\<lambda>_. FAILED) (get_status (ri_request_id r) (oc_tracker s))
        \<and> held_slot (ri_request_id r) (oc_router s') = None
        \<and> get_available_slots nid (oc_router s') = get_available_slots nid (oc_router s) + 1"
  using free_slot_held(1,3) [OF assms(3)]
  by (simp add: s'_def r_def handle_prefill_complete_orchestrator_def Let_def option.map_comp comp_def split: option.split)

theorem prefill_complete_outcome_witness:
  "get_status ''req-1'' (oc_tracker (handle_prefill_complete_orchestrator sample_env 21
     (sample_message\<lparr>msg_request_info := sample_request\<lparr>ri_decode_node_id := ''gone''\<rparr>\<rparr>) sample_served)) = Some FAILED"
proof -
  let ?m = "sample_message\<lparr>msg_request_info := sample_request\<lparr>ri_decode_node_id := ''gone''\<rparr>\<rparr>"
  have rid: "ri_request_id (msg_request_info ?m) = ''req-1''" by (simp add: sample_request_def)
  have "get_node_fd ''gone'' (oc_registry sample_served) = None"
    by (simp add: sample_served_registry sample_orch_def sample_registry_def get_node_fd_def add_node_fd_def
        add_node_def new_registry_def)
  moreover obtain st where "get_status ''req-1'' (oc_tracker sample_served) = Some st"
    using sample_served_facts(3) by (auto simp: get_status_def get_client_fd_def)
  ultimately show ?thesis
    using prefill_complete_outcome [of ?m sample_served "''d1''" 0 sample_env 21, unfolded rid, OF sample_served_facts(2)]
    by simp
qed

section \<open>Requests and slots that are lost\<close>

text \<open>When the connection of the chosen decode node is unknown the slot is given back, but the request stays tracked as
  pending, nothing is queued for anybody, and so the client is never answered.\<close>

theorem missing_decode_connection:
  fixes e fd m s
  defines "rid \<equiv> ri_request_id (msg_request_info m)" and "s' \<equiv> handle_client_request e fd m s"
  assumes "orch_inv s" and "env_ok e s"
    and "select_nodes_and_allocate_slot (en_draw e) (oc_registry s) rid (oc_router s) = (Some res, rt)"
    and "get_node_fd (ni_node_id (rr_decode_node res)) (oc_registry s) = None"
  shows "oc_epoll s' = oc_epoll s \<and> get_status rid (oc_tracker s') = Some PENDING
    \<and> (\<forall>n. get_available_slots n (oc_router s') = get_available_slots n (oc_router s))"
proof -
  have pre: "rt_inv (oc_router s)" "length (nr_nodes (oc_registry s)) < 2 ^ 64" "draws_ok (en_draw e)"
    "0 \<le> sc_max_slots_per_node (rt_slot_config (oc_router s))"
    using assms(3,4) by (simp_all add: orch_inv_def env_ok_def default_slot_config_def)
  have sel: "get_available_slots n rt = get_available_slots n (oc_router s) - (if n = ni_node_id (rr_decode_node res) then 1 else 0)"
    "held_slot rid rt = Some (ni_node_id (rr_decode_node res), rr_slot_id res)" for n
    using select_available(2) [OF assms(5) pre refl] by simp_all
  have "get_available_slots n (free_slot rid rt) = get_available_slots n (oc_router s)" for n
    using free_slot_held(1) [OF sel(2), of n] sel(1) [of n] by simp
  then show ?thesis
    using assms(5,6) by (simp add: s'_def rid_def handle_client_request_def Let_def routed_request_def)
qed

theorem missing_decode_connection_witness:
  "get_status ''req-1'' (oc_tracker (handle_client_request sample_env 9 sample_message
     (sample_orch\<lparr>oc_registry := sample_registry\<rparr>))) = Some PENDING"
proof -
  let ?s = "sample_orch\<lparr>oc_registry := sample_registry\<rparr>"
  have ok: "orch_inv ?s" "env_ok sample_env ?s"
    using sample_orch_ok sample_router_inv by (simp_all add: orch_inv_def env_ok_def)
  have rid: "ri_request_id (msg_request_info sample_message) = ''req-1''" by (simp add: sample_message_def sample_request_def)
  obtain res rt where "select_nodes_and_allocate_slot (\<lambda>_ _. 0) sample_registry ''req-1'' sample_router = (Some res, rt)"
    using sample_select [of "''req-1''"] by blast
  then have "select_nodes_and_allocate_slot (en_draw sample_env) (oc_registry ?s)
      (ri_request_id (msg_request_info sample_message)) (oc_router ?s) = (Some res, rt)"
    by (simp add: rid sample_env_def sample_orch_def)
  moreover have "get_node_fd d (oc_registry ?s) = None" for d
    by (simp add: sample_registry_def get_node_fd_def add_node_def new_registry_def)
  ultimately show ?thesis using missing_decode_connection [OF ok, of sample_message res rt 9] by (simp add: rid)
qed

text \<open>A client that repeats a request id leaks a slot: the second admission overwrites the record of the first, so after the
  one release that id can still get, one slot fewer is free than before the first admission, the
  id holds none, and releasing it again changes nothing.\<close>

theorem duplicate_request_leaks_slot:
  assumes "rt_inv rt" and "length (nr_nodes reg) < 2 ^ 64" and "draws_ok draw" and "draws_ok draw'"
    and "0 \<le> sc_max_slots_per_node (rt_slot_config rt)"
    and "select_nodes_and_allocate_slot draw reg rid rt = (Some res1, rt1)"
    and "select_nodes_and_allocate_slot draw' reg rid rt1 = (Some res2, rt2)"
  defines "rt3 \<equiv> free_slot rid rt2"
  shows "get_available_slots n rt3
      = get_available_slots n rt - (if n = ni_node_id (rr_decode_node res1) then 1 else 0)"
    and "held_slot rid rt3 = None \<and> get_available_slots n (free_slot rid rt3) = get_available_slots n rt3"
proof -
  have 1: "get_available_slots n rt1 = get_available_slots n rt - (if n = ni_node_id (rr_decode_node res1) then 1 else 0)"
    using select_available(2) [OF assms(6,1,2,3,5) refl] by simp
  have inv: "rt_inv rt1" "0 \<le> sc_max_slots_per_node (rt_slot_config rt1)"
    using rt_inv_select [OF assms(1,2,3), of rid] select_config [of draw reg rid rt] assms(5,6) by simp_all
  have 2: "get_available_slots n rt2 = get_available_slots n rt1 - (if n = ni_node_id (rr_decode_node res2) then 1 else 0)"
    "held_slot rid rt2 = Some (ni_node_id (rr_decode_node res2), rr_slot_id res2)"
    using select_available(2) [OF assms(7) inv(1) assms(2,4) inv(2) refl] by simp_all
  show "get_available_slots n rt3
      = get_available_slots n rt - (if n = ni_node_id (rr_decode_node res1) then 1 else 0)"
    using free_slot_held(1) [OF 2(2)] 1 2(1) by (simp add: rt3_def)
  show "held_slot rid rt3 = None \<and> get_available_slots n (free_slot rid rt3) = get_available_slots n rt3"
    using free_slot_held(3) [OF 2(2)] free_slot_not_held by (simp add: rt3_def)
qed

theorem duplicate_request_leaks_slot_witness:
  "\<exists>rt. held_slot ''r1'' rt = None \<and> get_available_slots ''d1'' rt = get_available_slots ''d1'' sample_router - 1"
proof -
  obtain res1 rt1 where 1: "select_nodes_and_allocate_slot (\<lambda>_ _. 0) sample_registry ''r1'' sample_router = (Some res1, rt1)"
    and d: "ni_node_id (rr_decode_node res1) = ''d1''" using sample_select [of "''r1''"] by blast
  have inv: "rt_inv rt1" using rt_inv_select [OF sample_router_inv(1,3) draw_zero, of "''r1''"] 1 by simp
  have "get_available_slots ''d0'' rt1 = get_available_slots ''d0'' sample_router"
    using select_available(2) [OF 1 sample_router_inv(1,3) draw_zero sample_router_slots refl, of "''d0''"] d by simp
  then have "0 < get_available_slots ''d0'' rt1"
    by (simp add: get_available_slots_def find_allocator_def sample_router_simps)
  moreover have "sample_node\<lparr>ni_node_id := ''d0'', ni_role := DECODE\<rparr> \<in> set (get_healthy_nodes DECODE sample_registry)"
    by (simp add: sample_router_simps)
  moreover have "get_healthy_nodes PREFILL sample_registry \<noteq> []" by (simp add: sample_router_simps)
  moreover have "get_node_load n rt1 < INT_MAX" for n
    using select_loads [OF 1] by (simp add: sample_router_simps INT_MAX_def)
  ultimately have "fst (select_nodes_and_allocate_slot (\<lambda>_ _. 0) sample_registry ''r1'' rt1) \<noteq> None"
    using select_nodes_fails_iff [OF inv sample_router_inv(3) draw_zero, of "''r1''"] by force
  then obtain res2 rt2 where 2: "select_nodes_and_allocate_slot (\<lambda>_ _. 0) sample_registry ''r1'' rt1 = (Some res2, rt2)"
    by (metis option.exhaust prod.collapse)
  show ?thesis
    using duplicate_request_leaks_slot [OF sample_router_inv(1,3) draw_zero draw_zero sample_router_slots 1 2, of "''d1''"] d by auto
qed

section \<open>Membership\<close>

lemma pending_broadcast:
  "pending_for fd (oc_epoll (broadcast m ns s)) = pending_for fd (oc_epoll s)
     @ concat (map (\<lambda>n. if get_node_fd (ni_node_id n) (oc_registry s) = Some fd \<and> find_conn (oc_epoll s) fd \<noteq> None
         then frame m else []) ns)"
proof (induction ns arbitrary: s)
  case (Cons n ns)
  let ?s = "case get_node_fd (ni_node_id n) (oc_registry s) of None \<Rightarrow> s | Some fd \<Rightarrow> send_to fd m s"
  have "broadcast m (n # ns) s = broadcast m ns ?s" by (simp add: broadcast_def)
  then show ?case using Cons.IH [of ?s] by (auto simp: pending_enqueue split: option.split)
qed (simp add: broadcast_def)

text \<open>A registration completes the membership exactly when it brings the number of registered nodes to the expected total:
  then every registered node whose connection is known is queued the full member list, once per node, and otherwise
  nothing is queued at all.\<close>

theorem registration_broadcast:
  assumes "orch_process_event e (fd, m) s = Done s'" and "msg_type m = RDMA_PROCESS_REGISTRATION"
  defines "reg \<equiv> add_node_fd (ni_node_id (msg_node_info m)) fd (add_node (msg_node_info m) (oc_registry s))"
  defines "info \<equiv> create_broadcast_member_info (en_ns e 0) (en_message e) (oc_node_id s) (get_all_nodes reg)"
  shows "oc_registry s' = reg
    \<and> pending_for cfd (oc_epoll s') = pending_for cfd (oc_epoll s) @
      (if int (length (get_all_nodes reg)) = cf_expected_prefill_nodes (oc_config s) + cf_expected_decode_nodes (oc_config s)
         \<and> find_conn (oc_epoll s) cfd \<noteq> None
       then concat (map (\<lambda>n. frame info) (filter (\<lambda>n. get_node_fd (ni_node_id n) reg = Some cfd) (get_all_nodes reg)))
       else [])"
proof -
  let ?s = "s\<lparr>oc_events_processed := oc_events_processed s + 1\<rparr>"
  have h: "handle_process_rdma_registration e fd m ?s = Done s'"
    using assms(1,2) by (simp add: orch_process_event_def)
  obtain b x where x: "xt_register_node (ni_node_id (msg_node_info m)) (ni_role (msg_node_info m)) (oc_exchange s) = Done (b, x)"
    using h by (auto simp: handle_process_rdma_registration_def Let_def split: lock_outcome.splits)
  have total: "get_total_registered_nodes r = length (get_all_nodes r)" for r
    by (simp add: get_total_registered_nodes_def get_all_nodes_def)
  have pick: "concat (map (\<lambda>n. if P n then frame info else []) ns) = concat (map (\<lambda>n. frame info) (filter P ns))" for P ns
    by (induction ns) simp_all
  have "s' = (let s1 = ?s\<lparr>oc_registry := reg, oc_exchange := x\<rparr> in
      if int (length (get_all_nodes reg)) = cf_expected_prefill_nodes (oc_config s) + cf_expected_decode_nodes (oc_config s)
      then broadcast info (get_all_nodes reg) s1 else s1)"
    using h x by (simp add: handle_process_rdma_registration_def Let_def reg_def info_def total split: if_splits)
  then show ?thesis by (auto simp: Let_def pending_broadcast pick)
qed

theorem registration_broadcast_witness:
  "\<exists>s'. orch_process_event sample_env (7, sample_message\<lparr>msg_type := RDMA_PROCESS_REGISTRATION\<rparr>)
       ((new_orch sample_config 3)\<lparr>oc_epoll := sample_worker, oc_config := sample_config\<lparr>cf_expected_decode_nodes := 0\<rparr>\<rparr>) = Done s'
     \<and> pending_for 7 (oc_epoll s') \<noteq> []"
proof -
  let ?s = "(new_orch sample_config 3)\<lparr>oc_epoll := sample_worker, oc_config := sample_config\<lparr>cf_expected_decode_nodes := 0\<rparr>\<rparr>"
  let ?m = "sample_message\<lparr>msg_type := RDMA_PROCESS_REGISTRATION\<rparr>"
  have conn: "find_conn sample_worker 7 \<noteq> None" by (simp add: sample_worker_def find_conn_def)
  have frame: "frame m \<noteq> []" for m by (simp add: frame_def frame_bytes_def mem_of_u32_def)
  obtain s' where s': "orch_process_event sample_env (7, ?m) ?s = Done s'"
    by (simp add: orch_process_event_def handle_process_rdma_registration_def new_orch_def new_exchange_def
        xt_register_node_def Let_def)
  have "get_all_nodes (add_node_fd (ni_node_id (msg_node_info ?m)) 7 (add_node (msg_node_info ?m) (oc_registry ?s)))
      = [msg_node_info ?m]"
    by (simp add: new_orch_def new_registry_def add_node_def add_node_fd_def get_all_nodes_def)
  then show ?thesis
    using registration_broadcast [OF s', of 7] s' conn frame by (auto simp: sample_config_def)
qed

section \<open>The default slot configuration\<close>

text \<open>The orchestrator always plans with eight slots of 4 GiB in a 16 GiB buffer: a request given the fifth or a later slot
  of a decode node is assigned an offset at or beyond the end of that buffer.\<close>

theorem default_slots_exceed_buffer:
  assumes "orch_inv s" and "env_ok e s"
    and "select_nodes_and_allocate_slot (en_draw e) (oc_registry s) rid (oc_router s) = (Some res, rt)"
    and "4 \<le> rr_slot_id res"
  shows "rr_slot_id res < 8 \<and> get_buffer_size_bytes (rt_slot_config rt) \<le> rr_slot_base_offset res"
proof -
  have inv: "rt_inv (oc_router s)" "length (nr_nodes (oc_registry s)) < 2 ^ 64" "draws_ok (en_draw e)"
    "rt_slot_config (oc_router s) = default_slot_config"
    using assms(1,2) by (simp_all add: orch_inv_def env_ok_def)
  have cfg: "rt_slot_config rt = default_slot_config"
    using select_config [of "en_draw e" "oc_registry s" rid "oc_router s"] assms(3) inv(4) by simp
  have slot: "rr_slot_id res < 8" "rr_slot_base_offset res = slot_offset default_slot_config (rr_slot_id res)"
    using select_slot [OF assms(3) inv(1-3)] inv(4) by (simp_all add: default_slot_config_def)
  then have "rr_slot_id res \<in> {4, 5, 6, 7}" using assms(4) by auto
  then have "get_buffer_size_bytes default_slot_config \<le> slot_offset default_slot_config (rr_slot_id res)"
    by (auto simp: get_buffer_size_bytes_def slot_offset_def default_slot_config_def get_request_size_mb_def)
  then show ?thesis using slot cfg by simp
qed

text \<open>A decode node whose first four slots are held.\<close>

definition sample_busy_router :: router where
  "sample_busy_router = put_allocator ''d1'' \<lparr>sa_node_id = ''d1'', sa_max_slots = 8, sa_free_slots = [4, 5, 6, 7],
     sa_request_to_slot = [(''a'', 0), (''b'', 1), (''c'', 2), (''d'', 3)],
     sa_slot_to_request = [(0, ''a''), (1, ''b''), (2, ''c''), (3, ''d'')]\<rparr> sample_router"

theorem default_slots_exceed_buffer_witness:
  "\<exists>res rt. select_nodes_and_allocate_slot (\<lambda>_ _. 0) sample_registry ''r1'' sample_busy_router = (Some res, rt)
     \<and> rr_slot_id res = 4 \<and> get_buffer_size_bytes (rt_slot_config rt) \<le> rr_slot_base_offset res"
proof -
  let ?s = "sample_orch\<lparr>oc_router := sample_busy_router\<rparr>"
  have "rt_inv sample_busy_router" unfolding sample_busy_router_def
    by (rule rt_inv_put [OF sample_router_inv(1)]) (auto simp: allocator_inv_def pool.inv_def sample_router_def new_router_def
        increment_node_load_def default_slot_config_def split: if_splits)
  then have ok: "orch_inv ?s" "env_ok sample_env ?s"
    using sample_orch_ok by (simp_all add: orch_inv_def env_ok_def sample_busy_router_def sample_orch_def)
  have "\<exists>res rt. select_nodes_and_allocate_slot (\<lambda>_ _. 0) sample_registry ''r1'' sample_busy_router = (Some res, rt)
     \<and> rr_slot_id res = 4"
    by (simp add: select_nodes_and_allocate_slot_def select_prefill_node_def select_by_policy_def sample_busy_router_def
        select_least_loaded_def select_decode_node_with_slot_def nodes_with_slots_def
        initialize_node_slots_def find_allocator_def put_allocator_def new_slot_allocator_def has_free_slot_def
        allocate_slot_for_node_def alloc_in_def sample_router_simps INT_MAX_def Let_def upto_rec1)
  then obtain res rt where sel: "select_nodes_and_allocate_slot (\<lambda>_ _. 0) sample_registry ''r1'' sample_busy_router = (Some res, rt)"
    "rr_slot_id res = 4" by blast
  have "select_nodes_and_allocate_slot (en_draw sample_env) (oc_registry ?s) ''r1'' (oc_router ?s) = (Some res, rt)"
    using sel(1) by (simp add: sample_env_def sample_orch_def)
  from default_slots_exceed_buffer [OF ok this] show ?thesis using sel by simp
qed

end
