(* ===== verification/TrackerLayer.thy ===== *)
theory TrackerLayer
  imports Prelude
begin

text \<open>
  The decode node's request tracker, \<open>src/cpp/nodes/request_tracker_layer.h\<close> and \<open>.cpp\<close>: the
  memory layout that places slot and layer in the registered buffer, the per-request table of layers
  that have arrived, and the map from sequence numbers (16 bits of the RDMA immediate) to requests.
  Every public operation runs under one mutex and is one step. Clock values are arguments.
\<close>

section \<open>Memory layout\<close>

record memory_layout =
  ml_buffer_size_bytes :: u64
  ml_max_concurrent_requests :: int
  ml_num_layers :: int
  ml_layer_size_bytes :: u64

definition default_layout :: memory_layout where
  "default_layout = \<lparr>ml_buffer_size_bytes = 16 * 1024 * 1024 * 1024, ml_max_concurrent_requests = 8,
     ml_num_layers = 32, ml_layer_size_bytes = 128 * 1024 * 1024\<rparr>"

definition get_request_size :: "memory_layout \<Rightarrow> u64" where
  "get_request_size l = word_of_int (ml_num_layers l) * ml_layer_size_bytes l"

definition get_slot_base_offset :: "memory_layout \<Rightarrow> int \<Rightarrow> u64" where
  "get_slot_base_offset l slot = word_of_int slot * get_request_size l"

definition layout_layer_offset :: "memory_layout \<Rightarrow> int \<Rightarrow> int \<Rightarrow> u64" where
  "layout_layer_offset l slot layer =
     get_slot_base_offset l slot + word_of_int layer * ml_layer_size_bytes l"

definition validate_offset :: "memory_layout \<Rightarrow> u64 \<Rightarrow> u64 \<Rightarrow> bool" where
  "validate_offset l offset len \<longleftrightarrow> offset + len \<le> ml_buffer_size_bytes l"

section \<open>State\<close>

datatype layer_state = State_ASSIGNED | State_WAITING_FOR_PREFILL | State_WAITING_FOR_KV | State_RECEIVING_KV
  | State_READY_FOR_DECODE | State_DECODING | State_COMPLETED | State_FAILED

fun state_to_string :: "layer_state \<Rightarrow> string" where
  "state_to_string State_ASSIGNED = ''ASSIGNED''"
| "state_to_string State_WAITING_FOR_PREFILL = ''WAITING_FOR_PREFILL''"
| "state_to_string State_WAITING_FOR_KV = ''WAITING_FOR_KV''"
| "state_to_string State_RECEIVING_KV = ''RECEIVING_KV''"
| "state_to_string State_READY_FOR_DECODE = ''READY_FOR_DECODE''"
| "state_to_string State_DECODING = ''DECODING''"
| "state_to_string State_COMPLETED = ''COMPLETED''"
| "state_to_string State_FAILED = ''FAILED''"

type_synonym clock = int

record layer_metadata =
  lm_layer_id :: int
  lm_offset :: u64
  lm_size :: u64
  lm_received :: bool
  lm_arrival_ts :: clock

record tracked_request =
  tr_request_id :: string
  tr_prefill_node_id :: string
  tr_seq_num :: u16
  tr_slot_id :: int
  tr_base_offset :: u64
  tr_num_layers :: int
  tr_layers :: "layer_metadata list"
  tr_layers_received_count :: int
  tr_state :: layer_state
  tr_assigned_ts :: clock
  tr_first_layer_ts :: clock
  tr_all_layers_ts :: clock
  tr_decode_start_ts :: clock
  tr_decode_complete_ts :: clock
  tr_prompt :: string
  tr_num_tokens :: int
  tr_max_output_tokens :: int
  tr_error_message :: string

record layer_tracker =
  lt_layout :: memory_layout
  lt_requests :: "(string \<times> tracked_request) list"
  lt_request_to_seq :: "(string \<times> u16) list"
  lt_seq_to_request :: "(u16 \<times> string) list"
  lt_total_requests :: u64
  lt_completed_requests :: u64
  lt_failed_requests :: u64

definition new_layer_tracker :: "memory_layout \<Rightarrow> layer_tracker" where
  "new_layer_tracker l = \<lparr>lt_layout = l, lt_requests = [], lt_request_to_seq = [],
     lt_seq_to_request = [], lt_total_requests = 0, lt_completed_requests = 0, lt_failed_requests = 0\<rparr>"

section \<open>Lifecycle\<close>

datatype tracker_error = Invalid_slot int | Slot_in_use int string | Bad_length
  | Request_not_found string | Invalid_layer int

text \<open>\<open>layers[i]\<close> for \<open>i\<close> below \<open>num_layers\<close>, none received.\<close>

definition initial_layer :: "memory_layout \<Rightarrow> int \<Rightarrow> nat \<Rightarrow> layer_metadata" where
  "initial_layer l slot i = \<lparr>lm_layer_id = int i, lm_offset = layout_layer_offset l slot (int i),
     lm_size = ml_layer_size_bytes l, lm_received = False, lm_arrival_ts = 0\<rparr>"

definition slot_holder :: "layer_tracker \<Rightarrow> int \<Rightarrow> string option" where
  "slot_holder t slot = map_option fst (find (\<lambda>(id, info). tr_slot_id info = slot) (lt_requests t))"

text \<open>A negative \<open>num_layers\<close> asks for a vector of more than \<open>max_size\<close> elements, which throws.\<close>

definition lt_add_request ::
  "clock \<Rightarrow> string \<Rightarrow> string \<Rightarrow> int \<Rightarrow> int \<Rightarrow> layer_tracker \<Rightarrow> tracker_error + (u16 \<times> layer_tracker)" where
  "lt_add_request now rid prefill slot n t =
     (if slot < 0 \<or> slot \<ge> ml_max_concurrent_requests (lt_layout t) then Inl (Invalid_slot slot)
      else case slot_holder t slot of Some h \<Rightarrow> Inl (Slot_in_use slot h) | None \<Rightarrow>
        if n < 0 then Inl Bad_length
        else
          let seq = word_of_int slot;
              info = \<lparr>tr_request_id = rid, tr_prefill_node_id = prefill, tr_seq_num = seq,
                tr_slot_id = slot, tr_base_offset = get_slot_base_offset (lt_layout t) slot,
                tr_num_layers = n, tr_layers = map (initial_layer (lt_layout t) slot) [0..<nat n],
                tr_layers_received_count = 0, tr_state = State_ASSIGNED, tr_assigned_ts = now,
                tr_first_layer_ts = 0, tr_all_layers_ts = 0, tr_decode_start_ts = 0,
                tr_decode_complete_ts = 0, tr_prompt = [], tr_num_tokens = 0,
                tr_max_output_tokens = 0, tr_error_message = []\<rparr>
          in Inr (seq, t\<lparr>lt_requests := put rid info (lt_requests t),
               lt_request_to_seq := put rid seq (lt_request_to_seq t),
               lt_seq_to_request := put seq rid (lt_seq_to_request t),
               lt_total_requests := lt_total_requests t + 1\<rparr>))"

definition lt_find :: "layer_tracker \<Rightarrow> string \<Rightarrow> tracked_request option" where
  "lt_find t rid = map_of (lt_requests t) rid"

definition lt_put :: "string \<Rightarrow> tracked_request \<Rightarrow> layer_tracker \<Rightarrow> layer_tracker" where
  "lt_put rid info t = t\<lparr>lt_requests := put rid info (lt_requests t)\<rparr>"

definition lt_update_state ::
  "clock \<Rightarrow> string \<Rightarrow> layer_state \<Rightarrow> layer_tracker \<Rightarrow> bool \<times> layer_tracker" where
  "lt_update_state now rid s t =
     (case lt_find t rid of
        None \<Rightarrow> (False, t)
      | Some info \<Rightarrow>
          (let info = info\<lparr>tr_state := s\<rparr> in
           (True,
            if s = State_COMPLETED then (lt_put rid (info\<lparr>tr_decode_complete_ts := now\<rparr>) t)
                \<lparr>lt_completed_requests := lt_completed_requests t + 1\<rparr>
            else if s = State_FAILED then (lt_put rid info t)\<lparr>lt_failed_requests := lt_failed_requests t + 1\<rparr>
            else if s = State_DECODING then lt_put rid (info\<lparr>tr_decode_start_ts := now\<rparr>) t
            else lt_put rid info t)))"

definition lt_get_request :: "string \<Rightarrow> layer_tracker \<Rightarrow> tracked_request option" where
  "lt_get_request rid t = lt_find t rid"

definition lt_remove_request :: "string \<Rightarrow> layer_tracker \<Rightarrow> layer_tracker" where
  "lt_remove_request rid t =
     (case lt_find t rid of
        None \<Rightarrow> t
      | Some info \<Rightarrow> t\<lparr>lt_requests := erase rid (lt_requests t),
          lt_request_to_seq := erase rid (lt_request_to_seq t),
          lt_seq_to_request := erase (tr_seq_num info) (lt_seq_to_request t)\<rparr>)"

section \<open>Layer tracking\<close>

text \<open>\<open>now1\<close> and \<open>now2\<close> are the clock readings for the arrival and for the completion.\<close>

definition mark_layer_received ::
  "clock \<Rightarrow> clock \<Rightarrow> string \<Rightarrow> int \<Rightarrow> layer_tracker \<Rightarrow> bool \<times> layer_tracker" where
  "mark_layer_received now1 now2 rid layer_id t =
     (case lt_find t rid of
        None \<Rightarrow> (False, t)
      | Some info \<Rightarrow>
          if layer_id < 0 \<or> layer_id \<ge> tr_num_layers info then (False, t)
          else
            let layer = tr_layers info ! nat layer_id in
            if lm_received layer then (False, t)
            else
              let layer = layer\<lparr>lm_received := True, lm_arrival_ts := now1\<rparr>;
                  info = info\<lparr>tr_layers := (tr_layers info)[nat layer_id := layer],
                              tr_layers_received_count := tr_layers_received_count info + 1\<rparr>;
                  info = (if tr_layers_received_count info = 1
                          then info\<lparr>tr_first_layer_ts := now1, tr_state := State_RECEIVING_KV\<rparr> else info);
                  all_received = (tr_layers_received_count info = tr_num_layers info);
                  info = (if all_received
                          then info\<lparr>tr_all_layers_ts := now2, tr_state := State_READY_FOR_DECODE\<rparr> else info)
              in (all_received, lt_put rid info t))"

definition is_layer_ready :: "string \<Rightarrow> int \<Rightarrow> layer_tracker \<Rightarrow> bool" where
  "is_layer_ready rid layer_id t =
     (case lt_find t rid of
        None \<Rightarrow> False
      | Some info \<Rightarrow>
          if layer_id < 0 \<or> layer_id \<ge> tr_num_layers info then False
          else lm_received (tr_layers info ! nat layer_id))"

definition get_progress :: "string \<Rightarrow> layer_tracker \<Rightarrow> (int \<times> int) option" where
  "get_progress rid t = map_option (\<lambda>info. (tr_layers_received_count info, tr_num_layers info)) (lt_find t rid)"

definition lt_get_layer_offset :: "string \<Rightarrow> int \<Rightarrow> layer_tracker \<Rightarrow> tracker_error + u64" where
  "lt_get_layer_offset rid layer_id t =
     (case lt_find t rid of
        None \<Rightarrow> Inl (Request_not_found rid)
      | Some info \<Rightarrow>
          if layer_id < 0 \<or> layer_id \<ge> tr_num_layers info then Inl (Invalid_layer layer_id)
          else Inr (lm_offset (tr_layers info ! nat layer_id)))"

section \<open>Sequence numbers and immediates\<close>

definition resolve_seq_num :: "u16 \<Rightarrow> layer_tracker \<Rightarrow> string" where
  "resolve_seq_num s t = (case map_of (lt_seq_to_request t) s of None \<Rightarrow> [] | Some rid \<Rightarrow> rid)"

definition get_seq_num :: "string \<Rightarrow> layer_tracker \<Rightarrow> u16" where
  "get_seq_num rid t = (case map_of (lt_request_to_seq t) rid of None \<Rightarrow> 0 | Some s \<Rightarrow> s)"

definition get_slot_id :: "string \<Rightarrow> layer_tracker \<Rightarrow> int" where
  "get_slot_id rid t = (case lt_find t rid of None \<Rightarrow> -1 | Some info \<Rightarrow> tr_slot_id info)"

definition encode_layer_id :: "u16 \<Rightarrow> u16 \<Rightarrow> u32" where
  "encode_layer_id request_seq layer_id = push_bit 16 (ucast request_seq) OR ucast layer_id"

definition decode_layer_id :: "u32 \<Rightarrow> u16 \<times> u16" where
  "decode_layer_id imm = (ucast (drop_bit 16 imm), ucast (imm AND 0xFFFF))"

section \<open>Statistics\<close>

record layer_stats =
  ls_total :: int  ls_active :: int  ls_completed :: int  ls_failed :: int
  ls_assigned :: int  ls_waiting_for_prefill :: int  ls_waiting_for_kv :: int
  ls_receiving_kv :: int  ls_ready_for_decode :: int  ls_decoding :: int

definition count_state :: "layer_state \<Rightarrow> layer_tracker \<Rightarrow> int" where
  "count_state s t = int (length (filter (\<lambda>(id, info). tr_state info = s) (lt_requests t)))"

definition cast_int :: "u64 \<Rightarrow> int" where
  "cast_int v = sint (ucast v :: u32)"

definition lt_get_stats :: "layer_tracker \<Rightarrow> layer_stats" where
  "lt_get_stats t = \<lparr>ls_total = cast_int (lt_total_requests t),
     ls_active = sint (word_of_nat (length (lt_requests t)) :: u32),
     ls_completed = cast_int (lt_completed_requests t), ls_failed = cast_int (lt_failed_requests t),
     ls_assigned = count_state State_ASSIGNED t, ls_waiting_for_prefill = count_state State_WAITING_FOR_PREFILL t,
     ls_waiting_for_kv = count_state State_WAITING_FOR_KV t, ls_receiving_kv = count_state State_RECEIVING_KV t,
     ls_ready_for_decode = count_state State_READY_FOR_DECODE t, ls_decoding = count_state State_DECODING t\<rparr>"

definition get_requests_in_state :: "layer_state \<Rightarrow> layer_tracker \<Rightarrow> string list" where
  "get_requests_in_state s t = map fst (filter (\<lambda>(id, info). tr_state info = s) (lt_requests t))"

section \<open>The layout without wrap-around\<close>

text \<open>The check of \<open>Node::start\<close> in mathematical integers: all slots fit in the buffer.\<close>

definition layout_fits :: "memory_layout \<Rightarrow> bool" where
  "layout_fits l \<longleftrightarrow> 0 \<le> ml_num_layers l \<and> 0 \<le> ml_max_concurrent_requests l \<and>
     ml_max_concurrent_requests l * (ml_num_layers l * uint (ml_layer_size_bytes l))
       \<le> uint (ml_buffer_size_bytes l)"

definition layer_index :: "memory_layout \<Rightarrow> int \<Rightarrow> int \<Rightarrow> int" where
  "layer_index l slot layer = slot * ml_num_layers l + layer"

lemma layer_index_less:
  assumes "0 \<le> layer" "layer < ml_num_layers l" "0 \<le> slot" "slot < m"
  shows "0 \<le> layer_index l slot layer" "layer_index l slot layer + 1 \<le> m * ml_num_layers l"
proof -
  have "(slot + 1) * ml_num_layers l \<le> m * ml_num_layers l"
    using assms by (intro mult_right_mono) auto
  then show "layer_index l slot layer + 1 \<le> m * ml_num_layers l"
    using assms by (simp add: layer_index_def distrib_right)
qed (use assms in \<open>simp add: layer_index_def\<close>)

lemma uint_layer_offset:
  assumes "layout_fits l" "0 \<le> slot" "slot < ml_max_concurrent_requests l"
    "0 \<le> layer" "layer < ml_num_layers l"
  shows "uint (layout_layer_offset l slot layer) = layer_index l slot layer * uint (ml_layer_size_bytes l)"
    and "uint (layout_layer_offset l slot layer) + uint (ml_layer_size_bytes l)
      \<le> uint (ml_buffer_size_bytes l)"
proof -
  let ?s = "uint (ml_layer_size_bytes l)" and ?i = "layer_index l slot layer"
  note ix = layer_index_less [OF assms(4,5,2,3)]
  have "(?i + 1) * ?s \<le> ml_max_concurrent_requests l * ml_num_layers l * ?s"
    using ix by (intro mult_right_mono) auto
  then have top: "?i * ?s + ?s \<le> uint (ml_buffer_size_bytes l)"
    using assms(1) by (simp add: layout_fits_def distrib_right mult.assoc)
  have "layout_layer_offset l slot layer = word_of_int (?i * ?s)"
    by (simp add: layout_layer_offset_def get_slot_base_offset_def get_request_size_def layer_index_def
        distrib_right mult.assoc)
  moreover have "?i * ?s < 2 ^ 64"
  proof -
    have "uint (ml_buffer_size_bytes l) < 2 ^ 64" "0 \<le> ?s"
      using uint_lt2p [of "ml_buffer_size_bytes l"] by simp_all
    then show ?thesis using top by linarith
  qed
  moreover have "0 \<le> ?i * ?s" using ix(1) by simp
  then have "uint (word_of_int (?i * ?s) :: u64) = ?i * ?s"
    using calculation(2) unfolding unsigned_of_int by (simp add: take_bit_int_eq_self)
  ultimately show *: "uint (layout_layer_offset l slot layer) = ?i * ?s"
    by (simp only:)
  show "uint (layout_layer_offset l slot layer) + ?s \<le> uint (ml_buffer_size_bytes l)"
    using top by (simp add: *)
qed

lemma layer_index_inj:
  assumes "0 \<le> a" "a < ml_num_layers l" "0 \<le> b" "b < ml_num_layers l"
    "layer_index l s a = layer_index l s' b"
  shows "s = s' \<and> a = b"
proof -
  have "(s * ml_num_layers l + a) div ml_num_layers l = s" "(s' * ml_num_layers l + b) div ml_num_layers l = s'"
    using assms(1-4) by auto
  then show ?thesis using assms(5) by (auto simp: layer_index_def)
qed

lemma layer_regions_disjoint:
  assumes "layout_fits l" "0 \<le> s" "s < ml_max_concurrent_requests l" "0 \<le> a" "a < ml_num_layers l"
    "0 \<le> s'" "s' < ml_max_concurrent_requests l" "0 \<le> b" "b < ml_num_layers l" "(s, a) \<noteq> (s', b)"
  shows "uint (layout_layer_offset l s a) + uint (ml_layer_size_bytes l) \<le> uint (layout_layer_offset l s' b)
    \<or> uint (layout_layer_offset l s' b) + uint (ml_layer_size_bytes l) \<le> uint (layout_layer_offset l s a)"
proof -
  let ?z = "uint (ml_layer_size_bytes l)"
  have step: "i < j \<Longrightarrow> i * ?z + ?z \<le> j * ?z" for i j :: int
    using mult_right_mono [of "i + 1" j ?z] by (simp add: distrib_right)
  have "layer_index l s a \<noteq> layer_index l s' b"
    using layer_index_inj [OF assms(4,5,8,9)] assms(10) by auto
  then show ?thesis
    using step uint_layer_offset(1) [OF assms(1-5)] uint_layer_offset(1) [OF assms(1,6-9)]
    by (metis linorder_neq_iff)
qed

section \<open>The tracker's invariant\<close>

definition received_ids :: "tracked_request \<Rightarrow> int set" where
  "received_ids i = {k. 0 \<le> k \<and> k < tr_num_layers i \<and> lm_received (tr_layers i ! nat k)}"

definition req_ok :: "memory_layout \<Rightarrow> string \<Rightarrow> tracked_request \<Rightarrow> bool" where
  "req_ok l rid i \<longleftrightarrow> tr_request_id i = rid \<and> 0 \<le> tr_slot_id i
     \<and> tr_slot_id i < ml_max_concurrent_requests l \<and> tr_seq_num i = word_of_int (tr_slot_id i)
     \<and> tr_base_offset i = get_slot_base_offset l (tr_slot_id i) \<and> 0 \<le> tr_num_layers i
     \<and> length (tr_layers i) = nat (tr_num_layers i)
     \<and> (\<forall>k < length (tr_layers i). lm_offset (tr_layers i ! k) = layout_layer_offset l (tr_slot_id i) (int k)
          \<and> lm_size (tr_layers i ! k) = ml_layer_size_bytes l)
     \<and> tr_layers_received_count i = int (card (received_ids i))"

definition lt_inv :: "layer_tracker \<Rightarrow> bool" where
  "lt_inv t \<longleftrightarrow> (\<forall>rid i. lt_find t rid = Some i \<longrightarrow> req_ok (lt_layout t) rid i
       \<and> map_of (lt_request_to_seq t) rid = Some (tr_seq_num i)
       \<and> map_of (lt_seq_to_request t) (tr_seq_num i) = Some rid)
     \<and> (\<forall>r r' i i'. lt_find t r = Some i \<longrightarrow> lt_find t r' = Some i' \<longrightarrow> tr_slot_id i = tr_slot_id i' \<longrightarrow> r = r')"

lemma lt_inv_D:
  assumes "lt_inv t" and "lt_find t r = Some i"
  shows "req_ok (lt_layout t) r i" "map_of (lt_request_to_seq t) r = Some (tr_seq_num i)"
    "map_of (lt_seq_to_request t) (tr_seq_num i) = Some r" "tr_seq_num i = word_of_int (tr_slot_id i)"
    "lt_find t r' = Some i' \<Longrightarrow> tr_slot_id i' = tr_slot_id i \<Longrightarrow> r' = r"
proof -
  show ok: "req_ok (lt_layout t) r i" "map_of (lt_request_to_seq t) r = Some (tr_seq_num i)"
    "map_of (lt_seq_to_request t) (tr_seq_num i) = Some r"
    "lt_find t r' = Some i' \<Longrightarrow> tr_slot_id i' = tr_slot_id i \<Longrightarrow> r' = r"
    using assms unfolding lt_inv_def by blast+
  show "tr_seq_num i = word_of_int (tr_slot_id i)" using ok(1) by (simp add: req_ok_def)
qed

lemma lt_find_put [simp]: "lt_find (lt_put rid i t) r = (if r = rid then Some i else lt_find t r)"
  by (simp add: lt_find_def lt_put_def)

lemma finite_received [simp]: "finite (received_ids i)"
  by (rule finite_subset [of _ "{0..<tr_num_layers i}"]) (auto simp: received_ids_def)

lemma received_ids_update:
  assumes "length (tr_layers i) = nat (tr_num_layers i)" "0 \<le> k" "k < tr_num_layers i" "lm_received x"
  shows "received_ids (i\<lparr>tr_layers := (tr_layers i)[nat k := x]\<rparr>) = insert k (received_ids i)"
  using assms by (auto simp: received_ids_def nth_list_update)

definition marked :: "clock \<Rightarrow> clock \<Rightarrow> int \<Rightarrow> tracked_request \<Rightarrow> tracked_request" where
  "marked now1 now2 k i =
     (let layer = (tr_layers i ! nat k)\<lparr>lm_received := True, lm_arrival_ts := now1\<rparr>;
          i = i\<lparr>tr_layers := (tr_layers i)[nat k := layer],
                tr_layers_received_count := tr_layers_received_count i + 1\<rparr>;
          i = (if tr_layers_received_count i = 1
               then i\<lparr>tr_first_layer_ts := now1, tr_state := State_RECEIVING_KV\<rparr> else i) in
      if tr_layers_received_count i = tr_num_layers i
      then i\<lparr>tr_all_layers_ts := now2, tr_state := State_READY_FOR_DECODE\<rparr> else i)"

lemma mark_cases:
  "mark_layer_received now1 now2 rid k t =
     (case lt_find t rid of
        None \<Rightarrow> (False, t)
      | Some i \<Rightarrow> if k < 0 \<or> k \<ge> tr_num_layers i \<or> k \<in> received_ids i then (False, t)
          else (tr_layers_received_count i + 1 = tr_num_layers i, lt_put rid (marked now1 now2 k i) t))"
  by (auto simp: mark_layer_received_def marked_def received_ids_def Let_def split: option.split)

lemma marked_facts:
  assumes "length (tr_layers i) = nat (tr_num_layers i)" "0 \<le> k" "k < tr_num_layers i"
    "k \<notin> received_ids i"
  shows "received_ids (marked now1 now2 k i) = insert k (received_ids i)"
    and "tr_slot_id (marked now1 now2 k i) = tr_slot_id i" "tr_seq_num (marked now1 now2 k i) = tr_seq_num i"
    and "tr_num_layers (marked now1 now2 k i) = tr_num_layers i"
    and "req_ok l rid i \<Longrightarrow> req_ok l rid (marked now1 now2 k i)"
proof -
  let ?x = "(tr_layers i ! nat k)\<lparr>lm_received := True, lm_arrival_ts := now1\<rparr>"
  have r: "received_ids (i\<lparr>tr_layers := (tr_layers i)[nat k := ?x]\<rparr>) = insert k (received_ids i)"
    using assms by (intro received_ids_update) auto
  have eq: "tr_layers j = (tr_layers i)[nat k := ?x] \<Longrightarrow> tr_num_layers j = tr_num_layers i \<Longrightarrow>
      received_ids j = insert k (received_ids i)" for j
    using r by (simp add: received_ids_def)
  have *: "tr_layers (marked now1 now2 k i) = (tr_layers i)[nat k := ?x]"
    "tr_slot_id (marked now1 now2 k i) = tr_slot_id i" "tr_seq_num (marked now1 now2 k i) = tr_seq_num i"
    "tr_num_layers (marked now1 now2 k i) = tr_num_layers i"
    "tr_request_id (marked now1 now2 k i) = tr_request_id i"
    "tr_base_offset (marked now1 now2 k i) = tr_base_offset i"
    "tr_layers_received_count (marked now1 now2 k i) = tr_layers_received_count i + 1"
    by (simp_all add: marked_def Let_def)
  show ids: "received_ids (marked now1 now2 k i) = insert k (received_ids i)"
    by (rule eq) (simp_all add: *)
  show "tr_slot_id (marked now1 now2 k i) = tr_slot_id i" "tr_seq_num (marked now1 now2 k i) = tr_seq_num i"
    "tr_num_layers (marked now1 now2 k i) = tr_num_layers i" by (simp_all add: *)
  show "req_ok l rid i \<Longrightarrow> req_ok l rid (marked now1 now2 k i)"
    using assms by (auto simp: req_ok_def * ids nth_list_update)
qed

lemma lt_put_sel [simp]:
  "lt_layout (lt_put rid i t) = lt_layout t" "lt_request_to_seq (lt_put rid i t) = lt_request_to_seq t"
  "lt_seq_to_request (lt_put rid i t) = lt_seq_to_request t"
  by (simp_all add: lt_put_def)

lemma lt_inv_counters [simp]:
  "lt_inv (t\<lparr>lt_completed_requests := c\<rparr>) = lt_inv t" "lt_inv (t\<lparr>lt_failed_requests := c\<rparr>) = lt_inv t"
  by (simp_all add: lt_inv_def lt_find_def)

text \<open>Storing one request, new or not, keeps the invariant when its slot is nobody else's.\<close>

lemma lt_inv_store:
  assumes inv: "lt_inv t"
    and find: "\<And>r. lt_find t' r = (if r = rid then Some j else lt_find t r)"
    and layout: "lt_layout t' = lt_layout t"
    and ok: "req_ok (lt_layout t) rid j"
    and free: "\<And>r k. lt_find t r = Some k \<Longrightarrow> r \<noteq> rid \<Longrightarrow> tr_slot_id k \<noteq> tr_slot_id j"
    and maps: "map_of (lt_request_to_seq t') rid = Some (tr_seq_num j)"
      "map_of (lt_seq_to_request t') (tr_seq_num j) = Some rid"
      "\<And>r k. lt_find t r = Some k \<Longrightarrow> r \<noteq> rid \<Longrightarrow> map_of (lt_request_to_seq t') r = map_of (lt_request_to_seq t) r
        \<and> map_of (lt_seq_to_request t') (tr_seq_num k) = map_of (lt_seq_to_request t) (tr_seq_num k)"
  shows "lt_inv t'"
proof -
  have old: "req_ok (lt_layout t) r k \<and> map_of (lt_request_to_seq t) r = Some (tr_seq_num k)
      \<and> map_of (lt_seq_to_request t) (tr_seq_num k) = Some r" if "lt_find t r = Some k" for r k
    using inv that unfolding lt_inv_def by blast
  have uniq: "lt_find t r = Some k \<Longrightarrow> lt_find t r' = Some k' \<Longrightarrow> tr_slot_id k = tr_slot_id k' \<Longrightarrow> r = r'" for r r' k k'
    using inv unfolding lt_inv_def by blast
  show ?thesis
    unfolding lt_inv_def find layout
  proof (intro conjI allI impI)
    fix r k assume "(if r = rid then Some j else lt_find t r) = Some k"
    then show "req_ok (lt_layout t) r k" "map_of (lt_request_to_seq t') r = Some (tr_seq_num k)"
      "map_of (lt_seq_to_request t') (tr_seq_num k) = Some r"
      using old [of r k] ok maps(1,2) maps(3) [of r k] by (auto split: if_splits)
  next
    fix r r' k k'
    assume "(if r = rid then Some j else lt_find t r) = Some k"
      "(if r' = rid then Some j else lt_find t r') = Some k'" "tr_slot_id k = tr_slot_id k'"
    then show "r = r'" using uniq [of r k r' k'] free [of r k] free [of r' k']
      by (auto split: if_splits)
  qed
qed

lemma lt_inv_put:
  assumes "lt_inv t" "lt_find t rid = Some i" "req_ok (lt_layout t) rid j"
    "tr_slot_id j = tr_slot_id i" "tr_seq_num j = tr_seq_num i"
  shows "lt_inv (lt_put rid j t)"
proof (rule lt_inv_store [OF assms(1) lt_find_put])
  show "map_of (lt_request_to_seq (lt_put rid j t)) rid = Some (tr_seq_num j)"
    "map_of (lt_seq_to_request (lt_put rid j t)) (tr_seq_num j) = Some rid"
    using assms unfolding lt_inv_def by auto
  show "lt_find t r = Some k \<Longrightarrow> r \<noteq> rid \<Longrightarrow> tr_slot_id k \<noteq> tr_slot_id j" for r k
    using assms(1,2,4) unfolding lt_inv_def by metis
qed (use assms in simp_all)

section \<open>Every operation preserves the invariant\<close>

lemma lt_inv_new: "lt_inv (new_layer_tracker l)"
  by (simp add: lt_inv_def lt_find_def new_layer_tracker_def)

lemma lt_inv_mark:
  assumes "lt_inv t" shows "lt_inv (snd (mark_layer_received now1 now2 rid k t))"
proof (cases "lt_find t rid")
  case (Some i)
  with assms have ok: "req_ok (lt_layout t) rid i" by (auto simp: lt_inv_def)
  then have len: "length (tr_layers i) = nat (tr_num_layers i)" by (simp add: req_ok_def)
  show ?thesis
    using assms Some ok marked_facts(2,3) [OF len, of k now1 now2] marked_facts(5) [OF len, of k _ rid now1 now2]
    by (auto simp: mark_cases intro!: lt_inv_put)
qed (simp add: assms mark_cases)

lemma lt_inv_update_state: "lt_inv t \<Longrightarrow> lt_inv (snd (lt_update_state now rid s t))"
proof (cases "lt_find t rid")
  case (Some i)
  assume inv: "lt_inv t"
  with Some have ok: "req_ok (lt_layout t) rid i" by (auto simp: lt_inv_def)
  have "req_ok (lt_layout t) rid (i\<lparr>tr_state := s\<rparr>)"
    "req_ok (lt_layout t) rid (i\<lparr>tr_state := s, tr_decode_complete_ts := now\<rparr>)"
    "req_ok (lt_layout t) rid (i\<lparr>tr_state := s, tr_decode_start_ts := now\<rparr>)"
    using ok by (simp_all add: req_ok_def received_ids_def)
  then show ?thesis
    using inv Some by (auto simp: lt_update_state_def Let_def intro: lt_inv_put)
qed (simp add: lt_update_state_def)

lemma seq_inj:
  assumes "0 \<le> a" "a < m" "0 \<le> b" "b < m" "m \<le> 65536" "(word_of_int a :: u16) = word_of_int b"
  shows "a = b"
proof -
  have "uint (word_of_int a :: u16) = a" "uint (word_of_int b :: u16) = b"
    using assms(1-5) by (simp_all add: unsigned_of_int take_bit_int_eq_self)
  then show ?thesis using assms(6) by metis
qed

lemma lt_inv_remove:
  assumes "lt_inv t" "ml_max_concurrent_requests (lt_layout t) \<le> 65536"
  shows "lt_inv (lt_remove_request rid t)"
proof (cases "lt_find t rid")
  case (Some i)
  let ?t = "lt_remove_request rid t"
  have f: "lt_find ?t r = (if r = rid then None else lt_find t r)" "lt_layout ?t = lt_layout t" for r
    using Some by (simp_all add: lt_remove_request_def lt_find_def)
  have s: "tr_seq_num j \<noteq> tr_seq_num i" if "lt_find t r = Some j" "r \<noteq> rid" for r j
  proof
    assume eq: "tr_seq_num j = tr_seq_num i"
    have "req_ok (lt_layout t) r j" "req_ok (lt_layout t) rid i" using assms(1) that Some by (auto simp: lt_inv_def)
    then have "tr_slot_id j = tr_slot_id i" using eq assms(2) by (auto simp: req_ok_def intro: seq_inj)
    then show False using assms(1) that Some by (auto simp: lt_inv_def)
  qed
  show ?thesis
    using assms(1) Some s unfolding lt_inv_def f by (auto simp: lt_remove_request_def split: if_splits)
qed (simp add: assms lt_remove_request_def)

lemma slot_holder_None: "slot_holder t slot = None \<Longrightarrow> lt_find t r = Some i \<Longrightarrow> tr_slot_id i \<noteq> slot"
  by (auto simp: slot_holder_def find_None_iff lt_find_def dest: map_of_SomeD)

lemma lt_inv_add:
  assumes "lt_inv t" "ml_max_concurrent_requests (lt_layout t) \<le> 65536"
    "lt_add_request now rid p slot n t = Inr (s, t')"
  shows "lt_inv t'"
proof -
  have g: "0 \<le> slot" "slot < ml_max_concurrent_requests (lt_layout t)" "0 \<le> n"
    "slot_holder t slot = None" and s: "s = word_of_int slot"
    using assms(3) by (auto simp: lt_add_request_def Let_def split: if_splits option.splits)
  obtain i where i: "lt_find t' r = (if r = rid then Some i else lt_find t r)"
    "lt_request_to_seq t' = put rid s (lt_request_to_seq t)"
    "lt_seq_to_request t' = put s rid (lt_seq_to_request t)" "lt_layout t' = lt_layout t"
    "tr_slot_id i = slot" "tr_seq_num i = s" "req_ok (lt_layout t) rid i" for r
  proof
    let ?i = "\<lparr>tr_request_id = rid, tr_prefill_node_id = p, tr_seq_num = word_of_int slot,
      tr_slot_id = slot, tr_base_offset = get_slot_base_offset (lt_layout t) slot,
      tr_num_layers = n, tr_layers = map (initial_layer (lt_layout t) slot) [0..<nat n],
      tr_layers_received_count = 0, tr_state = State_ASSIGNED, tr_assigned_ts = now,
      tr_first_layer_ts = 0, tr_all_layers_ts = 0, tr_decode_start_ts = 0,
      tr_decode_complete_ts = 0, tr_prompt = [], tr_num_tokens = 0,
      tr_max_output_tokens = 0, tr_error_message = []\<rparr>"
    have "received_ids ?i = {}" by (auto simp: received_ids_def initial_layer_def)
    then show "req_ok (lt_layout t) rid ?i" using g by (simp add: req_ok_def initial_layer_def)
    show "lt_find t' r = (if r = rid then Some ?i else lt_find t r)"
      "lt_request_to_seq t' = put rid s (lt_request_to_seq t)"
      "lt_seq_to_request t' = put s rid (lt_seq_to_request t)" "lt_layout t' = lt_layout t" for r
      using assms(3) g s by (auto simp: lt_add_request_def lt_find_def Let_def)
  qed (simp_all add: s)
  have fresh: "tr_slot_id j \<noteq> slot \<and> tr_seq_num j \<noteq> s" if "lt_find t r = Some j" for r j
  proof -
    have "req_ok (lt_layout t) r j" using assms(1) that unfolding lt_inv_def by blast
    then show ?thesis using slot_holder_None [OF g(4) that] g assms(2)
      by (auto simp: req_ok_def s dest: seq_inj)
  qed
  show ?thesis
    by (rule lt_inv_store [OF assms(1) i(1) i(4) i(7)]) (use fresh i in auto)
qed

section \<open>Reachable trackers\<close>

text \<open>
  Any sequence of operations. Requests are added with the layout's number of layers, as
  \<open>WorkerNode::handle_prepare_decode_slot\<close> does; an operation that throws leaves the tracker as it was.
\<close>

inductive lt_reach :: "memory_layout \<Rightarrow> layer_tracker \<Rightarrow> bool" for l where
  reach_new: "lt_reach l (new_layer_tracker l)"
| reach_add: "lt_reach l t \<Longrightarrow> lt_add_request now rid p slot (ml_num_layers l) t = Inr (s, t') \<Longrightarrow> lt_reach l t'"
| reach_state: "lt_reach l t \<Longrightarrow> lt_reach l (snd (lt_update_state now rid st t))"
| reach_remove: "lt_reach l t \<Longrightarrow> lt_reach l (lt_remove_request rid t)"
| reach_mark: "lt_reach l t \<Longrightarrow> lt_reach l (snd (mark_layer_received now1 now2 rid k t))"

definition all_num_layers :: "layer_tracker \<Rightarrow> bool" where
  "all_num_layers t \<longleftrightarrow> (\<forall>r i. lt_find t r = Some i \<longrightarrow> tr_num_layers i = ml_num_layers (lt_layout t))"

lemma lt_add_find:
  assumes "lt_add_request now rid p slot n t = Inr (s, t')"
  shows "lt_layout t' = lt_layout t" "lt_find t' r = Some i \<Longrightarrow> r \<noteq> rid \<Longrightarrow> lt_find t r = Some i"
    "lt_find t' rid = Some i \<Longrightarrow> tr_num_layers i = n \<and> tr_slot_id i = slot \<and> received_ids i = {}
       \<and> tr_state i = State_ASSIGNED \<and> tr_layers_received_count i = 0
       \<and> 0 \<le> n \<and> length (tr_layers i) = nat n"
    "\<exists>i. lt_find t' rid = Some i"
  using assms
  by (auto simp: lt_add_request_def lt_find_def Let_def received_ids_def initial_layer_def
      split: if_splits option.splits)

lemma marked_num_layers [simp]: "tr_num_layers (marked now1 now2 k i) = tr_num_layers i"
  by (simp add: marked_def Let_def)

lemma lt_reach_inv:
  "lt_reach l t \<Longrightarrow> ml_max_concurrent_requests l \<le> 65536 \<Longrightarrow>
   lt_inv t \<and> lt_layout t = l \<and> all_num_layers t"
proof (induction rule: lt_reach.induct)
  case reach_new
  show ?case by (simp add: lt_inv_new) (simp add: new_layer_tracker_def all_num_layers_def lt_find_def)
next
  case (reach_add t now rid p slot s t')
  then have "all_num_layers t'"
    unfolding all_num_layers_def using lt_add_find [OF reach_add(2)] by metis
  with reach_add lt_add_find(1) [OF reach_add(2)] lt_inv_add show ?case by blast
next
  case (reach_state t now rid st)
  then show ?case
    using lt_inv_update_state [of t now rid st]
    by (auto simp: all_num_layers_def lt_update_state_def lt_find_def lt_put_def Let_def split: option.splits)
next
  case (reach_remove t rid)
  then show ?case
    using lt_inv_remove [of t rid]
    by (auto simp: all_num_layers_def lt_remove_request_def lt_find_def split: option.splits)
next
  case (reach_mark t now1 now2 rid k)
  then show ?case
    using lt_inv_mark [of t now1 now2 rid k]
    by (auto simp: all_num_layers_def mark_cases split: option.splits)
qed

lemma live_layer:
  assumes "lt_reach l t" "ml_max_concurrent_requests l \<le> 65536" "lt_find t r = Some i" "k < length (tr_layers i)"
  shows "lm_offset (tr_layers i ! k) = layout_layer_offset l (tr_slot_id i) (int k)"
    "lm_size (tr_layers i ! k) = ml_layer_size_bytes l"
    "0 \<le> tr_slot_id i" "tr_slot_id i < ml_max_concurrent_requests l" "int k < ml_num_layers l"
proof -
  have "req_ok l r i" "tr_num_layers i = ml_num_layers l"
    using lt_reach_inv [OF assms(1,2)] assms(3) by (auto simp: lt_inv_def all_num_layers_def)
  then show "lm_offset (tr_layers i ! k) = layout_layer_offset l (tr_slot_id i) (int k)"
    "lm_size (tr_layers i ! k) = ml_layer_size_bytes l"
    "0 \<le> tr_slot_id i" "tr_slot_id i < ml_max_concurrent_requests l" "int k < ml_num_layers l"
    using assms(4) by (auto simp: req_ok_def)
qed

section \<open>Properties\<close>

definition small_layout :: memory_layout where
  "small_layout = \<lparr>ml_buffer_size_bytes = 4096, ml_max_concurrent_requests = 2, ml_num_layers = 3,
     ml_layer_size_bytes = 512\<rparr>"

definition two_requests :: layer_tracker where
  "two_requests = (case lt_add_request 0 ''a'' ''p'' 0 3 (new_layer_tracker small_layout) of
     Inl _ \<Rightarrow> new_layer_tracker small_layout
   | Inr (_, t) \<Rightarrow> (case lt_add_request 0 ''b'' ''p'' 1 3 t of Inl _ \<Rightarrow> t | Inr (_, t') \<Rightarrow> t'))"

lemma two_requests_reach: "lt_reach small_layout two_requests"
proof -
  let ?t0 = "new_layer_tracker small_layout"
  obtain s t where 1: "lt_add_request 0 ''a'' ''p'' 0 3 ?t0 = Inr (s, t)"
    by (simp add: lt_add_request_def new_layer_tracker_def small_layout_def slot_holder_def)
  then obtain s' t' where 2: "lt_add_request 0 ''b'' ''p'' 1 3 t = Inr (s', t')"
    by (auto simp: lt_add_request_def new_layer_tracker_def small_layout_def slot_holder_def Let_def)
  have n: "ml_num_layers small_layout = 3" by (simp add: small_layout_def)
  have "lt_reach small_layout t'"
    using reach_add [OF reach_add [OF reach_new, of 0 "''a''" "''p''" 0], of small_layout s t 0 "''b''" "''p''" 1 s' t'] 1 2
    by (simp add: n)
  then show ?thesis by (simp add: two_requests_def 1 2)
qed

text \<open>C17 When the configured slots, 65536 at most, fit the buffer, the memory of the layers of all requests a decode node
  tracks lies inside the buffer and no two layers, of one request or of two, overlap: an RDMA write to
  the offset of one layer never touches another.\<close>

theorem layer_memory_safety:
  assumes "lt_reach l t" and "layout_fits l" and "ml_max_concurrent_requests l \<le> 65536"
    and "lt_find t r = Some i" and "k < length (tr_layers i)"
    and "lt_find t r' = Some i'" and "k' < length (tr_layers i')" and "(r, k) \<noteq> (r', k')"
  defines "a \<equiv> tr_layers i ! k" and "b \<equiv> tr_layers i' ! k'"
  shows "uint (lm_offset a) + uint (lm_size a) \<le> uint (ml_buffer_size_bytes l)
    \<and> (uint (lm_offset a) + uint (lm_size a) \<le> uint (lm_offset b)
        \<or> uint (lm_offset b) + uint (lm_size b) \<le> uint (lm_offset a))"
proof -
  note A = live_layer [OF assms(1,3,4,5)] and B = live_layer [OF assms(1,3,6,7)]
  have "(tr_slot_id i, int k) \<noteq> (tr_slot_id i', int k')"
    using lt_reach_inv [OF assms(1,3)] assms(4,6,8) unfolding lt_inv_def by auto
  then show ?thesis
    using uint_layer_offset(2) [OF assms(2) A(3,4), of "int k"] A(5) B(5)
      layer_regions_disjoint [OF assms(2) A(3,4) _ A(5) B(3,4) _ B(5)]
    by (simp add: a_def b_def A(1,2) B(1,2))
qed

theorem layer_memory_safety_witness:
  "\<exists>i i'. lt_find two_requests ''a'' = Some i \<and> lt_find two_requests ''b'' = Some i' \<and>
     uint (lm_offset (tr_layers i ! 2)) + uint (lm_size (tr_layers i ! 2)) \<le> uint (ml_buffer_size_bytes small_layout)
     \<and> (uint (lm_offset (tr_layers i ! 2)) + uint (lm_size (tr_layers i ! 2)) \<le> uint (lm_offset (tr_layers i' ! 0))
       \<or> uint (lm_offset (tr_layers i' ! 0)) + uint (lm_size (tr_layers i' ! 0)) \<le> uint (lm_offset (tr_layers i ! 2)))"
proof -
  have fit: "layout_fits small_layout" "ml_max_concurrent_requests small_layout \<le> 65536"
    by (simp_all add: layout_fits_def small_layout_def)
  obtain i i' where "lt_find two_requests ''a'' = Some i" "length (tr_layers i) = 3"
    "lt_find two_requests ''b'' = Some i'" "length (tr_layers i') = 3"
    by (simp add: two_requests_def lt_add_request_def new_layer_tracker_def small_layout_def
        slot_holder_def lt_find_def)
  then show ?thesis
    using layer_memory_safety [OF two_requests_reach fit, of "''a''" i 2 "''b''" i' 0] by auto
qed

text \<open>C19 Completions find their request: with at most 65536 slots, as many as the 16 bits of the number tell apart, as long as a request is tracked, the sequence number that travels in
  the RDMA immediate resolves to it, is the one \<open>get_seq_num\<close> reports, and is its slot.\<close>

theorem seq_num_resolves:
  assumes "lt_reach l t" and "ml_max_concurrent_requests l \<le> 65536" and "lt_find t r = Some i"
  shows "resolve_seq_num (tr_seq_num i) t = r \<and> get_seq_num r t = tr_seq_num i
    \<and> tr_seq_num i = word_of_int (get_slot_id r t)"
proof -
  have "lt_inv t" using lt_reach_inv [OF assms(1,2)] by blast
  note D = lt_inv_D(2-4) [OF this assms(3)]
  show ?thesis using D(1,2) by (simp add: resolve_seq_num_def get_seq_num_def get_slot_id_def assms(3) D(3))
qed

theorem seq_num_resolves_witness:
  "\<exists>i. lt_find two_requests ''b'' = Some i \<and> resolve_seq_num (tr_seq_num i) two_requests = ''b''"
proof -
  obtain i where "lt_find two_requests ''b'' = Some i"
    by (simp add: two_requests_def lt_add_request_def new_layer_tracker_def small_layout_def
        slot_holder_def lt_find_def)
  then show ?thesis
    using seq_num_resolves [OF two_requests_reach, of "''b''" i] by (auto simp: small_layout_def)
qed

text \<open>The immediate is a bijection: packing a sequence number and a layer into 32 bits and unpacking them
  gives both back, and every immediate is the packing of what it unpacks to.\<close>

theorem layer_id_roundtrip:
  "decode_layer_id (encode_layer_id s l) = (s, l)
   \<and> (case decode_layer_id imm of (s', l') \<Rightarrow> encode_layer_id s' l' = imm)"
proof -
  have mask: "(0xFFFF :: u32) = mask 16" by (simp add: mask_eq_exp_minus_1)
  have "ucast (drop_bit 16 (encode_layer_id s l)) = s"
    unfolding encode_layer_id_def
    by (rule bit_word_eqI) (auto simp: bit_simps dest: bit_imp_le_length)
  moreover have "ucast (encode_layer_id s l AND 0xFFFF) = l"
    unfolding encode_layer_id_def mask by (rule bit_word_eqI) (auto simp: bit_simps)
  moreover have "encode_layer_id (ucast (drop_bit 16 imm)) (ucast (imm AND 0xFFFF)) = imm"
    unfolding encode_layer_id_def mask by (rule bit_word_eqI) (auto simp: bit_simps)
  ultimately show ?thesis by (simp add: decode_layer_id_def)
qed

text \<open>The default layout does not fit: with its 32 layers of 128 MiB in a 16 GiB buffer only slots 0 to 3
  of the 8 it offers lie inside the buffer; from slot 4 on even the first byte of the slot is outside.\<close>

theorem default_layout_overflows:
  "map (\<lambda>slot. validate_offset default_layout (layout_layer_offset default_layout (int slot) 31)
          (ml_layer_size_bytes default_layout)) [0..<8]
     = [True, True, True, True, False, False, False, False]
   \<and> ml_buffer_size_bytes default_layout \<le> get_slot_base_offset default_layout 4"
  by (simp add: upt_rec validate_offset_def layout_layer_offset_def get_slot_base_offset_def
      get_request_size_def default_layout_def)

section \<open>The end of a transfer is reported exactly once\<close>

text \<open>The poller marks layers in the order their completions arrive.\<close>

fun run_marks :: "clock \<Rightarrow> string \<Rightarrow> int list \<Rightarrow> layer_tracker \<Rightarrow> bool list \<times> layer_tracker" where
  "run_marks now rid [] t = ([], t)"
| "run_marks now rid (k # ks) t =
     (let (b, t) = mark_layer_received now now rid k t; (bs, t) = run_marks now rid ks t in (b # bs, t))"

definition counts_ok :: "int \<Rightarrow> tracked_request \<Rightarrow> bool" where
  "counts_ok n i \<longleftrightarrow> 0 \<le> n \<and> tr_num_layers i = n \<and> length (tr_layers i) = nat n
     \<and> tr_layers_received_count i = int (card (received_ids i))"

lemma received_sub: "counts_ok n i \<Longrightarrow> received_ids i \<subseteq> {0..<n}"
  by (auto simp: counts_ok_def received_ids_def)

lemma marked_step:
  assumes ok: "counts_ok n i" and k: "0 \<le> k" "k < n" "k \<notin> received_ids i"
  shows "counts_ok n (marked a b k i)" "received_ids (marked a b k i) = insert k (received_ids i)"
    "(tr_layers_received_count i + 1 = n) = (insert k (received_ids i) = {0..<n})"
    "insert k (received_ids i) = {0..<n} \<Longrightarrow> tr_state (marked a b k i) = State_READY_FOR_DECODE"
proof -
  have len: "length (tr_layers i) = nat (tr_num_layers i)" "k < tr_num_layers i"
    using ok k by (simp_all add: counts_ok_def)
  show ids: "received_ids (marked a b k i) = insert k (received_ids i)"
    using marked_facts(1) [OF len(1) k(1) len(2) k(3)] .
  have cnt: "tr_layers_received_count (marked a b k i) = tr_layers_received_count i + 1"
    "length (tr_layers (marked a b k i)) = length (tr_layers i)"
    by (simp_all add: marked_def Let_def)
  then show "counts_ok n (marked a b k i)"
    using ok k by (simp add: counts_ok_def ids)
  have sub: "insert k (received_ids i) \<subseteq> {0..<n}" using received_sub [OF ok] k by auto
  have "int (card (insert k (received_ids i))) = tr_layers_received_count i + 1"
    using ok k(3) by (simp add: counts_ok_def)
  moreover have "int (card {0..<n}) = n" using ok by (simp add: counts_ok_def)
  ultimately show eq: "(tr_layers_received_count i + 1 = n) = (insert k (received_ids i) = {0..<n})"
    using card_subset_eq [OF _ sub] by fastforce
  show "insert k (received_ids i) = {0..<n} \<Longrightarrow> tr_state (marked a b k i) = State_READY_FOR_DECODE"
    using eq ok by (simp add: marked_def Let_def counts_ok_def)
qed

lemma run_marks_spec:
  assumes "lt_find t rid = Some i" and "counts_ok n i"
    and "received_ids i = {0..<n} \<Longrightarrow> tr_state i = State_READY_FOR_DECODE"
    and "run_marks now rid ks t = (bs, t')"
  shows "count_list bs True = (if received_ids i \<noteq> {0..<n} \<and> {0..<n} \<subseteq> received_ids i \<union> set ks then 1 else 0)
    \<and> (\<exists>j. lt_find t' rid = Some j \<and> counts_ok n j \<and> received_ids j = received_ids i \<union> (set ks \<inter> {0..<n})
         \<and> (received_ids j = {0..<n} \<longrightarrow> tr_state j = State_READY_FOR_DECODE))"
  using assms
proof (induction ks arbitrary: t i bs)
  case Nil
  then show ?case using received_sub [of n i] by auto
next
  case (Cons k ks)
  have n: "tr_num_layers i = n" using Cons.prems(2) by (simp add: counts_ok_def)
  obtain b t1 bs' where m: "mark_layer_received now now rid k t = (b, t1)"
    "run_marks now rid ks t1 = (bs', t')" "bs = b # bs'"
    using Cons.prems(4) by (auto split: prod.splits)
  show ?case
  proof (cases "0 \<le> k \<and> k < n \<and> k \<notin> received_ids i")
    case False
    then have "b = False" "t1 = t" using m(1) Cons.prems(1) n by (auto simp: mark_cases split: if_splits)
    moreover have "received_ids i \<union> (set (k # ks) \<inter> {0..<n}) = received_ids i \<union> (set ks \<inter> {0..<n})"
      "{0..<n} \<subseteq> received_ids i \<union> set (k # ks) \<longleftrightarrow> {0..<n} \<subseteq> received_ids i \<union> set ks"
      using False by auto
    ultimately show ?thesis using Cons.IH [OF Cons.prems(1-3)] m by auto
  next
    case True
    note step = marked_step(1,2) [OF Cons.prems(2), of k now now] marked_step(3) [OF Cons.prems(2), of k]
      marked_step(4) [OF Cons.prems(2), of k now now]
    let ?j = "marked now now k i"
    have b: "b = (insert k (received_ids i) = {0..<n})" and t1: "lt_find t1 rid = Some ?j"
      using m(1) Cons.prems(1) n True step(3) by (auto simp: mark_cases split: if_splits)
    have ne: "received_ids i \<noteq> {0..<n}" using True by auto
    have "{0..<n} \<subseteq> received_ids i \<union> set (k # ks) \<longleftrightarrow> {0..<n} \<subseteq> insert k (received_ids i) \<union> set ks" by auto
    moreover have "received_ids i \<union> (set (k # ks) \<inter> {0..<n}) = insert k (received_ids i) \<union> (set ks \<inter> {0..<n})"
      using True by auto
    ultimately show ?thesis
      using Cons.IH [OF t1 step(1) _ m(2)] step(2,4) True b ne m(3) by auto
  qed
qed

text \<open>Whatever the order in which layers are marked, and however often the same layer or one out of range is
  marked, \<open>mark_layer_received\<close> returns true exactly once if every layer of the request has arrived, and
  never otherwise; the layers recorded are those that arrived, and the request is then ready for decode.\<close>

theorem transfer_complete_exactly_once:
  assumes "lt_add_request now rid p slot n t = Inr (s, t1)" and "0 < n"
    and "run_marks now' rid ks t1 = (bs, t2)"
  shows "count_list bs True = (if {0..<n} \<subseteq> set ks then 1 else 0)
    \<and> (\<exists>i. lt_find t2 rid = Some i \<and> received_ids i = set ks \<inter> {0..<n}
         \<and> ({0..<n} \<subseteq> set ks \<longrightarrow> tr_state i = State_READY_FOR_DECODE))"
proof -
  obtain i where i: "lt_find t1 rid = Some i" using lt_add_find(4) [OF assms(1)] by blast
  have ok: "counts_ok n i" "received_ids i = {}"
    using lt_add_find(3) [OF assms(1) i] by (simp_all add: counts_ok_def)
  have "{0..<n} \<noteq> {}" using assms(2) by simp
  then show ?thesis using run_marks_spec [OF i ok(1) _ assms(3)] ok(2) by (auto simp: inf_absorb2)
qed

theorem transfer_complete_exactly_once_witness:
  "\<exists>t1 bs t2. lt_add_request 0 ''a'' ''p'' 1 3 (new_layer_tracker small_layout) = Inr (1, t1)
     \<and> run_marks 5 ''a'' [2, 0, 2, 7, 1, 1] t1 = (bs, t2) \<and> count_list bs True = 1"
proof -
  obtain t1 where t1: "lt_add_request 0 ''a'' ''p'' 1 3 (new_layer_tracker small_layout) = Inr (1, t1)"
    by (simp add: lt_add_request_def new_layer_tracker_def small_layout_def slot_holder_def)
  obtain bs t2 where r: "run_marks 5 ''a'' [2, 0, 2, 7, 1, 1] t1 = (bs, t2)" by fastforce
  have "{0..<3} \<subseteq> set [2, 0, 2, 7, 1, 1 :: int]" by auto
  then show ?thesis using transfer_complete_exactly_once [OF t1 _ r] t1 r by auto
qed

end
