(* ===== verification/Verbs.thy ===== *)
theory Verbs
  imports Config
begin

text \<open>
  The low-level RDMA layer, \<open>src/cpp/rdma/gpudirect_rdma.h\<close> and \<open>.cpp\<close>. libibverbs and CUDA are parameters: what
  each call answers is an argument, and the calls that release something are recorded in the order they are made.
  A queue pair keeps what the calls on it set, and how many receive requests were ever posted to it. A failure that throws is the exception's place in a sum type.
\<close>

section \<open>State\<close>

record mem_region =
  mr_d_ptr :: u64
  mr_h_ptr :: u64
  mr_bytes :: u64
  mr_mr :: bool
  mr_lkey :: u32
  mr_rkey :: u32
  mr_addr :: u64

text \<open>The attributes the code reads of the device and the port.\<close>

record device_attr =
  da_max_cqe :: int
  da_max_qp_wr :: int
  da_max_sge :: int

record port_attr =
  pa_active :: bool
  pa_lid :: u16
  pa_active_mtu :: int

text \<open>The shared context; a handle is whether it is not null.\<close>

record rdma_context =
  rx_ctx :: bool
  rx_pd :: bool
  rx_send_cq :: bool
  rx_recv_cq :: bool
  rx_port_attr :: port_attr
  rx_dev_attr :: device_attr
  rx_mem :: mem_region
  rx_gpu_id :: int

definition null_context :: rdma_context where
  "null_context = \<lparr>rx_ctx = False, rx_pd = False, rx_send_cq = False, rx_recv_cq = False,
     rx_port_attr = \<lparr>pa_active = False, pa_lid = 0, pa_active_mtu = 0\<rparr>,
     rx_dev_attr = \<lparr>da_max_cqe = 0, da_max_qp_wr = 0, da_max_sge = 0\<rparr>,
     rx_mem = \<lparr>mr_d_ptr = 0, mr_h_ptr = 0, mr_bytes = 0, mr_mr = False, mr_lkey = 0, mr_rkey = 0, mr_addr = 0\<rparr>,
     rx_gpu_id = 0\<rparr>"

datatype qp_state = QPS_INIT | QPS_RTR | QPS_RTS

record queue_pair =
  qp_num :: u32
  qp_state :: qp_state
  qp_max_send_wr :: int
  qp_max_recv_wr :: int
  qp_recv_posted :: nat
  qp_port :: u8
  qp_ah_port :: u8
  qp_sgid_index :: u8
  qp_path_mtu :: int
  qp_dest_qp_num :: u32
  qp_rq_psn :: u32
  qp_sq_psn :: u32
  qp_dlid :: u16
  qp_dgid :: bytes

text \<open>One posted \<open>RDMA_WRITE_WITH_IMM\<close>. \<open>wr_imm\<close> holds the four bytes as they are in memory, read as a word.\<close>

record work_request =
  wr_id :: u64
  wr_sge_addr :: u64
  wr_sge_length :: u32
  wr_sge_lkey :: u32
  wr_signaled :: bool
  wr_imm :: u32
  wr_remote_addr :: u64
  wr_rkey :: u32

datatype verbs_call = Destroy_qp string | Destroy_send_cq | Destroy_recv_cq | Dereg_mr | Dealloc_pd
  | Close_device | Free_device_memory | Free_host_memory

datatype verbs_error = Bad_argument | Post_failed | No_device | Device_not_found | Open_failed | Query_failed
  | Port_down | Pd_failed | Cuda_failed | Register_failed | Cq_failed

definition IBV_MTU_4096 :: int where
  "IBV_MTU_4096 = 5"

definition mtu_to_enum :: "int \<Rightarrow> int" where
  "mtu_to_enum mtu = (if mtu = 256 then 1 else if mtu = 512 then 2 else if mtu = 1024 then 3
     else if mtu = 2048 then 4 else IBV_MTU_4096)"

definition mtu_enum_to_bytes :: "int \<Rightarrow> int" where
  "mtu_enum_to_bytes m = (if m = 1 then 256 else if m = 2 then 512 else if m = 3 then 1024
     else if m = 4 then 2048 else 4096)"

section \<open>Opening the device\<close>

text \<open>The answers: the device names, then whether opening and both queries succeed, what they report for the device and
  for each of its ports, and whether there is a protection domain. The port that is queried is always port 1, whichever port has been selected.\<close>

record open_calls =
  oa_names :: "string list"
  oa_open :: bool
  oa_device :: "device_attr option"
  oa_port :: "u8 \<Rightarrow> port_attr option"
  oa_pd :: bool

definition IB_PORT :: u8 where
  "IB_PORT = 1"

text \<open>The context is changed also where the function throws: every exit gives it back.\<close>

definition open_ib_device :: "open_calls \<Rightarrow> string \<Rightarrow> rdma_context \<Rightarrow> verbs_error option \<times> rdma_context" where
  "open_ib_device a name c =
     (if oa_names a = [] then (Some No_device, c)
      else if name \<noteq> [] \<and> name \<notin> set (oa_names a) then (Some Device_not_found, c)
      else if \<not> oa_open a then (Some Open_failed, c\<lparr>rx_ctx := False\<rparr>)
      else case oa_device a of
        None \<Rightarrow> (Some Query_failed, c\<lparr>rx_ctx := False\<rparr>)
      | Some d \<Rightarrow>
          (let c = c\<lparr>rx_ctx := True, rx_dev_attr := d\<rparr> in
           case oa_port a IB_PORT of
             None \<Rightarrow> (Some Query_failed, c\<lparr>rx_ctx := False\<rparr>)
           | Some p \<Rightarrow>
               (let c = c\<lparr>rx_port_attr := p\<rparr> in
                if \<not> pa_active p then (Some Port_down, c\<lparr>rx_ctx := False\<rparr>)
                else if \<not> oa_pd a then (Some Pd_failed, c\<lparr>rx_pd := False, rx_ctx := False\<rparr>)
                else (None, c\<lparr>rx_pd := True\<rparr>))))"

section \<open>Memory\<close>

text \<open>The answers of the allocations (null for a failure) and of \<open>ibv_reg_mr\<close>.\<close>

record mem_calls =
  ma_set_device :: bool
  ma_device_ptr :: u64
  ma_host_ptr :: u64
  ma_reg :: "(u32 \<times> u32) option"

text \<open>The GPU build: a failure of the host mirror's allocation leaves the device memory allocated.\<close>

definition alloc_and_register_gpu_mem ::
  "mem_calls \<Rightarrow> u64 \<Rightarrow> int \<Rightarrow> rdma_context \<Rightarrow> verbs_error option \<times> rdma_context" where
  "alloc_and_register_gpu_mem a n gpu c =
     (let c = c\<lparr>rx_gpu_id := gpu, rx_mem := (rx_mem c)\<lparr>mr_bytes := n\<rparr>\<rparr> in
      if \<not> ma_set_device a then (Some Cuda_failed, c)
      else if ma_device_ptr a = 0 then (Some Cuda_failed, c)
      else
        let c = c\<lparr>rx_mem := (rx_mem c)\<lparr>mr_d_ptr := ma_device_ptr a\<rparr>\<rparr> in
        if ma_host_ptr a = 0 then (Some Cuda_failed, c)
        else case ma_reg a of
          None \<Rightarrow> (Some Register_failed, c\<lparr>rx_mem := (rx_mem c)\<lparr>mr_mr := False, mr_d_ptr := 0, mr_h_ptr := 0\<rparr>\<rparr>)
        | Some (lkey, rkey) \<Rightarrow>
            (None, c\<lparr>rx_mem := (rx_mem c)\<lparr>mr_mr := True, mr_h_ptr := ma_host_ptr a, mr_lkey := lkey,
               mr_rkey := rkey, mr_addr := ma_device_ptr a\<rparr>\<rparr>))"

text \<open>The CPU build allocates one page-aligned buffer for both pointers.\<close>

definition alloc_and_register_cpu_mem ::
  "mem_calls \<Rightarrow> u64 \<Rightarrow> rdma_context \<Rightarrow> verbs_error option \<times> rdma_context" where
  "alloc_and_register_cpu_mem a n c =
     (let p = ma_host_ptr a in
      if p = 0 then (Some Cuda_failed, c)
      else case ma_reg a of
        None \<Rightarrow> (Some Register_failed, c\<lparr>rx_mem := (rx_mem c)\<lparr>mr_h_ptr := 0, mr_d_ptr := 0, mr_bytes := n, mr_mr := False\<rparr>\<rparr>)
      | Some (lkey, rkey) \<Rightarrow>
          (None, c\<lparr>rx_mem := (rx_mem c)\<lparr>mr_h_ptr := p, mr_d_ptr := p, mr_bytes := n, mr_mr := True,
             mr_lkey := lkey, mr_rkey := rkey, mr_addr := p\<rparr>\<rparr>))"

section \<open>Completion queues\<close>

definition create_cqs_only :: "bool \<Rightarrow> bool \<Rightarrow> rdma_context \<Rightarrow> verbs_error option \<times> rdma_context" where
  "create_cqs_only send_ok recv_ok c =
     (if \<not> send_ok then (Some Cq_failed, c\<lparr>rx_send_cq := False\<rparr>)
      else if \<not> recv_ok then (Some Cq_failed, c\<lparr>rx_send_cq := False, rx_recv_cq := False\<rparr>)
      else (None, c\<lparr>rx_send_cq := True, rx_recv_cq := True\<rparr>))"

section \<open>Data transfer\<close>

text \<open>\<open>posted\<close> is whether \<open>ibv_post_send\<close> accepts the request. The sum \<open>src_offset + len\<close> wraps.\<close>

definition post_rdma_write ::
  "bool \<Rightarrow> rdma_context \<Rightarrow> u64 \<Rightarrow> u64 \<Rightarrow> u64 \<Rightarrow> u64 \<Rightarrow> u32 \<Rightarrow> u32 \<Rightarrow> bool \<Rightarrow> verbs_error + work_request" where
  "post_rdma_write posted c src_off remote_off len remote_addr rkey imm signal =
     (if len = 0 then Inl Bad_argument
      else if src_off + len > mr_bytes (rx_mem c) then Inl Bad_argument
      else if \<not> posted then Inl Post_failed
      else Inr \<lparr>wr_id = ucast imm, wr_sge_addr = mr_addr (rx_mem c) + src_off, wr_sge_length = ucast len,
             wr_sge_lkey = mr_lkey (rx_mem c), wr_signaled = signal, wr_imm = htonl imm,
             wr_remote_addr = remote_addr + remote_off, wr_rkey = rkey\<rparr>)"

text \<open>Posting receive requests until one is refused: whether all were accepted, and how many were.\<close>

fun post_recvs :: "(nat \<Rightarrow> bool) \<Rightarrow> nat \<Rightarrow> nat \<Rightarrow> bool \<times> nat" where
  "post_recvs ok i 0 = (True, 0)"
| "post_recvs ok i (Suc n) =
     (if ok i then (let (all, k) = post_recvs ok (Suc i) n in (all, Suc k)) else (False, 0))"

text \<open>\<open>poll_send_cq\<close> over what successive polls return, \<open>None\<close> for an error and otherwise the success flags of the
  completions: whether \<open>count\<close> completions were reaped. An outer \<open>None\<close> is a loop still polling.\<close>

fun poll_sends :: "int \<Rightarrow> bool list option list \<Rightarrow> bool option" where
  "poll_sends count [] = (if count \<le> 0 then Some True else None)"
| "poll_sends count (p # ps) =
     (if count \<le> 0 then Some True
      else case p of
        None \<Rightarrow> Some False
      | Some wcs \<Rightarrow> if list_all id wcs then poll_sends (count - int (length wcs)) ps else Some False)"

section \<open>Teardown\<close>

text \<open>\<open>gpu\<close> is the build with GPU support.\<close>

definition destroy_rdma_context :: "bool \<Rightarrow> rdma_context \<Rightarrow> verbs_call list \<times> rdma_context" where
  "destroy_rdma_context gpu c =
     (let m = rx_mem c in
      ((if rx_send_cq c then [Destroy_send_cq] else []) @ (if rx_recv_cq c then [Destroy_recv_cq] else [])
        @ (if mr_mr m then [Dereg_mr] else []) @ (if rx_pd c then [Dealloc_pd] else [])
        @ (if rx_ctx c then [Close_device] else [])
        @ (if gpu then (if mr_d_ptr m \<noteq> 0 then [Free_device_memory] else []) else [])
        @ (if mr_h_ptr m \<noteq> 0 then [Free_host_memory] else []),
       c\<lparr>rx_send_cq := False, rx_recv_cq := False, rx_pd := False, rx_ctx := False,
         rx_mem := m\<lparr>mr_mr := False, mr_lkey := (if mr_mr m then 0 else mr_lkey m),
           mr_rkey := (if mr_mr m then 0 else mr_rkey m),
           mr_d_ptr := (if gpu \<or> mr_h_ptr m \<noteq> 0 then 0 else mr_d_ptr m), mr_h_ptr := 0,
           mr_bytes := 0, mr_addr := 0\<rparr>\<rparr>))"

lemma destroy_twice: "fst (destroy_rdma_context gpu (snd (destroy_rdma_context gpu c))) = []"
  by (simp add: destroy_rdma_context_def Let_def)

end
