(* ===== verification/RdmaEngine.thy ===== *)
theory RdmaEngine
  imports Verbs
begin

text \<open>
  The RDMA engine, \<open>src/cpp/rdma/rdma_engine.h\<close> and \<open>.cpp\<close>: one queue pair per expected peer over one shared
  context, the connection of the queue pairs, writes into a peer's buffer, and the receive side with its
  replenishment. What the verbs calls answer is an argument of each operation.
\<close>

section \<open>State\<close>

text \<open>\<open>peer_qps_\<close> is a \<open>std::map\<close>: a list in the order of its keys.\<close>

fun ordered_put :: "string \<Rightarrow> 'v \<Rightarrow> (string \<times> 'v) list \<Rightarrow> (string \<times> 'v) list" where
  "ordered_put k v [] = [(k, v)]"
| "ordered_put k v ((k', v') # m) =
     (if k = k' then (k, v) # m else if k < k' then (k, v) # (k', v') # m else (k', v') # ordered_put k v m)"

lemma map_of_ordered_put [simp, store_simps]: "map_of (ordered_put k v m) k' = (if k' = k then Some v else map_of m k')"
  by (induction k v m rule: ordered_put.induct) auto

lemma set_ordered_put: "map_of m k = None \<Longrightarrow> set (ordered_put k v m) = insert (k, v) (set m)"
  by (induction k v m rule: ordered_put.induct) (auto split: if_splits)

lemma sorted_ordered_put: "sorted_wrt (<) (map fst m) \<Longrightarrow> sorted_wrt (<) (map fst (ordered_put k v m))"
proof (induction k v m rule: ordered_put.induct)
  case (2 k v k' v' m)
  have keys: "fst ` set (ordered_put k v m) = insert k (fst ` set m)" for m :: "(string \<times> 'a) list"
    by (induction k v m rule: ordered_put.induct) auto
  show ?case using 2 keys [of m] by auto
qed simp

record rdma_engine =
  re_config :: config
  re_node_info :: node_info
  re_initialized :: bool
  re_replenish_failures :: int
  re_fatal :: bool
  re_ctx :: rdma_context
  re_peer_qps :: "(string \<times> queue_pair option) list"
  re_posted :: "(string \<times> work_request) list"
  re_destroyed :: "verbs_call list"

definition MAX_REPLENISH_FAILURES :: int where
  "MAX_REPLENISH_FAILURES = 5"

definition new_rdma_engine :: "config \<Rightarrow> node_info \<Rightarrow> rdma_engine" where
  "new_rdma_engine c n = \<lparr>re_config = c, re_node_info = n, re_initialized = False, re_replenish_failures = 0,
     re_fatal = False, re_ctx = null_context, re_peer_qps = [], re_posted = [], re_destroyed = []\<rparr>"

definition find_peer_info :: "string \<Rightarrow> rdma_engine \<Rightarrow> peer_info_and_qps option" where
  "find_peer_info pid e = List.find (\<lambda>q. pq_peer_node_id q = pid) (ni_qmaps (re_node_info e))"

section \<open>Initialisation\<close>

record ib_port_info =
  ip_dev_name :: string
  ip_port :: int
  ip_numa_node :: int
  ip_speed_gbps :: u64

record gpu_info =
  gi_id :: int
  gi_name :: string
  gi_mem_bytes :: u64
  gi_numa :: int

text \<open>The first port on the GPU's NUMA node, or of the higher speed within the same class.\<close>

definition better_port :: "int \<Rightarrow> ib_port_info \<Rightarrow> ib_port_info \<Rightarrow> ib_port_info" where
  "better_port numa best port =
     (let same_new = ip_numa_node port = numa; same_best = ip_numa_node best = numa in
      if same_new \<and> \<not> same_best then port
      else if same_new = same_best \<and> ip_speed_gbps port > ip_speed_gbps best then port
      else best)"

definition best_port :: "int \<Rightarrow> ib_port_info list \<Rightarrow> ib_port_info option" where
  "best_port numa ports = (case ports of [] \<Rightarrow> None | p # _ \<Rightarrow> Some (foldl (better_port numa) p ports))"

text \<open>\<open>gpus\<close> is what \<open>discover_gpus\<close> finds, \<open>None\<close> in the build without GPU support; \<open>ports\<close> what
  \<open>discover_ib_ports\<close> finds.\<close>

definition probe_and_bind_devices ::
  "gpu_info list option \<Rightarrow> ib_port_info list \<Rightarrow> rdma_engine \<Rightarrow> bool \<times> rdma_engine" where
  "probe_and_bind_devices gpus ports e =
     (if gpus = Some [] then (False, e)
      else
        let n = re_node_info e;
            (n, id) = (case gpus of
                None \<Rightarrow> (n\<lparr>ni_gpu_id := 0, ni_gpu_name := ''CPU-only'', ni_gpu_numa := 0\<rparr>, 0)
              | Some gs \<Rightarrow> (n\<lparr>ni_gpu_id := gi_id (hd gs), ni_gpu_name := gi_name (hd gs),
                  ni_gpu_mem_bytes := gi_mem_bytes (hd gs), ni_gpu_numa := gi_numa (hd gs)\<rparr>, gi_id (hd gs)));
            e = e\<lparr>re_node_info := n, re_ctx := (re_ctx e)\<lparr>rx_gpu_id := id\<rparr>\<rparr> in
        case best_port (ni_gpu_numa n) ports of
          None \<Rightarrow> (False, e)
        | Some p \<Rightarrow> (True, e\<lparr>re_node_info := n\<lparr>ni_ib_dev_name := ip_dev_name p, ni_ib_port := ip_port p,
            ni_ib_numa := ip_numa_node p, ni_ib_speed_gbps := ip_speed_gbps p\<rparr>\<rparr>))"

text \<open>\<open>gpu\<close> says which build. The new memory's keys and address go into the node info.\<close>

definition kv_bytes :: "config \<Rightarrow> u64" where
  "kv_bytes c = mc_kv_buffer_mb (cf_memory c) * 1024 * 1024"

definition alloc_and_register_memory :: "bool \<Rightarrow> mem_calls \<Rightarrow> rdma_engine \<Rightarrow> bool \<times> rdma_engine" where
  "alloc_and_register_memory gpu a e =
     (let n = kv_bytes (re_config e);
          (err, c) = (if gpu then alloc_and_register_gpu_mem a n (rx_gpu_id (re_ctx e)) (re_ctx e)
            else alloc_and_register_cpu_mem a n (re_ctx e));
          e = e\<lparr>re_ctx := c\<rparr>; m = rx_mem c in
      if err \<noteq> None then (False, e)
      else (True, e\<lparr>re_node_info := (re_node_info e)\<lparr>ni_gpu_base_addr := mr_addr m, ni_lkey := ucast (mr_lkey m),
        ni_rkey := ucast (mr_rkey m), ni_memory_pool_size := mr_bytes m\<rparr>\<rparr>))"

definition create_cqs :: "bool \<Rightarrow> bool \<Rightarrow> rdma_engine \<Rightarrow> bool \<times> rdma_engine" where
  "create_cqs send_ok recv_ok e =
     (let (err, c) = create_cqs_only send_ok recv_ok (re_ctx e) in (err = None, e\<lparr>re_ctx := c\<rparr>))"

text \<open>For one peer: the number of the new queue pair (\<open>None\<close> when creation fails), whether it reaches INIT, the random
  packet sequence number, and the GID at a port and an index when it can be queried. The queue pair is bound to the configured port, not to
  the one that has been selected.\<close>

record qp_calls =
  qa_create :: "u32 option"
  qa_init :: bool
  qa_psn :: u32
  qa_gid :: "u8 \<Rightarrow> int \<Rightarrow> bytes option"

definition create_qp_for_peer :: "qp_calls \<Rightarrow> string \<Rightarrow> rdma_engine \<Rightarrow> queue_pair option \<times> rdma_engine" where
  "create_qp_for_peer a pid e =
     (case qa_create a of
        None \<Rightarrow> (None, e)
      | Some n \<Rightarrow>
          (if \<not> qa_init a then (None, e\<lparr>re_destroyed := re_destroyed e @ [Destroy_qp pid]\<rparr>)
           else
             let r = cf_rdma (re_config e); d = rx_dev_attr (re_ctx e);
                 qp = \<lparr>qp_num = n, qp_state = QPS_INIT,
                   qp_max_send_wr = min (rc_qp_max_send_wr r) (da_max_qp_wr d),
                   qp_max_recv_wr = min (rc_qp_max_recv_wr r) (da_max_qp_wr d), qp_recv_posted = 0,
                   qp_port = word_of_int (rc_ib_port r), qp_ah_port = 0, qp_sgid_index = 0, qp_path_mtu = 0, qp_dest_qp_num = 0, qp_rq_psn = 0, qp_sq_psn = 0, qp_dlid = 0,
                   qp_dgid = replicate 16 0\<rparr>;
                 info = \<lparr>pq_peer_node_id = pid, pq_local_qp_num = n, pq_local_lid = pa_lid (rx_port_attr (re_ctx e)),
                   pq_local_gid = (case qa_gid a (word_of_int (rc_ib_port r)) (rc_gid_index r) of Some g \<Rightarrow> g | None \<Rightarrow> replicate 16 0),
                   pq_local_psn = qa_psn a AND 0x00FFFFFF, pq_remote_qp_num = 0, pq_remote_lid = 0,
                   pq_remote_gid = replicate 16 0, pq_remote_psn = 0, pq_remote_rkey = 0, pq_remote_addr = 0\<rparr>
             in (Some qp, e\<lparr>re_node_info := (re_node_info e)\<lparr>ni_qmaps := ni_qmaps (re_node_info e) @ [info]\<rparr>\<rparr>)))"

text \<open>Prefill nodes expect the configured decode nodes, decode nodes the prefill nodes.\<close>

definition expected_peers :: "rdma_engine \<Rightarrow> string list" where
  "expected_peers e =
     (if ni_role (re_node_info e) = PREFILL then map pc_node_id (cf_decode_nodes (re_config e))
      else if ni_role (re_node_info e) = DECODE then map pc_node_id (cf_prefill_nodes (re_config e))
      else [])"

fun create_qps :: "(string \<Rightarrow> qp_calls) \<Rightarrow> string list \<Rightarrow> rdma_engine \<Rightarrow> bool \<times> rdma_engine" where
  "create_qps a [] e = (True, e)"
| "create_qps a (pid # ps) e =
     (case create_qp_for_peer (a pid) pid e of
        (None, e) \<Rightarrow> (False, e)
      | (Some qp, e) \<Rightarrow> create_qps a ps (e\<lparr>re_peer_qps := ordered_put pid (Some qp) (re_peer_qps e)\<rparr>))"

record init_calls =
  ic_gpus :: "gpu_info list option"
  ic_ports :: "ib_port_info list"
  ic_bind :: bool
  ic_open :: open_calls
  ic_mem :: mem_calls
  ic_send_cq :: bool
  ic_recv_cq :: bool
  ic_qp :: "string \<Rightarrow> qp_calls"

text \<open>The steps in their order, each an early return when it fails; \<open>initialized_\<close> is set by the last one.\<close>

definition rdma_initialize :: "init_calls \<Rightarrow> rdma_engine \<Rightarrow> bool \<times> rdma_engine" where
  "rdma_initialize a e =
     (case probe_and_bind_devices (ic_gpus a) (ic_ports a) e of
        (False, e) \<Rightarrow> (False, e)
      | (True, e) \<Rightarrow>
     if ic_gpus a \<noteq> None \<and> \<not> ic_bind a then (False, e)
     else case open_ib_device (ic_open a) (ni_ib_dev_name (re_node_info e)) (re_ctx e) of
        (Some _, c) \<Rightarrow> (False, e\<lparr>re_ctx := c\<rparr>)
      | (None, c) \<Rightarrow>
     (case alloc_and_register_memory (ic_gpus a \<noteq> None) (ic_mem a) (e\<lparr>re_ctx := c\<rparr>) of
        (False, e) \<Rightarrow> (False, e)
      | (True, e) \<Rightarrow>
     (case create_cqs (ic_send_cq a) (ic_recv_cq a) e of
        (False, e) \<Rightarrow> (False, e)
      | (True, e) \<Rightarrow>
     (case create_qps (ic_qp a) (expected_peers e) e of
        (False, e) \<Rightarrow> (False, e)
      | (True, e) \<Rightarrow> (True, e\<lparr>re_initialized := True\<rparr>)))))"

section \<open>Connecting\<close>

text \<open>Whether the two transitions succeed. A queue pair that stops halfway keeps the state it reached.\<close>

definition connect_qp :: "bool \<Rightarrow> bool \<Rightarrow> config \<Rightarrow> port_attr \<Rightarrow> peer_info_and_qps \<Rightarrow> queue_pair \<Rightarrow> bool \<times> queue_pair" where
  "connect_qp rtr rts c port info qp =
     (if \<not> rtr then (False, qp)
      else
        let mtu = rc_mtu (cf_rdma c);
            qp = qp\<lparr>qp_state := QPS_RTR, qp_path_mtu := (if mtu > 0 then mtu_to_enum mtu else pa_active_mtu port),
              qp_dest_qp_num := pq_remote_qp_num info, qp_rq_psn := pq_remote_psn info,
              qp_ah_port := word_of_int (rc_ib_port (cf_rdma c)), qp_sgid_index := word_of_int (rc_gid_index (cf_rdma c)),
              qp_dlid := pq_remote_lid info, qp_dgid := pq_remote_gid info\<rparr> in
        if \<not> rts then (False, qp)
        else (True, qp\<lparr>qp_state := QPS_RTS, qp_sq_psn := pq_local_psn info\<rparr>))"

text \<open>A null queue pair fails in \<open>ibv_modify_qp\<close>, which dereferences it: no result.\<close>

definition connect_qp_to_peer ::
  "bool \<Rightarrow> bool \<Rightarrow> string \<Rightarrow> queue_pair option \<Rightarrow> rdma_engine \<Rightarrow> (bool \<times> queue_pair option) option" where
  "connect_qp_to_peer rtr rts pid qp e =
     (case find_peer_info pid e of
        None \<Rightarrow> Some (False, qp)
      | Some info \<Rightarrow>
          (if pq_remote_qp_num info = 0 then Some (False, qp)
           else case qp of
             None \<Rightarrow> None
           | Some q \<Rightarrow> (let (ok, q) = connect_qp rtr rts (re_config e) (rx_port_attr (re_ctx e)) info q
               in Some (ok, Some q))))"

text \<open>The loop over the map in key order, up to the first failure.\<close>

fun connect_loop :: "(string \<Rightarrow> bool \<times> bool) \<Rightarrow> rdma_engine \<Rightarrow> (string \<times> queue_pair option) list
  \<Rightarrow> (bool \<times> (string \<times> queue_pair option) list) option" where
  "connect_loop a e [] = Some (True, [])"
| "connect_loop a e ((pid, qp) # m) =
     (case connect_qp_to_peer (fst (a pid)) (snd (a pid)) pid qp e of
        None \<Rightarrow> None
      | Some (False, qp) \<Rightarrow> Some (False, (pid, qp) # m)
      | Some (True, qp) \<Rightarrow> map_option (\<lambda>(ok, m). (ok, (pid, qp) # m)) (connect_loop a e m))"

text \<open>All receive requests go to the first queue pair of the map. \<open>ok i\<close> is the answer to the \<open>i\<close>-th
  \<open>ibv_post_recv\<close>; a refusal throws and ends the loop, the requests already posted stay.\<close>

definition post_recv_wrs :: "(nat \<Rightarrow> bool) \<Rightarrow> int \<Rightarrow> rdma_engine \<Rightarrow> bool \<times> rdma_engine" where
  "post_recv_wrs ok count e =
     (case re_peer_qps e of
        [] \<Rightarrow> (False, e)
      | (pid, None) # _ \<Rightarrow> (False, e)
      | (pid, Some qp) # m \<Rightarrow>
          (let (all, k) = post_recvs ok 0 (nat count) in
           (all, e\<lparr>re_peer_qps := (pid, Some (qp\<lparr>qp_recv_posted := qp_recv_posted qp + k\<rparr>)) # m\<rparr>)))"

definition connect_all_qps :: "(string \<Rightarrow> bool \<times> bool) \<Rightarrow> (nat \<Rightarrow> bool) \<Rightarrow> rdma_engine \<Rightarrow> (bool \<times> rdma_engine) option" where
  "connect_all_qps a ok e =
     (case connect_loop a e (re_peer_qps e) of
        None \<Rightarrow> None
      | Some (connected, m) \<Rightarrow>
          (let e = e\<lparr>re_peer_qps := m\<rparr> in
           if \<not> connected then Some (False, e)
           else if ni_role (re_node_info e) = DECODE
             then Some (post_recv_wrs ok (rc_qp_max_recv_wr (cf_rdma (re_config e))) e)
           else Some (True, e)))"

section \<open>Shutdown\<close>

definition rdma_shutdown :: "bool \<Rightarrow> rdma_engine \<Rightarrow> rdma_engine" where
  "rdma_shutdown gpu e =
     (if \<not> re_initialized e then e
      else
        let qps = map (\<lambda>(pid, qp). Destroy_qp pid) (filter (\<lambda>(pid, qp). qp \<noteq> None) (re_peer_qps e));
            (calls, c) = destroy_rdma_context gpu (re_ctx e)
        in e\<lparr>re_peer_qps := [], re_ctx := c, re_initialized := False,
             re_destroyed := re_destroyed e @ qps @ calls\<rparr>)"

section \<open>Data transfer\<close>

definition find_qp :: "string \<Rightarrow> rdma_engine \<Rightarrow> queue_pair option option" where
  "find_qp pid e = map_of (re_peer_qps e) pid"

definition post_write ::
  "bool \<Rightarrow> string \<Rightarrow> u64 \<Rightarrow> u64 \<Rightarrow> u64 \<Rightarrow> u32 \<Rightarrow> bool \<Rightarrow> rdma_engine \<Rightarrow> bool \<times> rdma_engine" where
  "post_write posted pid src_off dst_off len imm signal e =
     (case find_qp pid e of
        None \<Rightarrow> (False, e)
      | Some _ \<Rightarrow>
          (case find_peer_info pid e of
             None \<Rightarrow> (False, e)
           | Some info \<Rightarrow>
               (case post_rdma_write posted (re_ctx e) src_off dst_off len (pq_remote_addr info)
                       (ucast (pq_remote_rkey info)) imm signal of
                  Inl _ \<Rightarrow> (False, e)
                | Inr wr \<Rightarrow> (True, e\<lparr>re_posted := re_posted e @ [(pid, wr)]\<rparr>))))"

text \<open>The lookup is \<open>peer_qps_[peer_id]\<close>, which adds a null entry for an unknown peer before anything is checked. The
  sum of offset and length wraps, and the length is cut to 32 bits.\<close>

definition post_write_external ::
  "bool \<Rightarrow> string \<Rightarrow> u64 \<Rightarrow> u32 \<Rightarrow> u64 \<Rightarrow> u64 \<Rightarrow> u32 \<Rightarrow> bool \<Rightarrow> rdma_engine \<Rightarrow> bool \<times> rdma_engine" where
  "post_write_external posted pid local_addr local_lkey remote_off len imm signal e =
     (let info = find_peer_info pid e;
          e = (case find_qp pid e of
                 None \<Rightarrow> e\<lparr>re_peer_qps := ordered_put pid None (re_peer_qps e)\<rparr> | Some _ \<Rightarrow> e) in
      case info of
        None \<Rightarrow> (False, e)
      | Some info \<Rightarrow>
          (if find_qp pid e = Some None then (False, e)
           else if remote_off + len > kv_bytes (re_config e) then (False, e)
           else if len = 0 then (True, e)
           else if \<not> posted then (False, e)
           else (True, e\<lparr>re_posted := re_posted e @ [(pid,
             \<lparr>wr_id = 0, wr_sge_addr = local_addr, wr_sge_length = ucast len, wr_sge_lkey = local_lkey,
              wr_signaled = signal, wr_imm = htonl imm, wr_remote_addr = pq_remote_addr info + remote_off,
              wr_rkey = ucast (pq_remote_rkey info)\<rparr>)]\<rparr>)))"

definition get_peer_id_from_qp_num :: "u32 \<Rightarrow> rdma_engine \<Rightarrow> string" where
  "get_peer_id_from_qp_num n e =
     (case List.find (\<lambda>(pid, qp). case qp of None \<Rightarrow> False | Some q \<Rightarrow> qp_num q = n) (re_peer_qps e) of
        None \<Rightarrow> ''unknown'' | Some (pid, _) \<Rightarrow> pid)"

text \<open>The result of \<open>RDMAEngine::poll_send_cq\<close>.\<close>

definition engine_poll_send_cq :: "int \<Rightarrow> bool list option list \<Rightarrow> int option" where
  "engine_poll_send_cq count ps = map_option (\<lambda>ok. if ok then count else -1) (poll_sends count ps)"

text \<open>A completion of the receive queue. \<open>wc_imm\<close> is the word as the poller reads it from memory.\<close>

record completion =
  wc_success :: bool
  wc_qp_num :: u32
  wc_imm :: u32

text \<open>\<open>polled\<close> is what \<open>ibv_poll_cq\<close> returns, \<open>None\<close> for an error; \<open>ok\<close> answers the posts of the replenishment.\<close>

definition poll_recv_cq ::
  "completion list option \<Rightarrow> (nat \<Rightarrow> bool) \<Rightarrow> rdma_engine \<Rightarrow> int \<times> completion list \<times> rdma_engine" where
  "poll_recv_cq polled ok e =
     (if \<not> rx_recv_cq (re_ctx e) then (-1, [], e)
      else case polled of
        None \<Rightarrow> (-1, [], e)
      | Some wcs \<Rightarrow>
          (if \<not> list_all wc_success wcs then (-1, wcs, e)
           else if wcs = [] then (0, wcs, e)
           else
             let n = int (length wcs); (posted, e) = post_recv_wrs ok n e in
             if posted then (n, wcs, e\<lparr>re_replenish_failures := 0\<rparr>)
             else
               let e = e\<lparr>re_replenish_failures := re_replenish_failures e + 1\<rparr> in
               if re_replenish_failures e \<ge> MAX_REPLENISH_FAILURES then (-1, wcs, e\<lparr>re_fatal := True\<rparr>)
               else (n, wcs, e)))"

section \<open>Choosing the port\<close>

lemma better_port_dom:
  "(ip_numa_node p = numa \<longrightarrow> ip_numa_node (better_port numa b p) = numa)
   \<and> (ip_numa_node b = numa \<longrightarrow> ip_numa_node (better_port numa b p) = numa)
   \<and> ((ip_numa_node (better_port numa b p) = numa) = (ip_numa_node p = numa) \<longrightarrow> ip_speed_gbps p \<le> ip_speed_gbps (better_port numa b p))
   \<and> ((ip_numa_node (better_port numa b p) = numa) = (ip_numa_node b = numa) \<longrightarrow> ip_speed_gbps b \<le> ip_speed_gbps (better_port numa b p))"
  by (auto simp: better_port_def Let_def)

text \<open>\<open>q\<close> is at least as good as \<open>p\<close>.\<close>

definition port_ge :: "int \<Rightarrow> ib_port_info \<Rightarrow> ib_port_info \<Rightarrow> bool" where
  "port_ge numa q p \<longleftrightarrow> (ip_numa_node p = numa \<longrightarrow> ip_numa_node q = numa)
     \<and> ((ip_numa_node q = numa) = (ip_numa_node p = numa) \<longrightarrow> ip_speed_gbps p \<le> ip_speed_gbps q)"

lemma port_ge_trans: "port_ge numa r q \<Longrightarrow> port_ge numa q p \<Longrightarrow> port_ge numa r p"
  by (auto simp: port_ge_def)

lemma better_port_ge: "port_ge numa (better_port numa b p) b" "port_ge numa (better_port numa b p) p"
  using better_port_dom [of p numa b] by (auto simp: port_ge_def)

lemma foldl_better_ge:
  "port_ge numa (foldl (better_port numa) b ps) b \<and> (\<forall>p \<in> set ps. port_ge numa (foldl (better_port numa) b ps) p)
   \<and> foldl (better_port numa) b ps \<in> insert b (set ps)"
proof (induction ps arbitrary: b)
  case (Cons p ps)
  let ?b = "better_port numa b p" and ?f = "foldl (better_port numa) (better_port numa b p) ps"
  have b: "?b = b \<or> ?b = p" by (auto simp: better_port_def Let_def)
  have f: "port_ge numa ?f ?b" "\<forall>q \<in> set ps. port_ge numa ?f q" "?f \<in> insert ?b (set ps)"
    using Cons.IH [of ?b] by blast+
  have "port_ge numa ?f b" "port_ge numa ?f p"
    using port_ge_trans [OF f(1)] better_port_ge [of numa b p] by blast+
  moreover have "?f \<in> insert b (set (p # ps))" using f(3) b by (metis insertE insertI1 insertI2 list.simps(15))
  ultimately show ?case using f(2) by (simp only: foldl_Cons list.set ball_simps)
qed (simp add: port_ge_def)

text \<open>Device binding takes the best port there is: one on the GPU's NUMA node whenever such a port exists, and the fastest
  of its kind. Its name, number, node and speed are what the node announces.\<close>

theorem probe_takes_best:
  assumes "probe_and_bind_devices gpus ports e = (True, e')"
  defines "n \<equiv> re_node_info e'"
  shows "\<exists>p \<in> set ports. ni_ib_dev_name n = ip_dev_name p \<and> ni_ib_port n = ip_port p \<and> ni_ib_numa n = ip_numa_node p
    \<and> ni_ib_speed_gbps n = ip_speed_gbps p \<and> (\<forall>q \<in> set ports. port_ge (ni_gpu_numa n) p q)"
proof -
  obtain p where p: "best_port (ni_gpu_numa n) ports = Some p" "ni_ib_dev_name n = ip_dev_name p"
    "ni_ib_port n = ip_port p" "ni_ib_numa n = ip_numa_node p" "ni_ib_speed_gbps n = ip_speed_gbps p"
    using assms by (auto simp: probe_and_bind_devices_def n_def Let_def split: if_splits option.splits)
  obtain b ps where ps: "ports = b # ps" "p = foldl (better_port (ni_gpu_numa n)) b ports"
    using p(1) by (simp add: best_port_def split: list.splits)
  have "p \<in> set ports" "\<forall>q \<in> set ports. port_ge (ni_gpu_numa n) p q"
    using foldl_better_ge [of "ni_gpu_numa n" b ports] ps by auto
  then show ?thesis using p(2-5) by blast
qed

section \<open>Writing to a peer\<close>

text \<open>C37 What the bounds check of a write to a peer guarantees. With the peer and its queue pair known and the verbs call accepted,
  a write of at least one byte is posted exactly when the end of the write, offset plus length modulo \<open>2^64\<close>, is within the
  size of this node's own buffer, which the code takes for the size of the peer's. A refused write changes nothing. A posted
  one goes to the peer's address plus the offset with the peer's key, takes the caller's memory, carries the immediate in
  network byte order and the length modulo \<open>2^32\<close>; it ends within that size of the peer's address exactly when offset plus
  length does not wrap.\<close>

theorem external_write_guard:
  fixes off len :: u64
  defines "end_at \<equiv> unat off + unat len"
  assumes "find_peer_info pid e = Some info" and "find_qp pid e = Some (Some qp)" and "len \<noteq> 0"
    and "post_write_external True pid addr lkey off len imm signal e = (ok, e')"
  shows "(ok \<longleftrightarrow> end_at mod 2 ^ 64 \<le> unat (kv_bytes (re_config e))) \<and> (\<not> ok \<longrightarrow> e' = e)
    \<and> (ok \<longrightarrow> (end_at \<le> unat (kv_bytes (re_config e)) \<longleftrightarrow> end_at < 2 ^ 64)
         \<and> (\<exists>wr. re_posted e' = re_posted e @ [(pid, wr)]
              \<and> wr_remote_addr wr = pq_remote_addr info + off \<and> wr_rkey wr = ucast (pq_remote_rkey info)
              \<and> wr_sge_addr wr = addr \<and> wr_sge_lkey wr = lkey \<and> unat (wr_sge_length wr) = unat len mod 2 ^ 32
              \<and> ntohl (wr_imm wr) = imm \<and> wr_signaled wr = signal))"
proof -
  have sum: "unat (off + len) = end_at mod 2 ^ 64" by (simp add: end_at_def unat_word_ariths)
  have ok: "ok \<longleftrightarrow> end_at mod 2 ^ 64 \<le> unat (kv_bytes (re_config e))"
    using assms(2-5) sum by (auto simp: post_write_external_def Let_def word_le_nat_alt not_less [symmetric] word_less_nat_alt)
  have wrap: "end_at \<le> unat (kv_bytes (re_config e)) \<longleftrightarrow> end_at < 2 ^ 64" if ok
    using ok that unsigned_less [of "kv_bytes (re_config e)", where ?'a = nat] by auto
  have "unat (ucast len :: u32) = unat len mod 2 ^ 32"
    by (simp add: unsigned_ucast_eq take_bit_eq_mod)
  then have wr: "\<exists>wr. re_posted e' = re_posted e @ [(pid, wr)]
      \<and> wr_remote_addr wr = pq_remote_addr info + off \<and> wr_rkey wr = ucast (pq_remote_rkey info)
      \<and> wr_sge_addr wr = addr \<and> wr_sge_lkey wr = lkey \<and> unat (wr_sge_length wr) = unat len mod 2 ^ 32
      \<and> ntohl (wr_imm wr) = imm \<and> wr_signaled wr = signal" if ok
    using assms(2-5) that by (auto simp: post_write_external_def Let_def split: if_splits)
  have "e' = e" if "\<not> ok"
    using assms(2-5) that by (auto simp: post_write_external_def Let_def split: if_splits)
  with ok wrap wr show ?thesis by blast
qed

definition sample_rdma_config :: config where
  "sample_rdma_config = \<lparr>cf_node_id = ''p0'', cf_client_socket_port = 9000, cf_server_socket_port = 9001,
     cf_hostname = ''h'', cf_replication_factor = 3, cf_vnodes_number = 1, cf_number_of_keys_hashtable = 10,
     cf_size_local_buffer = 1024, cf_client_event_queue_size = 1000, cf_worker_pool_size = 4,
     cf_orchestrator_host = ''h'', cf_orchestrator_port = 9001, cf_orchestrator_id = ''orch'',
     cf_vllm_port = 8000, cf_model_name = [], cf_num_layers = 32, cf_role = ''prefill'',
     cf_orchestrator_event_queue_size = 1000, cf_expected_decode_nodes = 1, cf_expected_prefill_nodes = 1,
     cf_prefill_nodes = [], cf_decode_nodes = [], cf_peers = [], cf_use_gpu = True,
     cf_rdma = default_rdma_config, cf_memory = default_memory_config,
     cf_gpu = \<lparr>gc_gpu_ids = [], gc_enable_peer_access = True, gc_require_same_numa = False\<rparr>\<rparr>"

definition sample_qp :: "u32 \<Rightarrow> queue_pair" where
  "sample_qp n = \<lparr>qp_num = n, qp_state = QPS_RTS, qp_max_send_wr = 64, qp_max_recv_wr = 64, qp_recv_posted = 0,
     qp_port = 1, qp_ah_port = 1, qp_sgid_index = 0, qp_path_mtu = 5, qp_dest_qp_num = 200, qp_rq_psn = 6, qp_sq_psn = 5, qp_dlid = 8, qp_dgid = replicate 16 2\<rparr>"

text \<open>A prefill node connected to the decode node \<open>d0\<close>.\<close>

definition connected_engine :: rdma_engine where
  "connected_engine = (new_rdma_engine sample_rdma_config sample_node)\<lparr>re_initialized := True,
     re_ctx := null_context\<lparr>rx_recv_cq := True\<rparr>, re_peer_qps := [(''d0'', Some (sample_qp 100))]\<rparr>"

lemma connected_peer: "find_peer_info ''d0'' connected_engine = Some sample_peer"
  by (simp add: find_peer_info_def connected_engine_def new_rdma_engine_def sample_node_def sample_peer_def)

text \<open>The check is passed with an offset that is far outside when offset plus length wraps to a small number.\<close>

theorem external_write_guard_witness:
  "\<exists>e' wr. post_write_external True ''d0'' 4096 1 (- 4096) 8192 7 True connected_engine = (True, e')
     \<and> re_posted e' = [(''d0'', wr)] \<and> ntohl (wr_imm wr) = 7 \<and> wr_remote_addr wr = 65536 - 4096
     \<and> \<not> unat (- 4096 :: u64) + unat (8192 :: u64) \<le> unat (kv_bytes (re_config connected_engine))"
proof -
  have qp: "find_qp ''d0'' connected_engine = Some (Some (sample_qp 100))" by (simp add: find_qp_def connected_engine_def)
  have bytes: "kv_bytes (re_config connected_engine) = 17179869184"
    by (simp add: connected_engine_def new_rdma_engine_def kv_bytes_def sample_rdma_config_def default_memory_config_def)
  obtain ok e' where e': "post_write_external True ''d0'' 4096 1 (- 4096) 8192 7 True connected_engine = (ok, e')" by fastforce
  note guard = external_write_guard [OF connected_peer qp _ this, unfolded bytes]
  have none: "re_posted connected_engine = []" by (simp add: connected_engine_def new_rdma_engine_def)
  have ok: ok using guard by simp
  with guard obtain wr where "re_posted e' = [(''d0'', wr)]" "wr_remote_addr wr = pq_remote_addr sample_peer + - 4096" "ntohl (wr_imm wr) = 7"
    by (auto simp: none)
  then show ?thesis using e' ok by (auto simp: bytes sample_peer_def)
qed

section \<open>The receive side\<close>

text \<open>What a decode node does to its receive queues after connecting, in any order.\<close>

datatype recv_op = Op_post "nat \<Rightarrow> bool" int | Op_poll "completion list option" "nat \<Rightarrow> bool"

fun recv_step :: "recv_op \<Rightarrow> rdma_engine \<Rightarrow> rdma_engine" where
  "recv_step (Op_post ok n) e = snd (post_recv_wrs ok n e)"
| "recv_step (Op_poll polled ok) e = snd (snd (poll_recv_cq polled ok e))"

lemma post_recv_wrs_tail:
  "tl (re_peer_qps (snd (post_recv_wrs ok n e))) = tl (re_peer_qps e)"
  "map fst (re_peer_qps (snd (post_recv_wrs ok n e))) = map fst (re_peer_qps e)"
  by (simp_all add: post_recv_wrs_def Let_def case_prod_unfold split: list.split option.split)

lemma poll_recv_tail:
  "tl (re_peer_qps (snd (snd (poll_recv_cq polled ok e)))) = tl (re_peer_qps e)"
  using post_recv_wrs_tail(1) [of ok _ e]
  by (auto simp: poll_recv_cq_def Let_def case_prod_unfold split: option.split)

lemma recv_step_tail: "tl (re_peer_qps (recv_step p e)) = tl (re_peer_qps e)"
  by (cases p) (simp_all add: post_recv_wrs_tail poll_recv_tail)

definition no_receives :: "(string \<times> queue_pair option) list \<Rightarrow> bool" where
  "no_receives m \<longleftrightarrow> list_all (\<lambda>(pid, qp). case qp of None \<Rightarrow> True | Some q \<Rightarrow> qp_recv_posted q = 0) m"

lemma connect_qp_posted: "qp_recv_posted (snd (connect_qp rtr rts c port info qp)) = qp_recv_posted qp"
  by (simp add: connect_qp_def Let_def)

lemma connect_loop_receives:
  "connect_loop a e m = Some (b, m') \<Longrightarrow> no_receives m \<Longrightarrow> no_receives m' \<and> map fst m' = map fst m"
proof (induction m arbitrary: b m')
  case (Cons x m)
  obtain pid qp where x: "x = (pid, qp)" by fastforce
  obtain ok qp' where c: "connect_qp_to_peer (fst (a pid)) (snd (a pid)) pid qp e = Some (ok, qp')"
    using Cons.prems(1) x by (auto split: option.splits)
  have "no_receives [(pid, qp')]"
    using c Cons.prems(2) x
    by (auto simp: connect_qp_to_peer_def no_receives_def Let_def case_prod_unfold connect_qp_posted
        split: option.splits if_splits)
  then show ?case using Cons c x by (cases ok) (auto simp: no_receives_def)
qed simp

text \<open>C38 Receive requests are posted to the queue pair of one peer only: after a successful connect of a decode node, and whatever posts and
  polls follow it, the queue pairs of all other peers never hold one. A verbs queue pair without a shared receive queue uses
  its own requests, so the first write from any other peer finds none.\<close>

theorem only_first_peer_can_deliver:
  fixes e1 :: rdma_engine and ops :: "recv_op list"
  assumes "no_receives (re_peer_qps e)" and "connect_all_qps a ok e = Some (True, e1)"
    and "ni_role (re_node_info e) = DECODE"
  defines "e2 \<equiv> foldl (\<lambda>e p. recv_step p e) e1 ops"
  shows "(\<exists>pid q. hd (re_peer_qps e1) = (pid, Some q) \<and> qp_recv_posted q = nat (rc_qp_max_recv_wr (cf_rdma (re_config e))))
    \<and> (\<forall>(pid, qp) \<in> set (tl (re_peer_qps e2)). \<forall>q. qp = Some q \<longrightarrow> qp_recv_posted q = 0)"
proof -
  obtain m where m: "connect_loop a e (re_peer_qps e) = Some (True, m)"
    and p: "post_recv_wrs ok (rc_qp_max_recv_wr (cf_rdma (re_config e))) (e\<lparr>re_peer_qps := m\<rparr>) = (True, e1)"
    using assms(2,3) by (auto simp: connect_all_qps_def Let_def split: option.splits prod.splits if_splits)
  have none: "no_receives m" using connect_loop_receives [OF m assms(1)] by simp
  have posts: "post_recvs f i n = (True, k) \<Longrightarrow> k = n" for f i n k
    by (induction f i n arbitrary: k rule: post_recvs.induct) (auto split: if_splits prod.splits)
  have first: "\<exists>pid q. hd (re_peer_qps e1) = (pid, Some q) \<and> qp_recv_posted q = nat (rc_qp_max_recv_wr (cf_rdma (re_config e)))"
    using p none
    by (auto simp: post_recv_wrs_def no_receives_def Let_def split: list.splits option.splits prod.splits dest!: posts)
  have "tl (re_peer_qps e2) = tl (re_peer_qps e1)" unfolding e2_def
    by (induction ops rule: rev_induct) (simp_all add: recv_step_tail)
  also have "\<dots> = tl m" using post_recv_wrs_tail(1) [of ok "rc_qp_max_recv_wr (cf_rdma (re_config e))" "e\<lparr>re_peer_qps := m\<rparr>"] by (simp add: p)
  finally have "no_receives (tl (re_peer_qps e2))" using none by (cases m) (simp_all add: no_receives_def)
  then show ?thesis using first by (auto simp: no_receives_def list_all_iff)
qed

text \<open>A decode node with two prefill peers, both queue pairs in INIT.\<close>

definition two_peer_engine :: rdma_engine where
  "two_peer_engine = (new_rdma_engine (sample_rdma_config\<lparr>cf_role := ''decode''\<rparr>)
     (sample_node\<lparr>ni_node_id := ''d0'', ni_role := DECODE,
        ni_qmaps := [sample_peer\<lparr>pq_peer_node_id := ''p0''\<rparr>, sample_peer\<lparr>pq_peer_node_id := ''p1''\<rparr>]\<rparr>))
     \<lparr>re_initialized := True, re_ctx := null_context\<lparr>rx_recv_cq := True\<rparr>,
      re_peer_qps := [(''p0'', Some ((sample_qp 100)\<lparr>qp_state := QPS_INIT\<rparr>)), (''p1'', Some ((sample_qp 101)\<lparr>qp_state := QPS_INIT\<rparr>))]\<rparr>"

lemma post_recvs_all [simp]: "post_recvs (\<lambda>_. True) i n = (True, n)"
  by (induction n arbitrary: i) simp_all

theorem only_first_peer_can_deliver_witness:
  "\<exists>e1 pid q. connect_all_qps (\<lambda>_. (True, True)) (\<lambda>_. True) two_peer_engine = Some (True, e1)
     \<and> hd (re_peer_qps e1) = (pid, Some q) \<and> qp_recv_posted q = 64"
proof -
  have "\<exists>e1. connect_all_qps (\<lambda>_. (True, True)) (\<lambda>_. True) two_peer_engine = Some (True, e1)"
    by (simp add: connect_all_qps_def two_peer_engine_def new_rdma_engine_def connect_qp_to_peer_def find_peer_info_def
        sample_peer_def connect_qp_def post_recv_wrs_def Let_def)
  then obtain e1 where e1: "connect_all_qps (\<lambda>_. (True, True)) (\<lambda>_. True) two_peer_engine = Some (True, e1)" ..
  have "no_receives (re_peer_qps two_peer_engine)" "ni_role (re_node_info two_peer_engine) = DECODE"
    "rc_qp_max_recv_wr (cf_rdma (re_config two_peer_engine)) = 64"
    by (simp_all add: two_peer_engine_def no_receives_def sample_qp_def new_rdma_engine_def sample_rdma_config_def
        default_rdma_config_def)
  then show ?thesis using only_first_peer_can_deliver [OF _ e1, of "[]"] e1 by auto
qed

text \<open>A write to a peer this node does not know is refused, but it leaves a null queue pair in the map: when that peer's
  id sorts before all others, every later attempt to post receive requests fails.\<close>

theorem unknown_peer_poisons_receives:
  assumes "find_peer_info pid e = None" and "\<forall>k \<in> fst ` set (re_peer_qps e). pid < k"
  shows "case post_write_external posted pid addr lkey off len imm signal e of (ok, e') \<Rightarrow>
    \<not> ok \<and> post_recv_wrs f n e' = (False, e') \<and> tl (re_peer_qps e') = re_peer_qps e"
proof -
  have "map_of (re_peer_qps e) pid = None" using assms(2) by (force simp: map_of_eq_None_iff)
  moreover have "ordered_put pid None (re_peer_qps e) = (pid, None) # re_peer_qps e"
    using assms(2) by (cases "re_peer_qps e" rule: list.exhaust) auto
  ultimately show ?thesis
    using assms(1) by (simp add: post_write_external_def find_qp_def post_recv_wrs_def Let_def)
qed

theorem unknown_peer_poisons_receives_witness:
  "\<not> fst (post_recv_wrs (\<lambda>_. True) 1 (snd (post_write_external True ''a'' 0 0 0 1 0 True two_peer_engine)))"
proof -
  have "find_peer_info ''a'' two_peer_engine = None"
    by (simp add: find_peer_info_def two_peer_engine_def new_rdma_engine_def)
  moreover have "\<forall>k \<in> fst ` set (re_peer_qps two_peer_engine). ''a'' < k"
    by (simp add: two_peer_engine_def)
  ultimately show ?thesis
    using unknown_peer_poisons_receives [where pid = "''a''" and e = two_peer_engine and posted = True and addr = 0
        and lkey = 0 and off = 0 and len = 1 and imm = 0 and signal = True and f = "\<lambda>_. True" and n = 1]
    by (auto split: prod.splits)
qed

text \<open>After a run of polls that delivered completions and could not post receive requests again, the engine is fatal exactly
  if there were at least five of them.\<close>

theorem fatal_after_five_failures:
  assumes "rx_recv_cq (re_ctx e)" and "re_replenish_failures e = 0" and "\<not> re_fatal e"
    and "list_all (\<lambda>wcs. wcs \<noteq> [] \<and> list_all wc_success wcs) batches"
  defines "e' \<equiv> foldl (\<lambda>e wcs. snd (snd (poll_recv_cq (Some wcs) (\<lambda>_. False) e))) e batches"
  shows "(re_fatal e' \<longleftrightarrow> 5 \<le> length batches) \<and> re_replenish_failures e' = int (length batches)"
proof -
  have fail: "fst (post_recv_wrs (\<lambda>_. False) (int (length wcs)) e) = False \<and>
      (let e' = snd (post_recv_wrs (\<lambda>_. False) (int (length wcs)) e) in re_ctx e' = re_ctx e
        \<and> re_replenish_failures e' = re_replenish_failures e \<and> re_fatal e' = re_fatal e)" if ne: "wcs \<noteq> []" for wcs :: "completion list" and e
  proof -
    obtain k where "length wcs = Suc k" using ne by (cases wcs) auto
    then have "nat (int (length wcs)) = Suc k" by (simp only: nat_int)
    then have "post_recvs (\<lambda>_. False) 0 (nat (int (length wcs))) = (False, 0)"
      by (simp only: post_recvs.simps if_False)
    then show ?thesis by (simp add: post_recv_wrs_def Let_def split: list.split option.split)
  qed
  have "rx_recv_cq (re_ctx e') \<and> (re_fatal e' \<longleftrightarrow> 5 \<le> length batches) \<and> re_replenish_failures e' = int (length batches)"
    using assms(4) unfolding e'_def
  proof (induction batches rule: rev_induct)
    case (snoc wcs bs)
    let ?e = "foldl (\<lambda>e wcs. snd (snd (poll_recv_cq (Some wcs) (\<lambda>_. False) e))) e bs"
    have "wcs \<noteq> []" "list_all wc_success wcs" using snoc.prems by simp_all
    then show ?case
      using snoc fail [of wcs ?e]
      by (auto simp: poll_recv_cq_def Let_def MAX_REPLENISH_FAILURES_def case_prod_unfold)
  qed (use assms(1-3) in auto)
  then show ?thesis by blast
qed

theorem fatal_after_five_failures_witness:
  "re_fatal (foldl (\<lambda>e wcs. snd (snd (poll_recv_cq (Some wcs) (\<lambda>_. False) e))) two_peer_engine
     (replicate 5 [\<lparr>wc_success = True, wc_qp_num = 100, wc_imm = 0\<rparr>]))"
proof -
  have e: "rx_recv_cq (re_ctx two_peer_engine)" "re_replenish_failures two_peer_engine = 0" "\<not> re_fatal two_peer_engine"
    by (simp_all add: two_peer_engine_def new_rdma_engine_def)
  have "list_all (\<lambda>wcs. wcs \<noteq> [] \<and> list_all wc_success wcs)
      (replicate 5 [\<lparr>wc_success = True, wc_qp_num = 100, wc_imm = 0\<rparr>])" by (simp add: list_all_iff)
  from fatal_after_five_failures [OF e this] show ?thesis by simp
qed

section \<open>Cleaning up\<close>

lemma create_qps_initialized: "create_qps a ps e = (b, e') \<Longrightarrow> re_initialized e' = re_initialized e"
  by (induction a ps e rule: create_qps.induct)
    (auto simp: create_qp_for_peer_def Let_def split: option.splits prod.splits if_splits)

lemma failed_initialize:
  "rdma_initialize a e = (False, e') \<Longrightarrow> re_initialized e' = re_initialized e"
  by (auto simp: rdma_initialize_def probe_and_bind_devices_def alloc_and_register_memory_def create_cqs_def Let_def
      split: option.splits prod.splits if_splits bool.splits dest!: create_qps_initialized)

text \<open>An initialization that fails partway is never undone: it leaves the engine uninitialized, and \<open>shutdown\<close>, which the
  destructor also calls, returns at once for such an engine, whatever device, memory region, completion queues or queue
  pairs it already holds.\<close>

theorem failed_initialization_leaks:
  assumes "rdma_initialize a e = (False, e')" and "\<not> re_initialized e"
  shows "rdma_shutdown gpu e' = e'"
  using failed_initialize [OF assms(1)] assms(2) by (simp add: rdma_shutdown_def)

definition sample_init_calls :: init_calls where
  "sample_init_calls = \<lparr>ic_gpus = None,
     ic_ports = [\<lparr>ip_dev_name = ''mlx5_0'', ip_port = 1, ip_numa_node = 0, ip_speed_gbps = 100\<rparr>], ic_bind = True,
     ic_open = \<lparr>oa_names = [''mlx5_0''], oa_open = True, oa_device = Some \<lparr>da_max_cqe = 1000, da_max_qp_wr = 100, da_max_sge = 4\<rparr>,
       oa_port = (\<lambda>_. Some \<lparr>pa_active = True, pa_lid = 7, pa_active_mtu = 5\<rparr>), oa_pd = True\<rparr>,
     ic_mem = \<lparr>ma_set_device = True, ma_device_ptr = 0, ma_host_ptr = 65536, ma_reg = Some (1, 2)\<rparr>,
     ic_send_cq = True, ic_recv_cq = True,
     ic_qp = (\<lambda>pid. \<lparr>qa_create = (if pid = ''d1'' then None else Some 100), qa_init = True, qa_psn = 5, qa_gid = (\<lambda>_ _. None)\<rparr>)\<rparr>"

theorem failed_initialization_leaks_witness:
  "\<exists>e'. rdma_initialize sample_init_calls (new_rdma_engine (sample_rdma_config\<lparr>cf_decode_nodes :=
       [\<lparr>pc_node_id = ''d0'', pc_hostname = ''h'', pc_client_socket_port = 1, pc_server_socket_port = 2\<rparr>,
        \<lparr>pc_node_id = ''d1'', pc_hostname = ''h'', pc_client_socket_port = 3, pc_server_socket_port = 4\<rparr>]\<rparr>) sample_node)
       = (False, e')
     \<and> rx_ctx (re_ctx (rdma_shutdown False e')) \<and> mr_mr (rx_mem (re_ctx (rdma_shutdown False e')))
     \<and> map fst (re_peer_qps (rdma_shutdown False e')) = [''d0'']"
proof -
  let ?e = "new_rdma_engine (sample_rdma_config\<lparr>cf_decode_nodes :=
       [\<lparr>pc_node_id = ''d0'', pc_hostname = ''h'', pc_client_socket_port = 1, pc_server_socket_port = 2\<rparr>,
        \<lparr>pc_node_id = ''d1'', pc_hostname = ''h'', pc_client_socket_port = 3, pc_server_socket_port = 4\<rparr>]\<rparr>) sample_node"
  have "case rdma_initialize sample_init_calls ?e of (ok, e') \<Rightarrow> \<not> ok \<and> rx_ctx (re_ctx e') \<and> mr_mr (rx_mem (re_ctx e'))
      \<and> map fst (re_peer_qps e') = [''d0'']"
    by code_simp
  then obtain e' where e': "rdma_initialize sample_init_calls ?e = (False, e')" "rx_ctx (re_ctx e')" "mr_mr (rx_mem (re_ctx e'))"
    "map fst (re_peer_qps e') = [''d0'']" by (auto split: prod.splits)
  have "\<not> re_initialized ?e" by (simp add: new_rdma_engine_def)
  from failed_initialization_leaks [OF e'(1) this, of False] e' show ?thesis by simp
qed

end
