(* ===== verification/NodeWorker.thy ===== *)
theory NodeWorker
  imports EpollLoop TrackerLayer RdmaEngine
begin

text \<open>
  A prefill or decode node: the handlers of \<open>src/cpp/nodes/worker_node.cpp\<close> and the lifecycle and RDMA polling of
  \<open>src/cpp/nodes/node.cpp\<close>. vLLM, reached over HTTP, is a parameter that maps a request to an answer; the requests
  sent to it are recorded. An exception that leaves a worker thread ends the process: \<open>Terminated\<close>.
\<close>

section \<open>State\<close>

datatype node_state = Node_STARTING | Node_WAITING_FOR_BROADCAST | Node_RUNNING | Node_STOPPED

text \<open>The fields of the JSON requests, the sampling temperature left out.\<close>

record prefill_call =
  pv_model :: string
  pv_prompt :: string
  pv_max_tokens :: int
  pv_rdma_device :: string
  pv_rdma_port :: int
  pv_rdma_gid_index :: int
  pv_peer_id :: string
  pv_qp_num :: u32
  pv_remote_addr :: u64
  pv_remote_rkey :: u64
  pv_layer_size :: u64
  pv_request_id :: string
  pv_slot_id :: int
  pv_slot_base_offset :: u64
  pv_request_seq :: int

record decode_call =
  dv_model :: string
  dv_prompt :: string
  dv_rdma_device :: string
  dv_rdma_port :: int
  dv_rdma_gid_index :: int
  dv_max_tokens :: int
  dv_slot_id :: int
  dv_slot_base_offset :: u64
  dv_layer_size :: u64
  dv_num_layers :: int
  dv_num_tokens :: int
  dv_request_id :: string

text \<open>What a post to vLLM ends in: a failed transfer or status, an exception of the JSON library (a body without the expected
  fields, or a request whose strings are not UTF-8), or the value the node reads from the body.\<close>

datatype 'a vllm_answer = Vllm_failed | Vllm_malformed | Vllm_ok 'a

text \<open>\<open>nd_poll_thread\<close> is whether the polling thread has been started and not joined: destroying a node in that state ends the
  process. The node info lives in the engine, which shares it with the workers and the I/O thread.\<close>

record node =
  nd_config :: config
  nd_epoll :: epoll_worker
  nd_orchestrator_fd :: int
  nd_engine :: rdma_engine
  nd_tracker :: layer_tracker
  nd_state :: node_state
  nd_running :: bool
  nd_pool_running :: bool
  nd_poll_running :: bool
  nd_poll_thread :: bool
  nd_server_fd :: int
  nd_vllm_pid :: int
  nd_vllm_servers :: "int list"
  nd_events_processed :: u64
  nd_prefill_calls :: "prefill_call list"
  nd_decode_calls :: "decode_call list"

abbreviation node_info_of :: "node \<Rightarrow> node_info" where
  "node_info_of n \<equiv> re_node_info (nd_engine n)"

text \<open>What one event takes from outside: the clocks, indeterminate message content, vLLM's answers, and how starting vLLM goes.\<close>

record node_env =
  ne_ns :: u64
  ne_clock :: "nat \<Rightarrow> clock"
  ne_message :: message
  ne_prefill :: "prefill_call \<Rightarrow> int vllm_answer"
  ne_decode :: "decode_call \<Rightarrow> string vllm_answer"
  ne_connect :: "string \<Rightarrow> bool \<times> bool"
  ne_post_recv :: "nat \<Rightarrow> bool"
  ne_mooncake_file :: bool
  ne_fork :: int

datatype outcome = Returns node | Terminated

definition send_orchestrator :: "message \<Rightarrow> node \<Rightarrow> node" where
  "send_orchestrator m n = n\<lparr>nd_epoll := enqueue_response (nd_orchestrator_fd n) m (nd_epoll n)\<rparr>"

definition layer_bytes :: "config \<Rightarrow> u64" where
  "layer_bytes c = mc_layer_size_mb (cf_memory c) * 1024 * 1024"

section \<open>Exchanging queue pairs\<close>

text \<open>The entry for a peer takes that peer's entry for this node. No such entry, or a queue pair number of zero,
  throws.\<close>

definition fill_remote :: "string \<Rightarrow> node_info \<Rightarrow> peer_info_and_qps \<Rightarrow> peer_info_and_qps option" where
  "fill_remote self peer q =
     (case List.find (\<lambda>p. pq_peer_node_id p = self) (ni_qmaps peer) of
        None \<Rightarrow> None
      | Some p \<Rightarrow>
          (let q = q\<lparr>pq_remote_qp_num := pq_local_qp_num p, pq_remote_lid := pq_local_lid p,
                 pq_remote_gid := pq_local_gid p, pq_remote_psn := pq_local_psn p,
                 pq_remote_rkey := ni_rkey peer, pq_remote_addr := ni_gpu_base_addr peer\<rparr> in
           if pq_remote_qp_num q = 0 then None else Some q))"

fun exchange_qps :: "string \<Rightarrow> node_info list \<Rightarrow> peer_info_and_qps list \<Rightarrow> peer_info_and_qps list option" where
  "exchange_qps self [] qs = Some qs"
| "exchange_qps self (peer # ps) qs =
     (if ni_node_id peer = self then exchange_qps self ps qs
      else map_opt (\<lambda>q. if pq_peer_node_id q = ni_node_id peer then fill_remote self peer q else Some q) qs
        \<bind> exchange_qps self ps)"

definition set_qmaps :: "peer_info_and_qps list \<Rightarrow> node \<Rightarrow> node" where
  "set_qmaps qs n = n\<lparr>nd_engine := (nd_engine n)\<lparr>re_node_info := (node_info_of n)\<lparr>ni_qmaps := qs\<rparr>\<rparr>\<rparr>"

text \<open>vLLM is a child process. Without GPU support a configuration file comes first, and a failure to write it returns before the
  \<open>fork\<close>. What \<open>fork\<close> returns to the parent replaces the process id in \<open>vllm_pid\<close>, also the failure -1; the servers that run are
  those that have been forked and not been terminated, remembered or not.\<close>

definition start_vllm :: "bool \<Rightarrow> int \<Rightarrow> node \<Rightarrow> node" where
  "start_vllm file pid n =
     (if \<not> cf_use_gpu (nd_config n) \<and> \<not> file then n
      else n\<lparr>nd_vllm_pid := pid, nd_vllm_servers := nd_vllm_servers n @ (if pid > 0 then [pid] else [])\<rparr>)"

definition terminate_vllm :: "node \<Rightarrow> node" where
  "terminate_vllm n =
     (if nd_vllm_pid n > 0 then n\<lparr>nd_vllm_servers := filter (\<lambda>p. p \<noteq> nd_vllm_pid n) (nd_vllm_servers n)\<rparr> else n)"

lemma start_vllm_sel [simp]:
  "nd_config (start_vllm f p n) = nd_config n" "nd_epoll (start_vllm f p n) = nd_epoll n"
  "nd_orchestrator_fd (start_vllm f p n) = nd_orchestrator_fd n" "nd_engine (start_vllm f p n) = nd_engine n"
  "nd_tracker (start_vllm f p n) = nd_tracker n" "nd_state (start_vllm f p n) = nd_state n"
  "nd_running (start_vllm f p n) = nd_running n" "nd_pool_running (start_vllm f p n) = nd_pool_running n"
  "nd_poll_running (start_vllm f p n) = nd_poll_running n" "nd_poll_thread (start_vllm f p n) = nd_poll_thread n"
  "nd_server_fd (start_vllm f p n) = nd_server_fd n" "nd_events_processed (start_vllm f p n) = nd_events_processed n"
  "nd_prefill_calls (start_vllm f p n) = nd_prefill_calls n" "nd_decode_calls (start_vllm f p n) = nd_decode_calls n"
  by (simp_all add: start_vllm_def)

lemma terminate_vllm_sel [simp]:
  "nd_config (terminate_vllm n) = nd_config n" "nd_epoll (terminate_vllm n) = nd_epoll n"
  "nd_orchestrator_fd (terminate_vllm n) = nd_orchestrator_fd n" "nd_engine (terminate_vllm n) = nd_engine n"
  "nd_tracker (terminate_vllm n) = nd_tracker n" "nd_state (terminate_vllm n) = nd_state n"
  "nd_running (terminate_vllm n) = nd_running n" "nd_pool_running (terminate_vllm n) = nd_pool_running n"
  "nd_poll_running (terminate_vllm n) = nd_poll_running n" "nd_poll_thread (terminate_vllm n) = nd_poll_thread n"
  "nd_server_fd (terminate_vllm n) = nd_server_fd n" "nd_events_processed (terminate_vllm n) = nd_events_processed n"
  "nd_prefill_calls (terminate_vllm n) = nd_prefill_calls n" "nd_decode_calls (terminate_vllm n) = nd_decode_calls n"
  by (simp_all add: terminate_vllm_def)

text \<open>A failed connection is logged and the handler goes on: vLLM is started, the ready message sent.\<close>

definition handle_broadcast_member_info :: "node_env \<Rightarrow> message \<Rightarrow> node \<Rightarrow> outcome" where
  "handle_broadcast_member_info e m n =
     (case exchange_qps (ni_node_id (node_info_of n)) (msg_membership_list_info m) (ni_qmaps (node_info_of n)) of
        None \<Rightarrow> Terminated
      | Some qs \<Rightarrow>
          (let n = set_qmaps qs n in
           case (if cf_use_gpu (nd_config n) then connect_all_qps (ne_connect e) (ne_post_recv e) (nd_engine n)
                 else Some (True, nd_engine n)) of
             None \<Rightarrow> Terminated
           | Some (connected, eng) \<Rightarrow>
               (let n = start_vllm (ne_mooncake_file e) (ne_fork e) (n\<lparr>nd_engine := eng\<rparr>) in
                Returns ((send_orchestrator (create_rdma_ready (ne_ns e) (ne_message e) (ni_node_id (node_info_of n))) n)
                  \<lparr>nd_state := Node_RUNNING\<rparr>))))"

section \<open>Prefill\<close>

definition prefill_request :: "config \<Rightarrow> node_info \<Rightarrow> peer_info_and_qps \<Rightarrow> request_info \<Rightarrow> prefill_call" where
  "prefill_request c self peer r = \<lparr>pv_model = cf_model_name c, pv_prompt = ri_prompt r, pv_max_tokens = 1,
     pv_rdma_device = ni_ib_dev_name self, pv_rdma_port = ni_ib_port self,
     pv_rdma_gid_index = rc_gid_index (cf_rdma c), pv_peer_id = ri_decode_node_id r,
     pv_qp_num = pq_local_qp_num peer, pv_remote_addr = pq_remote_addr peer, pv_remote_rkey = pq_remote_rkey peer,
     pv_layer_size = layer_bytes c, pv_request_id = ri_request_id r, pv_slot_id = ri_slot_id r,
     pv_slot_base_offset = ri_slot_base_offset r, pv_request_seq = ri_slot_id r\<rparr>"

definition prefill_done_message :: "node_env \<Rightarrow> config \<Rightarrow> request_info \<Rightarrow> int \<Rightarrow> message" where
  "prefill_done_message e c r tokens = (new_message (ne_message e))
     \<lparr>msg_type := PREFILL_COMPLETE_ORCHESTRATOR, msg_request_info := r\<lparr>ri_timestamp_prefill_done := ne_ns e\<rparr>,
      msg_kv_metadata := \<lparr>kv_num_layers = cf_num_layers c, kv_num_tokens = word_of_int tokens\<rparr>\<rparr>"

definition handle_assign_request :: "node_env \<Rightarrow> int \<Rightarrow> message \<Rightarrow> node \<Rightarrow> outcome" where
  "handle_assign_request e fd m n =
     (let r = msg_request_info m in
      case find_peer_info (ri_decode_node_id r) (nd_engine n) of
        None \<Rightarrow> Returns n
      | Some peer \<Rightarrow>
          (let call = prefill_request (nd_config n) (node_info_of n) peer r;
               n = n\<lparr>nd_prefill_calls := nd_prefill_calls n @ [call]\<rparr> in
           case ne_prefill e call of
             Vllm_failed \<Rightarrow> Returns n
           | Vllm_malformed \<Rightarrow> Terminated
           | Vllm_ok tokens \<Rightarrow> Returns (send_orchestrator (prefill_done_message e (nd_config n) r tokens) n)))"

section \<open>Decode\<close>

definition handle_prefill_complete :: "int \<Rightarrow> message \<Rightarrow> node \<Rightarrow> outcome" where
  "handle_prefill_complete fd m n = Returns n"

definition handle_transfer_ready :: "int \<Rightarrow> message \<Rightarrow> node \<Rightarrow> outcome" where
  "handle_transfer_ready fd m n = Returns n"

definition decode_request ::
  "config \<Rightarrow> node_info \<Rightarrow> message \<Rightarrow> string \<Rightarrow> tracked_request \<Rightarrow> decode_call" where
  "decode_request c self m rid info = \<lparr>dv_model = cf_model_name c, dv_prompt = tr_prompt info,
     dv_rdma_device = ni_ib_dev_name self, dv_rdma_port = ni_ib_port self,
     dv_rdma_gid_index = rc_gid_index (cf_rdma c),
     dv_max_tokens = (if tr_max_output_tokens info > 0 then tr_max_output_tokens info
       else ri_max_tokens (msg_request_info m)),
     dv_slot_id = tr_slot_id info, dv_slot_base_offset = tr_base_offset info, dv_layer_size = layer_bytes c,
     dv_num_layers = tr_num_layers info, dv_num_tokens = tr_num_tokens info, dv_request_id = rid\<rparr>"

definition on_layers :: "(layer_tracker \<Rightarrow> layer_tracker) \<Rightarrow> node \<Rightarrow> node" where
  "on_layers f n = n\<lparr>nd_tracker := f (nd_tracker n)\<rparr>"

text \<open>The decode request is built from the copy of the tracker's entry taken before the state changes.\<close>

definition handle_kv_transfer_complete :: "node_env \<Rightarrow> message \<Rightarrow> node \<Rightarrow> outcome" where
  "handle_kv_transfer_complete e m n =
     (let rid = ri_request_id (msg_request_info m) in
      case lt_get_request rid (nd_tracker n) of
        None \<Rightarrow> Returns n
      | Some info \<Rightarrow>
          (let n = on_layers (\<lambda>t. snd (lt_update_state (ne_clock e 0) rid State_DECODING t)) n;
               call = decode_request (nd_config n) (node_info_of n) m rid info;
               n = n\<lparr>nd_decode_calls := nd_decode_calls n @ [call]\<rparr> in
           case ne_decode e call of
             Vllm_failed \<Rightarrow> Returns (on_layers (\<lambda>t. snd (lt_update_state (ne_clock e 1) rid State_FAILED t)) n)
           | Vllm_malformed \<Rightarrow> Terminated
           | Vllm_ok text \<Rightarrow>
               (let n = on_layers (\<lambda>t. snd (lt_update_state (ne_clock e 1) rid State_COMPLETED t)) n;
                    n = send_orchestrator (decode_complete (ne_ns e) (ne_message e)
                          (cf_orchestrator_id (nd_config n)) (msg_request_info m) text) n in
                Returns (on_layers (lt_remove_request rid) n))))"

definition handle_prepare_decode_slot :: "node_env \<Rightarrow> int \<Rightarrow> message \<Rightarrow> node \<Rightarrow> outcome" where
  "handle_prepare_decode_slot e fd m n =
     (let r = msg_request_info m in
      case lt_add_request (ne_clock e 0) (ri_request_id r) (ri_prefill_node_id r) (ri_slot_id r)
             (sint (cf_num_layers (nd_config n))) (nd_tracker n) of
        Inl _ \<Rightarrow> Terminated
      | Inr (seq, t) \<Rightarrow>
          Returns (n\<lparr>nd_tracker := snd (lt_update_state (ne_clock e 1) (ri_request_id r) State_WAITING_FOR_KV t)\<rparr>))"

section \<open>Dispatch\<close>

definition node_process_event :: "node_env \<Rightarrow> event \<Rightarrow> node \<Rightarrow> outcome" where
  "node_process_event e ev n =
     (let (fd, m) = ev; n = n\<lparr>nd_events_processed := nd_events_processed n + 1\<rparr> in
      case msg_type m of
        ASSIGN_REQUEST \<Rightarrow> handle_assign_request e fd m n
      | PREPARE_DECODE_SLOT \<Rightarrow> handle_prepare_decode_slot e fd m n
      | BROADCAST_MEMBER_INFO \<Rightarrow> handle_broadcast_member_info e m n
      | TRANSFER_READY \<Rightarrow> handle_transfer_ready fd m n
      | PREFILL_COMPLETE \<Rightarrow> handle_prefill_complete fd m n
      | KV_TRANSFER_COMPLETE \<Rightarrow> handle_kv_transfer_complete e m n
      | _ \<Rightarrow> Returns n)"

section \<open>The polling thread\<close>

text \<open>The event for a finished transfer: the id, and the token limit of the tracker's entry.\<close>

definition kv_complete_message :: "message \<Rightarrow> string \<Rightarrow> layer_tracker \<Rightarrow> message" where
  "kv_complete_message g rid t =
     (let m = (new_message g)\<lparr>msg_type := KV_TRANSFER_COMPLETE\<rparr>;
          r = (msg_request_info m)\<lparr>ri_request_id := rid\<rparr>;
          r = (case lt_get_request rid t of None \<Rightarrow> r | Some info \<Rightarrow> r\<lparr>ri_max_tokens := tr_max_output_tokens info\<rparr>)
      in m\<lparr>msg_request_info := r\<rparr>)"

text \<open>What one completion takes from outside: two clock readings, indeterminate message content, and whether
  \<open>cudaDeviceSynchronize\<close> succeeds (always, in the build without a GPU).\<close>

record poll_env =
  pe_now1 :: clock
  pe_now2 :: clock
  pe_message :: message
  pe_fence :: bool

text \<open>One completion. The immediate is decoded as it is, without \<open>ntohl\<close>.\<close>

definition handle_completion :: "poll_env \<Rightarrow> completion \<Rightarrow> node \<Rightarrow> node" where
  "handle_completion p wc n =
     (let (seq, layer) = decode_layer_id (wc_imm wc);
          rid = resolve_seq_num seq (nd_tracker n) in
      if rid = [] then n
      else
        let (all_done, t) = mark_layer_received (pe_now1 p) (pe_now2 p) rid (uint layer) (nd_tracker n);
            n = n\<lparr>nd_tracker := t\<rparr> in
        if all_done \<and> pe_fence p
        then n\<lparr>nd_epoll := (nd_epoll n)\<lparr>ew_queue :=
                 snd (eq_push (ew_queue (nd_epoll n)) (-1, kv_complete_message (pe_message p) rid t))\<rparr>\<rparr>
        else n)"

fun handle_completions :: "(nat \<Rightarrow> poll_env) \<Rightarrow> nat \<Rightarrow> completion list \<Rightarrow> node \<Rightarrow> node" where
  "handle_completions p i [] n = n"
| "handle_completions p i (wc # wcs) n = handle_completions p (Suc i) wcs (handle_completion (p i) wc n)"

text \<open>One turn of \<open>rdma_poll_loop\<close>.\<close>

definition poll_turn :: "completion list option \<Rightarrow> (nat \<Rightarrow> bool) \<Rightarrow> (nat \<Rightarrow> poll_env) \<Rightarrow> node \<Rightarrow> node" where
  "poll_turn polled ok p n =
     (if \<not> nd_poll_running n then n
      else if re_fatal (nd_engine n) then n\<lparr>nd_poll_running := False\<rparr>
      else
        let (k, wcs, eng) = poll_recv_cq polled ok (nd_engine n); n = n\<lparr>nd_engine := eng\<rparr> in
        if k \<le> 0 then n else handle_completions p 0 wcs n)"

section \<open>Lifecycle\<close>

text \<open>The tracker's layout comes from the configuration, in bytes.\<close>

definition node_layout :: "config \<Rightarrow> memory_layout" where
  "node_layout c = \<lparr>ml_buffer_size_bytes = mc_kv_buffer_mb (cf_memory c) * 1024 * 1024,
     ml_max_concurrent_requests = mc_max_concurrent_requests (cf_memory c),
     ml_num_layers = sint (cf_num_layers c),
     ml_layer_size_bytes = mc_layer_size_mb (cf_memory c) * 1024 * 1024\<rparr>"

text \<open>\<open>g\<close> is the indeterminate content of the node info's scalars.\<close>

definition new_node :: "config \<Rightarrow> node_info \<Rightarrow> node" where
  "new_node c g = \<lparr>nd_config = c,
     nd_epoll = \<lparr>ew_running = False, ew_epoll_fd = -1, ew_connections = [],
       ew_queue = new_event_queue (unat (cf_orchestrator_event_queue_size c)), ew_trace = []\<rparr>,
     nd_orchestrator_fd = -1,
     nd_engine = new_rdma_engine c ((new_node_info g)\<lparr>ni_node_id := cf_node_id c,
       ni_role := (if cf_role c = ''prefill'' then PREFILL else DECODE)\<rparr>),
     nd_tracker = new_layer_tracker (node_layout c), nd_state = Node_STARTING, nd_running = False,
     nd_pool_running = False, nd_poll_running = False, nd_poll_thread = False, nd_server_fd = -1, nd_vllm_pid = -1, nd_vllm_servers = [],
     nd_events_processed = 0, nd_prefill_calls = [], nd_decode_calls = []\<rparr>"

definition node_worker_of :: "node \<Rightarrow> node_worker" where
  "node_worker_of n = \<lparr>nw_epoll = nd_epoll n, nw_orchestrator_fd = nd_orchestrator_fd n, nw_node_info = node_info_of n\<rparr>"

definition set_node_worker :: "node_worker \<Rightarrow> node \<Rightarrow> node" where
  "set_node_worker w n = n\<lparr>nd_epoll := nw_epoll w, nd_orchestrator_fd := nw_orchestrator_fd w,
     nd_engine := (nd_engine n)\<lparr>re_node_info := nw_node_info w\<rparr>\<rparr>"

record node_start_calls =
  ns_bind :: "int option"
  ns_listen :: bool
  ns_epoll_fd :: int
  ns_nonblock :: bool
  ns_ctl :: bool
  ns_init :: init_calls
  ns_connect :: "int option"
  ns_conn_nonblock :: bool
  ns_conn_ctl :: bool
  ns_now :: u64
  ns_message :: message

definition stop_pool :: "node \<Rightarrow> node" where
  "stop_pool n = (if nd_pool_running n
     then n\<lparr>nd_pool_running := False, nd_epoll := (nd_epoll n)\<lparr>ew_queue := eq_wake_all (ew_queue (nd_epoll n))\<rparr>\<rparr> else n)"

definition stop_io :: "node \<Rightarrow> node" where
  "stop_io n = n\<lparr>nd_epoll := stop_worker (nd_epoll n)\<rparr>"

text \<open>The ways out of a start that fails after the workers run.\<close>

definition abort_start :: "bool \<Rightarrow> node \<Rightarrow> bool \<times> node" where
  "abort_start gpu n = (False, stop_pool (stop_io (n\<lparr>nd_engine := rdma_shutdown gpu (nd_engine n)\<rparr>)))"

definition node_start :: "node_start_calls \<Rightarrow> node \<Rightarrow> bool \<times> node" where
  "node_start a n =
     (let c = nd_config n; gpu = ic_gpus (ns_init a) \<noteq> None in
      if mc_kv_buffer_mb (cf_memory c) < mc_required_mb (cf_memory c) then (False, n)
      else case ns_bind a of
        None \<Rightarrow> (False, n\<lparr>nd_server_fd := -1\<rparr>)
      | Some sfd \<Rightarrow>
     (let n = n\<lparr>nd_server_fd := sfd\<rparr> in
      if \<not> ns_listen a then (False, n)
      else
        let n = n\<lparr>nd_epoll := node_worker_start (ns_epoll_fd a) (ns_nonblock a) (ns_ctl a) sfd (nd_epoll n),
                  nd_pool_running := True\<rparr>;
            (init, eng) = (if cf_use_gpu c then rdma_initialize (ns_init a) (nd_engine n) else (True, nd_engine n));
            n = n\<lparr>nd_engine := eng\<rparr> in
        if \<not> init then (False, stop_pool (stop_io n))
        else
          let (connected, w) = connect_to_orchestrator (ns_connect a) (ns_conn_nonblock a) (ns_conn_ctl a) (node_worker_of n);
              n = set_node_worker w n in
          if \<not> connected then abort_start gpu n
          else
            let (sent, w) = send_node_info_to_orchestrator (ns_now a) (ns_message a) (node_worker_of n);
                n = set_node_worker w n in
            if \<not> sent then abort_start gpu n
            else (True, n\<lparr>nd_poll_running := (cf_role c = ''decode''), nd_poll_thread := (cf_role c = ''decode''), nd_state := Node_WAITING_FOR_BROADCAST,
                           nd_running := True\<rparr>)))"

definition node_shutdown :: "bool \<Rightarrow> node \<Rightarrow> node" where
  "node_shutdown gpu n =
     (if \<not> nd_running n then n
      else
        let n = terminate_vllm n; n = n\<lparr>nd_state := Node_STOPPED, nd_server_fd := -1\<rparr>;
            n = (if cf_role (nd_config n) = ''decode'' \<and> nd_poll_running n
                 then n\<lparr>nd_poll_running := False, nd_poll_thread := False\<rparr> else n);
            n = n\<lparr>nd_engine := rdma_shutdown gpu (nd_engine n)\<rparr>
        in (stop_pool (stop_io n))\<lparr>nd_running := False\<rparr>)"

section \<open>Queue pairs are paired up\<close>

lemma fill_remote_peer: "fill_remote self peer q = Some q' \<Longrightarrow>
    pq_peer_node_id q' = pq_peer_node_id q \<and> pq_local_qp_num q' = pq_local_qp_num q \<and> pq_local_psn q' = pq_local_psn q"
  by (auto simp: fill_remote_def Let_def split: option.splits if_splits)

text \<open>An entry after the exchange, when a later member leaves it alone.\<close>

definition paired_with :: "string \<Rightarrow> node_info \<Rightarrow> peer_info_and_qps \<Rightarrow> bool" where
  "paired_with self peer q \<longleftrightarrow> (\<exists>p. List.find (\<lambda>p. pq_peer_node_id p = self) (ni_qmaps peer) = Some p
     \<and> pq_remote_qp_num q = pq_local_qp_num p \<and> pq_local_qp_num p \<noteq> 0 \<and> pq_remote_psn q = pq_local_psn p
     \<and> pq_remote_gid q = pq_local_gid p \<and> pq_remote_lid q = pq_local_lid p
     \<and> pq_remote_addr q = ni_gpu_base_addr peer \<and> pq_remote_rkey q = ni_rkey peer)"

lemma fill_remote_paired: "fill_remote self peer q = Some q' \<Longrightarrow> paired_with self peer q'"
  by (auto simp: fill_remote_def paired_with_def Let_def split: option.splits if_splits)

lemma map_opt_length: "map_opt f xs = Some ys \<Longrightarrow> length ys = length xs \<and> (\<forall>i < length xs. f (xs ! i) = Some (ys ! i))"
proof (induction xs arbitrary: ys)
  case (Cons x xs)
  obtain y zs where y: "f x = Some y" "map_opt f xs = Some zs" "ys = y # zs"
    using Cons.prems by (auto simp: bind_eq_Some_conv)
  show ?case
  proof (intro conjI allI impI)
    show "length ys = length (x # xs)" using Cons.IH [OF y(2)] y(3) by simp
    fix i assume "i < length (x # xs)"
    then show "f ((x # xs) ! i) = Some (ys ! i)" using Cons.IH [OF y(2)] y by (cases i) simp_all
  qed
qed simp

definition same_local :: "peer_info_and_qps \<Rightarrow> peer_info_and_qps \<Rightarrow> bool" where
  "same_local q q' \<longleftrightarrow> pq_peer_node_id q' = pq_peer_node_id q \<and> pq_local_qp_num q' = pq_local_qp_num q
     \<and> pq_local_psn q' = pq_local_psn q"

lemma exchange_qps_spec:
  assumes "exchange_qps self ps qs = Some qs'" and "distinct (map ni_node_id ps)"
  shows "length qs' = length qs \<and> (\<forall>i < length qs. same_local (qs ! i) (qs' ! i)
    \<and> (\<forall>peer \<in> set ps. ni_node_id peer \<noteq> self \<longrightarrow> pq_peer_node_id (qs ! i) = ni_node_id peer \<longrightarrow> paired_with self peer (qs' ! i))
    \<and> ((\<forall>peer \<in> set ps. ni_node_id peer \<noteq> pq_peer_node_id (qs ! i)) \<longrightarrow> qs' ! i = qs ! i))"
  using assms
proof (induction self ps qs rule: exchange_qps.induct)
  case (2 self peer ps qs)
  show ?case
  proof (cases "ni_node_id peer = self")
    case True
    then show ?thesis using 2 by auto
  next
    case False
    let ?f = "\<lambda>q. if pq_peer_node_id q = ni_node_id peer then fill_remote self peer q else Some q"
    obtain rs where rs: "map_opt ?f qs = Some rs" "exchange_qps self ps rs = Some qs'"
      using 2(3) False by (auto simp: bind_eq_Some_conv)
    note len = map_opt_length [OF rs(1)]
    have ih: "length qs' = length rs" "\<And>i. i < length rs \<Longrightarrow> same_local (rs ! i) (qs' ! i)"
      "\<And>i p. i < length rs \<Longrightarrow> p \<in> set ps \<Longrightarrow> ni_node_id p \<noteq> self \<Longrightarrow> pq_peer_node_id (rs ! i) = ni_node_id p \<Longrightarrow> paired_with self p (qs' ! i)"
      "\<And>i. i < length rs \<Longrightarrow> \<forall>p \<in> set ps. ni_node_id p \<noteq> pq_peer_node_id (rs ! i) \<Longrightarrow> qs' ! i = rs ! i"
      using 2(2) [OF False] rs 2(4) by simp_all
    have step: "same_local (qs ! i) (rs ! i) \<and> (if pq_peer_node_id (qs ! i) = ni_node_id peer
        then paired_with self peer (rs ! i) else rs ! i = qs ! i)" if i: "i < length qs" for i
    proof (cases "pq_peer_node_id (qs ! i) = ni_node_id peer")
      case True
      then have "fill_remote self peer (qs ! i) = Some (rs ! i)" using len i by auto
      then show ?thesis using True fill_remote_peer fill_remote_paired by (simp add: same_local_def)
    next
      case False
      then have "Some (qs ! i) = Some (rs ! i)" using conjunct2 [OF len] i by (metis (mono_tags, lifting))
      then show ?thesis using False by (simp add: same_local_def)
    qed
    have other: "\<forall>p \<in> set ps. ni_node_id p \<noteq> ni_node_id peer" using 2(4) by (auto simp: image_iff)
    show ?thesis
    proof (intro conjI allI impI ballI)
      show "length qs' = length qs" using ih(1) len by simp
      fix i assume i: "i < length qs"
      then have i': "i < length rs" using len by simp
      show "same_local (qs ! i) (qs' ! i)" using step [OF i] ih(2) [OF i'] by (simp add: same_local_def)
      have pid: "pq_peer_node_id (rs ! i) = pq_peer_node_id (qs ! i)" using step [OF i] by (simp add: same_local_def)
      show "qs' ! i = qs ! i" if "\<forall>p \<in> set (peer # ps). ni_node_id p \<noteq> pq_peer_node_id (qs ! i)"
        using that step [OF i] ih(4) [OF i'] pid by (simp split: if_splits)
      fix p assume p: "p \<in> set (peer # ps)" "ni_node_id p \<noteq> self" "pq_peer_node_id (qs ! i) = ni_node_id p"
      show "paired_with self p (qs' ! i)"
      proof (cases "p = peer")
        case True
        then have "\<forall>p' \<in> set ps. ni_node_id p' \<noteq> pq_peer_node_id (rs ! i)" using other pid p(3) by simp
        then show ?thesis using ih(4) [OF i'] step [OF i] p(3) True by simp
      next
        case False
        then show ?thesis using ih(3) [OF i' _ p(2)] p pid by simp
      qed
    qed
  qed
qed (simp add: same_local_def)

lemma find_same_local:
  assumes "length qs' = length qs" and "\<forall>i < length qs. same_local (qs ! i) (qs' ! i)"
    and "List.find (\<lambda>q. pq_peer_node_id q = pid) qs' = Some q'"
  obtains i where "i < length qs" "q' = qs' ! i" "pq_peer_node_id (qs ! i) = pid"
    "List.find (\<lambda>q. pq_peer_node_id q = pid) qs = Some (qs ! i)"
proof -
  obtain i where i: "i < length qs'" "pq_peer_node_id (qs' ! i) = pid" "q' = qs' ! i"
    "\<forall>j < i. pq_peer_node_id (qs' ! j) \<noteq> pid"
    using assms(3) by (auto simp: find_Some_iff)
  have "List.find (\<lambda>q. pq_peer_node_id q = pid) qs = Some (qs ! i)"
    unfolding find_Some_iff using i assms(1,2) by (intro exI [of _ i]) (auto simp: same_local_def)
  then show ?thesis using that i assms(1,2) by (auto simp: same_local_def)
qed

text \<open>C36 After the broadcast the two ends of every connection agree: for any two members that have both processed the same member
  list, each one's entry for the other holds the other's own queue pair number and packet sequence number, and the
  other's buffer address and key.\<close>

theorem qp_exchange_pairs:
  assumes "distinct (map ni_node_id ms)" and "a \<in> set ms" and "b \<in> set ms" and "ni_node_id a \<noteq> ni_node_id b"
    and "exchange_qps (ni_node_id a) ms (ni_qmaps a) = Some qa" and "exchange_qps (ni_node_id b) ms (ni_qmaps b) = Some qb"
    and "List.find (\<lambda>q. pq_peer_node_id q = ni_node_id b) qa = Some q"
    and "List.find (\<lambda>q. pq_peer_node_id q = ni_node_id a) qb = Some q'"
  shows "pq_remote_qp_num q = pq_local_qp_num q' \<and> pq_remote_qp_num q' = pq_local_qp_num q
    \<and> pq_remote_psn q = pq_local_psn q' \<and> pq_remote_psn q' = pq_local_psn q
    \<and> pq_remote_qp_num q \<noteq> 0 \<and> pq_remote_qp_num q' \<noteq> 0
    \<and> pq_remote_addr q = ni_gpu_base_addr b \<and> pq_remote_addr q' = ni_gpu_base_addr a
    \<and> pq_remote_rkey q = ni_rkey b \<and> pq_remote_rkey q' = ni_rkey a"
proof -
  note sa = exchange_qps_spec [OF assms(5,1)] and sb = exchange_qps_spec [OF assms(6,1)]
  obtain i where i: "i < length (ni_qmaps a)" "q = qa ! i" "pq_peer_node_id (ni_qmaps a ! i) = ni_node_id b"
    "List.find (\<lambda>q. pq_peer_node_id q = ni_node_id b) (ni_qmaps a) = Some (ni_qmaps a ! i)"
    using find_same_local [OF _ _ assms(7)] sa by metis
  obtain j where j: "j < length (ni_qmaps b)" "q' = qb ! j" "pq_peer_node_id (ni_qmaps b ! j) = ni_node_id a"
    "List.find (\<lambda>q. pq_peer_node_id q = ni_node_id a) (ni_qmaps b) = Some (ni_qmaps b ! j)"
    using find_same_local [OF _ _ assms(8)] sb by metis
  have "paired_with (ni_node_id a) b q" "paired_with (ni_node_id b) a q'"
    using sa sb i j assms(2-4) by auto
  moreover have "same_local (ni_qmaps a ! i) q" "same_local (ni_qmaps b ! j) q'" using sa sb i j by auto
  ultimately show ?thesis using i(4) j(4) by (auto simp: paired_with_def same_local_def)
qed

definition sample_entry :: "string \<Rightarrow> u32 \<Rightarrow> peer_info_and_qps" where
  "sample_entry pid n = sample_peer\<lparr>pq_peer_node_id := pid, pq_local_qp_num := n, pq_local_psn := n + 1\<rparr>"

definition prefill_member :: node_info where
  "prefill_member = sample_node\<lparr>ni_node_id := ''p0'', ni_gpu_base_addr := 4096, ni_rkey := 11,
     ni_qmaps := [sample_entry ''d0'' 100, sample_entry ''d1'' 101]\<rparr>"

definition decode_member :: node_info where
  "decode_member = sample_node\<lparr>ni_node_id := ''d0'', ni_role := DECODE, ni_gpu_base_addr := 8192, ni_rkey := 12,
     ni_qmaps := [sample_entry ''p0'' 200]\<rparr>"

definition decode_member_1 :: node_info where
  "decode_member_1 = sample_node\<lparr>ni_node_id := ''d1'', ni_role := DECODE, ni_gpu_base_addr := 16384, ni_rkey := 13,
     ni_qmaps := [sample_entry ''p0'' 300]\<rparr>"

lemmas sample_members = prefill_member_def decode_member_def decode_member_1_def sample_entry_def sample_peer_def sample_node_def

theorem qp_exchange_pairs_witness:
  "\<exists>qa qb q q'. exchange_qps ''p0'' [prefill_member, decode_member_1, decode_member] (ni_qmaps prefill_member) = Some qa
     \<and> exchange_qps ''d0'' [prefill_member, decode_member_1, decode_member] (ni_qmaps decode_member) = Some qb
     \<and> q \<in> set qa \<and> q' \<in> set qb \<and> pq_remote_qp_num q = pq_local_qp_num q' \<and> pq_remote_qp_num q' = pq_local_qp_num q
     \<and> pq_remote_addr q = 8192"
proof -
  let ?ms = "[prefill_member, decode_member_1, decode_member]"
  have ids: "ni_node_id prefill_member = ''p0''" "ni_node_id decode_member = ''d0''" "ni_node_id decode_member_1 = ''d1''"
    "ni_gpu_base_addr decode_member = 8192"
    by (simp_all add: sample_members)
  obtain qa q where qa: "exchange_qps ''p0'' ?ms (ni_qmaps prefill_member) = Some qa"
    "List.find (\<lambda>q. pq_peer_node_id q = ''d0'') qa = Some q" "q \<in> set qa"
    by (simp add: sample_members fill_remote_def)
  obtain qb q' where qb: "exchange_qps ''d0'' ?ms (ni_qmaps decode_member) = Some qb"
    "List.find (\<lambda>q. pq_peer_node_id q = ''p0'') qb = Some q'" "q' \<in> set qb"
    by (simp add: sample_members fill_remote_def)
  have "distinct (map ni_node_id ?ms)" by (simp add: ids)
  from qp_exchange_pairs [where a = prefill_member and b = decode_member and q = q and q' = q', OF this]
  show ?thesis using qa qb by (simp add: ids) blast
qed

end
