(* ===== verification/NodeProps.thy ===== *)
theory NodeProps
  imports NodeWorker
begin

text \<open>
  Runs of a prefill or decode node: any interleaving of queued events and turns of the RDMA polling thread, as a step
  relation on the node's state, with the invariants of every reachable state, and what the handlers do on each branch.
\<close>

section \<open>Runs\<close>

datatype node_op =
    On_event node_env event
  | On_poll "completion list option" "nat \<Rightarrow> bool" "nat \<Rightarrow> poll_env"

fun node_step :: "node_op \<Rightarrow> node \<Rightarrow> outcome" where
  "node_step (On_event e ev) n = node_process_event e ev n"
| "node_step (On_poll polled ok p) n = Returns (poll_turn polled ok p n)"

text \<open>The states a process passes through before it is terminated, over operations that satisfy \<open>P\<close>.\<close>

inductive node_reaches :: "(node_op \<Rightarrow> bool) \<Rightarrow> node \<Rightarrow> node \<Rightarrow> bool" for P n0 where
  node_refl: "node_reaches P n0 n0"
| node_next: "node_reaches P n0 n \<Longrightarrow> P p \<Longrightarrow> node_step p n = Returns n' \<Longrightarrow> node_reaches P n0 n'"

text \<open>A list of operations, run in order.\<close>

fun node_runs :: "node_op list \<Rightarrow> node \<Rightarrow> outcome" where
  "node_runs [] n = Returns n"
| "node_runs (p # ps) n = (case node_step p n of Terminated \<Rightarrow> Terminated | Returns n' \<Rightarrow> node_runs ps n')"

lemma node_reaches_runs:
  assumes "node_runs ps n = Returns n'" and "node_reaches P n0 n" and "\<forall>p \<in> set ps. P p"
  shows "node_reaches P n0 n'"
  using assms by (induction ps arbitrary: n) (auto split: outcome.splits intro: node_reaches.intros)

text \<open>What a step does to the tracker: nothing, or one operation of it, or two.\<close>

lemmas handler_defs = node_process_event_def handle_assign_request_def handle_prepare_decode_slot_def
  handle_broadcast_member_info_def handle_transfer_ready_def handle_prefill_complete_def handle_kv_transfer_complete_def

lemma send_orchestrator_sel [simp]:
  "nd_tracker (send_orchestrator m n) = nd_tracker n" "nd_config (send_orchestrator m n) = nd_config n"
  "nd_decode_calls (send_orchestrator m n) = nd_decode_calls n" "nd_engine (send_orchestrator m n) = nd_engine n"
  "nd_prefill_calls (send_orchestrator m n) = nd_prefill_calls n"
  by (simp_all add: send_orchestrator_def)

lemma on_layers_sel [simp]:
  "nd_tracker (on_layers f n) = f (nd_tracker n)" "nd_config (on_layers f n) = nd_config n"
  "nd_decode_calls (on_layers f n) = nd_decode_calls n" "nd_epoll (on_layers f n) = nd_epoll n"
  "nd_engine (on_layers f n) = nd_engine n"
  by (simp_all add: on_layers_def)

lemma set_qmaps_sel [simp]:
  "nd_tracker (set_qmaps qs n) = nd_tracker n" "nd_config (set_qmaps qs n) = nd_config n"
  "nd_decode_calls (set_qmaps qs n) = nd_decode_calls n" "nd_epoll (set_qmaps qs n) = nd_epoll n"
  by (simp_all add: set_qmaps_def)

text \<open>An invariant of the tracker that every operation of it keeps, over the runs of a node. \<open>N\<close> is the
  configured number of layers, \<open>K\<close> says which layers the poller may mark.\<close>

locale tracker_invariant =
  fixes I :: "layer_tracker \<Rightarrow> bool" and N :: int and K :: "node_op \<Rightarrow> bool"
  assumes I_add: "I t \<Longrightarrow> lt_add_request now rid pre slot N t = Inr (s, t') \<Longrightarrow> I t'"
    and I_state: "I t \<Longrightarrow> I (snd (lt_update_state now rid st t))"
    and I_remove: "I t \<Longrightarrow> I (lt_remove_request rid t)"
    and I_mark: "I t \<Longrightarrow> K (On_poll (Some wcs) ok pe) \<Longrightarrow> wc \<in> set wcs \<Longrightarrow> decode_layer_id (wc_imm wc) = (q, l) \<Longrightarrow>
      resolve_seq_num q t \<noteq> [] \<Longrightarrow> I (snd (mark_layer_received now1 now2 (resolve_seq_num q t) (uint l) t))"
begin

lemma handle_completion_tracker:
  assumes "I (nd_tracker n)" and "K (On_poll (Some wcs) ok p)" and "wc \<in> set wcs"
  shows "I (nd_tracker (handle_completion e wc n)) \<and> nd_config (handle_completion e wc n) = nd_config n
    \<and> nd_decode_calls (handle_completion e wc n) = nd_decode_calls n"
  using assms I_mark [OF assms]
  by (auto simp: handle_completion_def Let_def case_prod_unfold)

lemma handle_completions_tracker:
  assumes "I (nd_tracker n)" and "K (On_poll (Some wcs) ok p)" and "set ws \<subseteq> set wcs"
  shows "I (nd_tracker (handle_completions e i ws n)) \<and> nd_config (handle_completions e i ws n) = nd_config n
    \<and> nd_decode_calls (handle_completions e i ws n) = nd_decode_calls n"
  using assms(1,3)
proof (induction ws arbitrary: n i)
  case (Cons w ws)
  then show ?case using handle_completion_tracker [OF Cons.prems(1) assms(2), of w "e i"] by simp
qed simp

lemma poll_turn_tracker:
  assumes "I (nd_tracker n)" and "K (On_poll polled ok p)"
  shows "I (nd_tracker (poll_turn polled ok p n)) \<and> nd_config (poll_turn polled ok p n) = nd_config n
    \<and> nd_decode_calls (poll_turn polled ok p n) = nd_decode_calls n"
proof -
  obtain k wcs eng where polled: "poll_recv_cq polled ok (nd_engine n) = (k, wcs, eng)" by (metis prod_cases3)
  have "polled = Some wcs" if "k > 0"
    using polled that by (auto simp: poll_recv_cq_def Let_def split: option.splits if_splits prod.splits)
  then show ?thesis
    using handle_completions_tracker [of "n\<lparr>nd_engine := eng\<rparr>" wcs ok p wcs p 0] assms
    by (auto simp: poll_turn_def polled Let_def)
qed

lemma event_tracker:
  assumes "I (nd_tracker n)" and "sint (cf_num_layers (nd_config n)) = N" and "node_process_event e ev n = Returns n'"
  shows "I (nd_tracker n') \<and> nd_config n' = nd_config n"
proof -
  obtain fd m where ev: "ev = (fd, m)" by fastforce
  let ?n = "n\<lparr>nd_events_processed := nd_events_processed n + 1\<rparr>"
  have prepare: "handle_prepare_decode_slot e fd m ?n = Returns n' \<Longrightarrow> ?thesis"
    using assms(1)
    by (auto simp: handle_prepare_decode_slot_def Let_def assms(2) intro!: I_state elim: I_add [rotated] split: sum.splits)
  have assign: "handle_assign_request e fd m ?n = Returns n' \<Longrightarrow> ?thesis"
    using assms(1) by (auto simp: handle_assign_request_def Let_def split: option.splits vllm_answer.splits)
  have broadcast: "handle_broadcast_member_info e m ?n = Returns n' \<Longrightarrow> ?thesis"
    using assms(1) by (auto simp: handle_broadcast_member_info_def Let_def split: option.splits prod.splits if_splits)
  have kv: "handle_kv_transfer_complete e m ?n = Returns n' \<Longrightarrow> ?thesis"
    using assms(1) by (auto simp: handle_kv_transfer_complete_def Let_def intro!: I_state I_remove
        split: option.splits vllm_answer.splits)
  show ?thesis
    using assms(1,3) prepare assign broadcast kv
    by (auto simp: ev node_process_event_def Let_def handle_transfer_ready_def handle_prefill_complete_def
        split: message_type.splits)
qed

lemma run_tracker:
  assumes "node_reaches K n0 n" and "I (nd_tracker n0)" and "sint (cf_num_layers (nd_config n0)) = N"
  shows "I (nd_tracker n) \<and> nd_config n = nd_config n0"
  using assms(1)
proof (induction rule: node_reaches.induct)
  case (node_next n p n')
  then show ?case
    using event_tracker [of n] poll_turn_tracker [of n] assms(3) by (cases p) auto
qed (use assms(2) in simp)

end

interpretation reach: tracker_invariant "lt_reach l" "ml_num_layers l" "\<lambda>_. True" for l
  by unfold_locales (auto intro: lt_reach.intros)

section \<open>Requests to vLLM\<close>

text \<open>What the tracker knows of a request that it holds: where its memory is, and nothing of its prompt.\<close>

definition entry_ok :: "memory_layout \<Rightarrow> tracked_request \<Rightarrow> bool" where
  "entry_ok l i \<longleftrightarrow> tr_prompt i = [] \<and> tr_num_tokens i = 0 \<and> tr_max_output_tokens i = 0
     \<and> 0 \<le> tr_slot_id i \<and> tr_slot_id i < ml_max_concurrent_requests l
     \<and> tr_base_offset i = get_slot_base_offset l (tr_slot_id i) \<and> tr_num_layers i = ml_num_layers l"

definition entries_ok :: "memory_layout \<Rightarrow> layer_tracker \<Rightarrow> bool" where
  "entries_ok l t \<longleftrightarrow> lt_layout t = l \<and> (\<forall>r i. lt_find t r = Some i \<longrightarrow> entry_ok l i)"

lemma entries_ok_put: "entries_ok l t \<Longrightarrow> entry_ok l i \<Longrightarrow> entries_ok l (lt_put rid i t)"
  by (simp add: entries_ok_def)

lemma entries_ok_counters [simp]:
  "entries_ok l (t\<lparr>lt_completed_requests := c\<rparr>) = entries_ok l t" "entries_ok l (t\<lparr>lt_failed_requests := c\<rparr>) = entries_ok l t"
  by (simp_all add: entries_ok_def lt_find_def)

interpretation entries: tracker_invariant "entries_ok l" "ml_num_layers l" "\<lambda>_. True" for l
proof unfold_locales
  show "entries_ok l t \<Longrightarrow> lt_add_request now rid p slot (ml_num_layers l) t = Inr (s, t') \<Longrightarrow> entries_ok l t'"
    for t now rid p slot s t'
    by (auto simp: lt_add_request_def entries_ok_def entry_ok_def lt_find_def Let_def split: if_splits option.splits)
  have "entry_ok l i \<Longrightarrow> entry_ok l (i\<lparr>tr_state := st\<rparr>) \<and> entry_ok l (i\<lparr>tr_state := st, tr_decode_complete_ts := now\<rparr>)
      \<and> entry_ok l (i\<lparr>tr_state := st, tr_decode_start_ts := now\<rparr>)" for i st now
    by (simp add: entry_ok_def)
  moreover have "entries_ok l t \<Longrightarrow> lt_find t r = Some i \<Longrightarrow> entry_ok l i" for t r i by (simp add: entries_ok_def)
  ultimately show "entries_ok l t \<Longrightarrow> entries_ok l (snd (lt_update_state now rid st t))" for t now rid st
    by (auto simp: lt_update_state_def Let_def intro!: entries_ok_put split: option.split)
  show "entries_ok l t \<Longrightarrow> entries_ok l (lt_remove_request rid t)" for t rid
    by (auto simp: lt_remove_request_def entries_ok_def lt_find_def split: option.split)
  have "entry_ok l i \<Longrightarrow> entry_ok l (marked now1 now2 k i)" for now1 now2 k i
    by (simp add: entry_ok_def marked_def Let_def)
  then show "entries_ok l t \<Longrightarrow> entries_ok l (snd (mark_layer_received now1 now2 (resolve_seq_num q t) (uint la) t))"
    for t now1 now2 q la
    by (auto simp: mark_cases entries_ok_put entries_ok_def split: option.split)
qed

lemma event_decode_calls:
  assumes "node_process_event e ev n = Returns n'" and "d \<in> set (nd_decode_calls n')"
  shows "d \<in> set (nd_decode_calls n) \<or> (\<exists>rid i. lt_find (nd_tracker n) rid = Some i
    \<and> d = decode_request (nd_config n) (node_info_of n) (snd ev) rid i)"
proof -
  obtain fd m where ev: "ev = (fd, m)" by fastforce
  show ?thesis
  proof (cases "msg_type m = KV_TRANSFER_COMPLETE")
    case True
    then show ?thesis using assms
      by (auto simp: ev node_process_event_def handle_kv_transfer_complete_def Let_def lt_get_request_def
          split: option.splits vllm_answer.splits)
  next
    case False
    then have "nd_decode_calls n' = nd_decode_calls n" using assms(1)
      by (auto simp: ev handler_defs Let_def split: message_type.splits option.splits vllm_answer.splits sum.splits
          prod.splits if_splits)
    then show ?thesis using assms(2) by simp
  qed
qed

text \<open>C35 The decode request never carries the prompt: in every state a node reaches, each request it has sent to vLLM names a
  slot of the configured layout with that slot's offset and the configured number of layers, but its prompt is empty and its
  token count zero, whatever the client asked for.\<close>

theorem decode_requests_have_no_prompt:
  assumes "node_reaches P (new_node c g) n" and "d \<in> set (nd_decode_calls n)"
  shows "dv_prompt d = [] \<and> dv_num_tokens d = 0 \<and> dv_num_layers d = sint (cf_num_layers c)
    \<and> 0 \<le> dv_slot_id d \<and> dv_slot_id d < mc_max_concurrent_requests (cf_memory c)
    \<and> dv_slot_base_offset d = get_slot_base_offset (node_layout c) (dv_slot_id d)"
proof -
  have start: "entries_ok (node_layout c) (nd_tracker (new_node c g))"
    "sint (cf_num_layers (nd_config (new_node c g))) = ml_num_layers (node_layout c)"
    by (simp_all add: new_node_def new_layer_tracker_def entries_ok_def lt_find_def node_layout_def)
  have any: "node_reaches P n0 m \<Longrightarrow> node_reaches (\<lambda>_. True) n0 m" for P n0 m
    by (induction rule: node_reaches.induct) (auto intro: node_reaches.intros)
  let ?ok = "\<lambda>d. dv_prompt d = [] \<and> dv_num_tokens d = 0 \<and> dv_num_layers d = sint (cf_num_layers c)
    \<and> 0 \<le> dv_slot_id d \<and> dv_slot_id d < mc_max_concurrent_requests (cf_memory c)
    \<and> dv_slot_base_offset d = get_slot_base_offset (node_layout c) (dv_slot_id d)"
  have "\<forall>d \<in> set (nd_decode_calls n). ?ok d"
    using assms(1)
  proof (induction rule: node_reaches.induct)
    case node_refl
    show ?case by (simp add: new_node_def)
  next
    case (node_next n p n')
    note tracker = entries.run_tracker [OF any [OF node_next(1)] start]
    show ?case
    proof (cases p)
      case (On_event e ev)
      have "node_process_event e ev n = Returns n'" using node_next(3) On_event by simp
      from event_decode_calls [OF this] show ?thesis
        using node_next(4) tracker
        by (fastforce simp: entries_ok_def entry_ok_def decode_request_def node_layout_def)
    next
      case (On_poll polled ok pe)
      then show ?thesis
        using node_next(3,4) entries.poll_turn_tracker [of _ n polled ok pe] tracker by auto
    qed
  qed
  then show ?thesis using assms(2) by blast
qed

text \<open>A decode node with two layers per request, and the messages it gets.\<close>

definition decode_config :: config where
  "decode_config = sample_rdma_config\<lparr>cf_role := ''decode'', cf_num_layers := 2\<rparr>"

definition decode_node :: node where
  "decode_node = (new_node decode_config sample_node)\<lparr>nd_poll_running := True\<rparr>"

definition decode_env :: "string vllm_answer \<Rightarrow> node_env" where
  "decode_env a = \<lparr>ne_ns = 5, ne_clock = (\<lambda>_. 7), ne_message = sample_message, ne_prefill = (\<lambda>_. Vllm_failed),
     ne_decode = (\<lambda>_. a), ne_connect = (\<lambda>_. (True, True)), ne_post_recv = (\<lambda>_. True), ne_mooncake_file = True, ne_fork = 4711\<rparr>"

definition prepare_event :: "string \<Rightarrow> int \<Rightarrow> event" where
  "prepare_event rid slot = (3, sample_message\<lparr>msg_type := PREPARE_DECODE_SLOT,
     msg_request_info := sample_request\<lparr>ri_request_id := rid, ri_slot_id := slot\<rparr>\<rparr>)"

definition kv_event :: "string \<Rightarrow> event" where
  "kv_event rid = (-1, sample_message\<lparr>msg_type := KV_TRANSFER_COMPLETE,
     msg_request_info := sample_request\<lparr>ri_request_id := rid\<rparr>\<rparr>)"

theorem decode_requests_have_no_prompt_witness:
  "\<exists>n d. node_reaches (\<lambda>_. True) (new_node decode_config sample_node) n \<and> d \<in> set (nd_decode_calls n) \<and> dv_prompt d = []
     \<and> dv_slot_id d = 1"
proof -
  let ?ops = "[On_event (decode_env Vllm_failed) (prepare_event ''r'' 1), On_event (decode_env Vllm_failed) (kv_event ''r'')]"
  have "case node_runs ?ops (new_node decode_config sample_node) of Terminated \<Rightarrow> False
      | Returns n \<Rightarrow> map dv_slot_id (nd_decode_calls n) = [1]"
    by code_simp
  then obtain n where n: "node_runs ?ops (new_node decode_config sample_node) = Returns n" "map dv_slot_id (nd_decode_calls n) = [1]"
    by (auto split: outcome.splits)
  have "node_reaches (\<lambda>_. True) (new_node decode_config sample_node) n"
    by (rule node_reaches_runs [OF n(1) node_refl]) simp
  moreover obtain d where "d \<in> set (nd_decode_calls n)" "dv_slot_id d = 1" using n(2) by (cases "nd_decode_calls n") auto
  ultimately show ?thesis using decode_requests_have_no_prompt by blast
qed

section \<open>The byte order of immediates\<close>

definition bswap16 :: "u16 \<Rightarrow> u16" where
  "bswap16 w = push_bit 8 w OR drop_bit 8 w"

lemma decode_htonl: "decode_layer_id (htonl (encode_layer_id s l)) = (bswap16 l, bswap16 s)"
proof -
  have mask: "(0xFFFF :: u32) = mask 16" by (simp add: mask_eq_exp_minus_1)
  have "ucast (drop_bit 16 (htonl (encode_layer_id s l))) = bswap16 l"
    unfolding bswap16_def encode_layer_id_def
    by (rule bit_word_eqI) (auto simp: bit_simps bit_htonl add.commute dest: bit_imp_le_length)
  moreover have "ucast (htonl (encode_layer_id s l) AND 0xFFFF) = bswap16 s"
    unfolding bswap16_def encode_layer_id_def mask
    by (rule bit_word_eqI) (auto simp: bit_simps bit_htonl add.commute dest: bit_imp_le_length)
  ultimately show ?thesis by (simp add: decode_layer_id_def)
qed

lemma uint_bswap16:
  assumes "uint w < 256" shows "uint (bswap16 w) = 256 * uint w"
proof -
  have "drop_bit 8 w = 0"
  proof (rule word_uint_eqI)
    show "uint (drop_bit 8 w) = uint (0 :: u16)" using assms by (simp add: drop_bit_eq_div uint_div)
  qed
  then have "bswap16 w = push_bit 8 w" by (simp add: bswap16_def)
  moreover have "uint (push_bit 8 w) = 256 * uint w"
    using assms by (simp add: push_bit_eq_mult uint_word_ariths)
  ultimately show ?thesis by simp
qed

text \<open>The layers and sequence numbers of a layout with at most 256 slots and layers, as a peer writes them.\<close>

definition peer_imm :: "u32 \<Rightarrow> bool" where
  "peer_imm imm \<longleftrightarrow> (\<exists>s l. imm = htonl (encode_layer_id s l) \<and> uint s < 256 \<and> uint l < 256)"

fun from_peers :: "node_op \<Rightarrow> bool" where
  "from_peers (On_event e ev) = True"
| "from_peers (On_poll polled ok p) = (\<forall>wcs. polled = Some wcs \<longrightarrow> (\<forall>wc \<in> set wcs. peer_imm (wc_imm wc)))"

text \<open>At most layer 0 of a request has arrived.\<close>

definition first_layer_only :: "int \<Rightarrow> tracked_request \<Rightarrow> bool" where
  "first_layer_only n i \<longleftrightarrow> counts_ok n i \<and> received_ids i \<subseteq> {0}"

definition swapped_ok :: "memory_layout \<Rightarrow> layer_tracker \<Rightarrow> bool" where
  "swapped_ok l t \<longleftrightarrow> lt_layout t = l \<and> ml_max_concurrent_requests l \<le> 256 \<and> 2 \<le> ml_num_layers l \<and> ml_num_layers l \<le> 256
     \<and> (\<forall>s r. map_of (lt_seq_to_request t) s = Some r \<longrightarrow> uint s < 256)
     \<and> (\<forall>r i. lt_find t r = Some i \<longrightarrow> first_layer_only (ml_num_layers l) i)"

lemma received_ids_state:
  "received_ids (i\<lparr>tr_state := st\<rparr>) = received_ids i"
  "received_ids (i\<lparr>tr_state := st, tr_decode_complete_ts := ts\<rparr>) = received_ids i"
  "received_ids (i\<lparr>tr_state := st, tr_decode_start_ts := ts\<rparr>) = received_ids i"
  by (simp_all add: received_ids_def)

lemma swapped_ok_find: "swapped_ok l t \<Longrightarrow> lt_find t r = Some i \<Longrightarrow> first_layer_only (ml_num_layers l) i"
  by (simp add: swapped_ok_def)

lemma swapped_ok_put: "swapped_ok l t \<Longrightarrow> first_layer_only (ml_num_layers l) i \<Longrightarrow> swapped_ok l (lt_put rid i t)"
  by (simp add: swapped_ok_def)

lemma swapped_ok_counters [simp]:
  "swapped_ok l (t\<lparr>lt_completed_requests := c\<rparr>) = swapped_ok l t" "swapped_ok l (t\<lparr>lt_failed_requests := c\<rparr>) = swapped_ok l t"
  by (simp_all add: swapped_ok_def lt_find_def)

text \<open>Read without \<open>ntohl\<close>, such an immediate names layer 0 of slot 0 or nothing: no transfer is completed by it.\<close>

lemma swapped_mark:
  fixes now1 now2 :: clock
  assumes ok: "swapped_ok l t" and imm: "peer_imm imm" and dec: "decode_layer_id imm = (q, la)"
    and known: "resolve_seq_num q t \<noteq> []"
  defines "m \<equiv> mark_layer_received now1 now2 (resolve_seq_num q t) (uint la) t"
  shows "\<not> fst m \<and> swapped_ok l (snd m)"
proof (cases "lt_find t (resolve_seq_num q t)")
  case None
  then show ?thesis using ok by (simp add: m_def mark_cases)
next
  case (Some i)
  let ?r = "resolve_seq_num q t"
  obtain s la' where sl: "imm = htonl (encode_layer_id s la')" "uint s < 256" "uint la' < 256"
    using imm by (auto simp: peer_imm_def)
  then have la: "la = bswap16 s" using dec by (simp add: decode_htonl)
  have first: "counts_ok (ml_num_layers l) i" "received_ids i \<subseteq> {0}" "2 \<le> ml_num_layers l" "ml_num_layers l \<le> 256"
    using ok swapped_ok_find [OF ok Some] by (simp_all add: swapped_ok_def first_layer_only_def)
  have n: "tr_num_layers i = ml_num_layers l" using first(1) by (simp add: counts_ok_def)
  show ?thesis
  proof (cases "uint la < ml_num_layers l \<and> uint la \<notin> received_ids i")
    case False
    then show ?thesis using ok Some n by (auto simp: m_def mark_cases)
  next
    case True
    have zero: "uint la = 0" using conjunct1 [OF True] first(4) uint_bswap16 [OF sl(2)] uint_ge_0 [of s] unfolding la by presburger
    have none: "received_ids i = {}" using True first(2) zero by auto
    note step = marked_step(1,2) [OF first(1), of "uint la" now1 now2]
    have "first_layer_only (ml_num_layers l) (marked now1 now2 (uint la) i)"
      using step True none zero uint_ge_0 [of la] by (simp add: first_layer_only_def)
    moreover have "tr_layers_received_count i = 0" using first(1) none by (simp add: counts_ok_def)
    ultimately show ?thesis using ok Some n True first(3) by (auto simp: m_def mark_cases swapped_ok_put)
  qed
qed

interpretation swapped: tracker_invariant "swapped_ok l" "ml_num_layers l" from_peers for l
proof unfold_locales
  show "swapped_ok l t'" if ok: "swapped_ok l t" and add_eq: "lt_add_request now rid p slot (ml_num_layers l) t = Inr (s, t')"
    for t now rid p slot s t'
  proof -
    have add: "0 \<le> slot" "slot < 256" "lt_seq_to_request t' = put (word_of_int slot) rid (lt_seq_to_request t)"
      using ok add_eq by (auto simp: swapped_ok_def lt_add_request_def Let_def split: if_splits option.splits)
    have "uint (word_of_int slot :: u16) = slot" using add by (simp add: unsigned_of_int take_bit_int_eq_self)
    moreover have "first_layer_only (ml_num_layers l) i" if f: "lt_find t' r = Some i" for r i
    proof (cases "r = rid")
      case True
      then show ?thesis using lt_add_find(3) [OF add_eq] f by (simp add: first_layer_only_def counts_ok_def)
    next
      case False
      show ?thesis by (rule swapped_ok_find [OF ok lt_add_find(2) [OF add_eq f False]])
    qed
    ultimately show ?thesis
      using ok lt_add_find(1) [OF add_eq] add by (auto simp: swapped_ok_def)
  qed
  have "first_layer_only n i \<Longrightarrow> first_layer_only n (i\<lparr>tr_state := st\<rparr>) \<and> first_layer_only n (i\<lparr>tr_state := st, tr_decode_complete_ts := now\<rparr>)
      \<and> first_layer_only n (i\<lparr>tr_state := st, tr_decode_start_ts := now\<rparr>)" for n i st now
    by (simp add: first_layer_only_def counts_ok_def received_ids_state)
  then show "swapped_ok l t \<Longrightarrow> swapped_ok l (snd (lt_update_state now rid st t))" for t now rid st
    by (auto simp: lt_update_state_def Let_def intro!: swapped_ok_put dest: swapped_ok_find split: option.split)
  show "swapped_ok l t \<Longrightarrow> swapped_ok l (lt_remove_request rid t)" for t rid
    by (auto simp: lt_remove_request_def swapped_ok_def lt_find_def split: option.split if_splits)
  show "swapped_ok l t \<Longrightarrow> from_peers (On_poll (Some wcs) ok pe) \<Longrightarrow> wc \<in> set wcs \<Longrightarrow> decode_layer_id (wc_imm wc) = (q, la) \<Longrightarrow>
      resolve_seq_num q t \<noteq> [] \<Longrightarrow> swapped_ok l (snd (mark_layer_received now1 now2 (resolve_seq_num q t) (uint la) t))"
    for t wcs ok pe wc q la now1 now2
    using swapped_mark [where l = l and t = t and imm = "wc_imm wc" and q = q and la = la and ?now1.0 = now1 and ?now2.0 = now2]
    by simp
qed

lemma handle_completions_swapped:
  assumes "swapped_ok l (nd_tracker n)" and "\<forall>wc \<in> set wcs. peer_imm (wc_imm wc)"
  shows "nd_epoll (handle_completions p i wcs n) = nd_epoll n \<and> swapped_ok l (nd_tracker (handle_completions p i wcs n))"
  using assms
proof (induction wcs arbitrary: n i)
  case (Cons w ws)
  obtain q la where dec: "decode_layer_id (wc_imm w) = (q, la)" by fastforce
  have "nd_epoll (handle_completion (p i) w n) = nd_epoll n \<and> swapped_ok l (nd_tracker (handle_completion (p i) w n))"
    using swapped_mark [OF Cons.prems(1) _ dec] Cons.prems
    by (auto simp: handle_completion_def dec Let_def case_prod_unfold)
  then show ?case using Cons.IH [of "handle_completion (p i) w n" "Suc i"] Cons.prems(2) by simp
qed simp

text \<open>C10 No transfer ever completes: the sender stores the immediate in network byte order, the poller reads it without
  converting it back. With at most 256 slots and between 2 and 256 layers, in every state a decode node reaches, polling
  completions of peers' writes raises no event, and at most layer 0 of any request has been recorded.\<close>

theorem peer_writes_never_complete:
  assumes "mc_max_concurrent_requests (cf_memory c) \<le> 256" and "2 \<le> sint (cf_num_layers c)" and "sint (cf_num_layers c) \<le> 256"
    and "node_reaches from_peers (new_node c g) n" and "from_peers (On_poll polled ok p)"
  shows "nd_epoll (poll_turn polled ok p n) = nd_epoll n
    \<and> (\<forall>r i. lt_find (nd_tracker n) r = Some i \<longrightarrow> received_ids i \<subseteq> {0})"
proof -
  have start: "swapped_ok (node_layout c) (nd_tracker (new_node c g))"
    "sint (cf_num_layers (nd_config (new_node c g))) = ml_num_layers (node_layout c)"
    using assms(1-3) by (simp_all add: new_node_def new_layer_tracker_def swapped_ok_def lt_find_def node_layout_def)
  have ok: "swapped_ok (node_layout c) (nd_tracker n)" using swapped.run_tracker [OF assms(4) start] by blast
  obtain k wcs eng where polled: "poll_recv_cq polled ok (nd_engine n) = (k, wcs, eng)" by (metis prod_cases3)
  have "polled = Some wcs" if "k > 0"
    using polled that by (auto simp: poll_recv_cq_def Let_def split: option.splits if_splits prod.splits)
  then have "nd_epoll (poll_turn polled ok p n) = nd_epoll n"
    using handle_completions_swapped [of _ "n\<lparr>nd_engine := eng\<rparr>" wcs p 0] ok assms(5)
    by (auto simp: poll_turn_def polled Let_def)
  then show ?thesis using swapped_ok_find [OF ok] by (auto simp: first_layer_only_def)
qed

definition write_completion :: "u16 \<Rightarrow> u16 \<Rightarrow> completion" where
  "write_completion s l = \<lparr>wc_success = True, wc_qp_num = 100, wc_imm = htonl (encode_layer_id s l)\<rparr>"

definition sample_poll :: "nat \<Rightarrow> poll_env" where
  "sample_poll i = \<lparr>pe_now1 = 1, pe_now2 = 2, pe_message = sample_message, pe_fence = True\<rparr>"

text \<open>Both layers of the request in slot 1 have been written, yet nothing is queued.\<close>

theorem peer_writes_never_complete_witness:
  "\<exists>n. node_reaches from_peers (new_node decode_config sample_node) n \<and> lt_find (nd_tracker n) ''r'' \<noteq> None
     \<and> nd_epoll (poll_turn (Some [write_completion 1 0, write_completion 1 1]) (\<lambda>_. True) sample_poll n) = nd_epoll n"
proof -
  let ?ops = "[On_event (decode_env Vllm_failed) (prepare_event ''r'' 1)]"
  have "case node_runs ?ops (new_node decode_config sample_node) of Terminated \<Rightarrow> False
      | Returns n \<Rightarrow> lt_find (nd_tracker n) ''r'' \<noteq> None"
    by code_simp
  then obtain n where n: "node_runs ?ops (new_node decode_config sample_node) = Returns n" "lt_find (nd_tracker n) ''r'' \<noteq> None"
    by (auto split: outcome.splits)
  have run: "node_reaches from_peers (new_node decode_config sample_node) n"
    by (rule node_reaches_runs [OF n(1) node_refl]) simp
  have "peer_imm (htonl (encode_layer_id 1 0))" "peer_imm (htonl (encode_layer_id 1 1))"
    unfolding peer_imm_def by (rule exI [of _ 1], rule exI [of _ 0], simp) (rule exI [of _ 1], rule exI [of _ 1], simp)
  then have peers: "from_peers (On_poll (Some [write_completion 1 0, write_completion 1 1]) (\<lambda>_. True) sample_poll)"
    by (auto simp: write_completion_def)
  have "mc_max_concurrent_requests (cf_memory decode_config) \<le> 256" "2 \<le> sint (cf_num_layers decode_config)"
    "sint (cf_num_layers decode_config) \<le> 256"
    by (simp_all add: decode_config_def sample_rdma_config_def default_memory_config_def)
  from peer_writes_never_complete [OF this run peers] run n(2) show ?thesis by blast
qed

text \<open>The layer and the sequence number of completions whose immediate is in host order.\<close>

definition host_order :: "u16 \<Rightarrow> completion list \<Rightarrow> bool" where
  "host_order s wcs \<longleftrightarrow> (\<forall>wc \<in> set wcs. fst (decode_layer_id (wc_imm wc)) = s)"

definition completed_layers :: "completion list \<Rightarrow> int set" where
  "completed_layers wcs = (\<lambda>wc. uint (snd (decode_layer_id (wc_imm wc)))) ` set wcs"

text \<open>The completion \<open>j\<close> is the one with which the layers, of which those of \<open>R\<close> have arrived before, are complete.\<close>

definition completes :: "int \<Rightarrow> int set \<Rightarrow> completion list \<Rightarrow> nat \<Rightarrow> bool" where
  "completes N R wcs j \<longleftrightarrow> j < length wcs \<and> {0..<N} \<subseteq> R \<union> completed_layers (take (Suc j) wcs)
     \<and> \<not> {0..<N} \<subseteq> R \<union> completed_layers (take j wcs)"

lemma completed_layers_Cons:
  "completed_layers (w # ws) = insert (uint (snd (decode_layer_id (wc_imm w)))) (completed_layers ws)" "completed_layers [] = {}"
  by (simp_all add: completed_layers_def)

lemma completes_Cons:
  assumes "l = uint (snd (decode_layer_id (wc_imm w)))"
  shows "completes N R (w # ws) 0 \<longleftrightarrow> {0..<N} \<subseteq> insert l R \<and> \<not> {0..<N} \<subseteq> R"
    and "completes N R (w # ws) (Suc j) \<longleftrightarrow> completes N (insert l R) ws j"
  using assms by (auto simp: completes_def completed_layers_Cons)

lemma ex_completes_Cons:
  assumes "l = uint (snd (decode_layer_id (wc_imm w)))"
  shows "(\<exists>j. completes N R (w # ws) j \<and> P j) \<longleftrightarrow>
    ({0..<N} \<subseteq> insert l R \<and> \<not> {0..<N} \<subseteq> R \<and> P 0) \<or> (\<exists>j. completes N (insert l R) ws j \<and> P (Suc j))"
  using completes_Cons [OF assms] by (metis nat.exhaust)

lemma complete_once: "{0..<N} \<subseteq> R \<Longrightarrow> \<not> completes N R wcs j"
  by (auto simp: completes_def)

text \<open>Polling the completions of one request, from any state of its table.\<close>

lemma handle_completions_spec:
  assumes "lt_find (nd_tracker n) r = Some i" and "counts_ok N i" and "resolve_seq_num s (nd_tracker n) = r" and "r \<noteq> []"
    and "host_order s wcs"
  shows "\<exists>es. ew_queue (nd_epoll (handle_completions p k wcs n)) = eq_push_all (ew_queue (nd_epoll n)) es
    \<and> length es = (if \<exists>j. completes N (received_ids i) wcs j \<and> pe_fence (p (k + j)) then 1 else 0)
    \<and> (\<forall>(fd, m) \<in> set es. fd = -1 \<and> msg_type m = KV_TRANSFER_COMPLETE \<and> ri_request_id (msg_request_info m) = r)"
  using assms(1-3,5)
proof (induction wcs arbitrary: n i k)
  case Nil
  then show ?case by (auto simp: completes_def intro: exI [of _ "[]"])
next
  case (Cons w ws)
  obtain q la where dec: "decode_layer_id (wc_imm w) = (q, la)" by fastforce
  then have q: "q = s" and ws: "host_order s ws" using Cons.prems(4) by (auto simp: host_order_def)
  have l: "uint la = uint (snd (decode_layer_id (wc_imm w)))" by (simp add: dec)
  note ex = ex_completes_Cons [OF l, of N _ ws "\<lambda>j. pe_fence (p (k + j))"]
  have n: "tr_num_layers i = N" using Cons.prems(2) by (simp add: counts_ok_def)
  let ?n = "handle_completion (p k) w n" and ?R = "received_ids i"
  show ?case
  proof (cases "uint la < N \<and> uint la \<notin> ?R")
    case False
    then have "?n = n" using Cons.prems(1,3) n assms(4) by (auto simp: handle_completion_def dec q mark_cases)
    moreover have same: "{0..<N} \<subseteq> insert (uint la) ?R \<union> X \<longleftrightarrow> {0..<N} \<subseteq> ?R \<union> X" for X using False by auto
    then have "completes N (insert (uint la) ?R) ws j \<longleftrightarrow> completes N ?R ws j" for j by (simp only: completes_def)
    then have "(\<exists>j. completes N ?R (w # ws) j \<and> pe_fence (p (k + j))) \<longleftrightarrow> (\<exists>j. completes N ?R ws j \<and> pe_fence (p (Suc k + j)))"
      unfolding ex using same [of "{}"] by auto
    ultimately show ?thesis using Cons.IH [OF Cons.prems(1-3) ws, of "Suc k"] by (simp only: handle_completions.simps)
  next
    case True
    let ?i = "marked (pe_now1 (p k)) (pe_now2 (p k)) (uint la) i"
    note step = marked_step(1,2) [OF Cons.prems(2) uint_ge_0, of la "pe_now1 (p k)" "pe_now2 (p k)"] marked_step(3) [OF Cons.prems(2) uint_ge_0, of la]
    let ?e = "(-1, kv_complete_message (pe_message (p k)) r (lt_put r ?i (nd_tracker n))) :: event"
    let ?es = "if insert (uint la) ?R = {0..<N} \<and> pe_fence (p k) then [?e] else []"
    have mark: "mark_layer_received (pe_now1 (p k)) (pe_now2 (p k)) r (uint la) (nd_tracker n)
        = (insert (uint la) ?R = {0..<N}, lt_put r ?i (nd_tracker n))"
      using Cons.prems(1) n True step(3) by (simp add: mark_cases)
    have m: "nd_tracker ?n = lt_put r ?i (nd_tracker n)" "ew_queue (nd_epoll ?n) = eq_push_all (ew_queue (nd_epoll n)) ?es"
      using assms(4) Cons.prems(3)
      by (simp_all only: handle_completion_def dec q prod.case Let_def mark if_False if_True HOL.simp_thms)
        (simp_all split: if_split)
    have "lt_find (nd_tracker ?n) r = Some ?i" "resolve_seq_num s (nd_tracker ?n) = r"
      using m(1) Cons.prems(3) by (simp_all add: resolve_seq_num_def)
    from Cons.IH [OF this(1) step(1) this(2) ws, of "Suc k"] True
    obtain es where es: "ew_queue (nd_epoll (handle_completions p (Suc k) ws ?n)) = eq_push_all (ew_queue (nd_epoll ?n)) es"
      "length es = (if \<exists>j. completes N (received_ids ?i) ws j \<and> pe_fence (p (Suc k + j)) then 1 else 0)"
      "\<forall>(fd, m) \<in> set es. fd = -1 \<and> msg_type m = KV_TRANSFER_COMPLETE \<and> ri_request_id (msg_request_info m) = r"
      by blast
    have ids: "received_ids ?i = insert (uint la) ?R" using step True by simp
    have sub: "?R \<subseteq> {0..<N}" "\<not> {0..<N} \<subseteq> ?R" using received_sub [OF Cons.prems(2)] True by auto
    then have whole: "{0..<N} \<subseteq> insert (uint la) ?R \<longleftrightarrow> insert (uint la) ?R = {0..<N}" using True by auto
    have "length (?es @ es) = (if \<exists>j. completes N ?R (w # ws) j \<and> pe_fence (p (k + j)) then 1 else 0)"
      using es(2) complete_once [of N "insert (uint la) ?R" ws] sub(2) by (auto simp: ex ids whole)
    then show ?thesis
      using es(1,3) m(2)
      by (intro exI [of _ "?es @ es"]) (auto simp: eq_push_all_def kv_complete_message_def Let_def split: option.split)
  qed
qed

lemma run_reach:
  assumes "node_reaches P (new_node c g) n"
  shows "lt_reach (node_layout c) (nd_tracker n) \<and> nd_config n = c"
proof -
  have any: "node_reaches (\<lambda>_. True) (new_node c g) n"
    using assms by (induction rule: node_reaches.induct) (auto intro: node_reaches.intros)
  have "nd_config (new_node c g) = c" by (simp add: new_node_def)
  then show ?thesis
    using reach.run_tracker [OF any, of "node_layout c"] by (simp add: new_node_def node_layout_def lt_reach.reach_new)
qed

text \<open>C11 The poller itself is right but for what it drops: were the immediates in host order, then in every reachable state, for a
  tracked request none of whose layers has arrived, polling completions of its layers, in any order and with any repetition,
  puts one event of the right kind that names the request into the queue if the device is synchronised successfully after the
  completion with which all layers have arrived and the queue then has room, and leaves the queue as it was otherwise: before that completion,
  when that synchronisation fails, and when the queue is full. No completion that follows makes up for an event that was not queued.\<close>

theorem host_order_completes_once:
  assumes "node_reaches P (new_node c g) n" and "mc_max_concurrent_requests (cf_memory c) \<le> 65536"
    and "lt_find (nd_tracker n) r = Some i" and "received_ids i = {}" and "r \<noteq> []"
    and "host_order (tr_seq_num i) wcs"
  shows "\<exists>m. msg_type m = KV_TRANSFER_COMPLETE \<and> ri_request_id (msg_request_info m) = r
    \<and> ew_queue (nd_epoll (handle_completions p 0 wcs n)) = (let q = ew_queue (nd_epoll n) in
        if (\<exists>j. completes (tr_num_layers i) {} wcs j \<and> pe_fence (p j)) \<and> length (eq_queue q) < eq_capacity q
        then q\<lparr>eq_queue := eq_queue q @ [(-1, m)]\<rparr> else q)"
proof -
  have max: "ml_max_concurrent_requests (node_layout c) \<le> 65536" using assms(2) by (simp add: node_layout_def)
  have inv: "lt_inv (nd_tracker n)" using lt_reach_inv [OF _ max] run_reach [OF assms(1)] by blast
  note D = lt_inv_D(1,3) [OF inv assms(3)]
  have "counts_ok (tr_num_layers i) i" using D(1) by (simp add: req_ok_def counts_ok_def)
  moreover have "resolve_seq_num (tr_seq_num i) (nd_tracker n) = r" using D(2) by (simp add: resolve_seq_num_def)
  ultimately obtain es where es: "ew_queue (nd_epoll (handle_completions p 0 wcs n)) = eq_push_all (ew_queue (nd_epoll n)) es"
    "length es = (if \<exists>j. completes (tr_num_layers i) {} wcs j \<and> pe_fence (p j) then 1 else 0)"
    "\<forall>(fd, m) \<in> set es. fd = -1 \<and> msg_type m = KV_TRANSFER_COMPLETE \<and> ri_request_id (msg_request_info m) = r"
    using handle_completions_spec [OF assms(3) _ _ assms(5,6), of "tr_num_layers i" p 0] assms(4) by auto
  show ?thesis
  proof (cases "\<exists>j. completes (tr_num_layers i) {} wcs j \<and> pe_fence (p j)")
    case True
    then obtain fd m where "es = [(fd, m)]" using es(2) by (cases es) auto
    with es True show ?thesis by (intro exI [of _ m]) (auto simp: eq_push_def Let_def)
  next
    case False
    have "length es = 0" unfolding es(2) if_not_P [OF False] ..
    then have "es = []" by simp
    with es(1) False show ?thesis
      by (intro exI [of _ "kv_complete_message g r (nd_tracker n)" for g])
        (simp add: kv_complete_message_def Let_def split: option.split)
  qed
qed

theorem host_order_completes_once_witness:
  "\<exists>n m. node_reaches (\<lambda>_. True) (new_node decode_config sample_node) n \<and> msg_type m = KV_TRANSFER_COMPLETE
     \<and> eq_queue (ew_queue (nd_epoll (handle_completions sample_poll 0
          (map (\<lambda>l. \<lparr>wc_success = True, wc_qp_num = 100, wc_imm = encode_layer_id 1 l\<rparr>) [1, 1, 0]) n))) = [(-1, m)]"
proof -
  let ?wcs = "map (\<lambda>l. \<lparr>wc_success = True, wc_qp_num = 100, wc_imm = encode_layer_id 1 l\<rparr>) [1, 1, 0]"
  let ?ops = "[On_event (decode_env Vllm_failed) (prepare_event ''r'' 1)]"
  have "case node_runs ?ops (new_node decode_config sample_node) of Terminated \<Rightarrow> False
      | Returns n \<Rightarrow> (case lt_find (nd_tracker n) ''r'' of None \<Rightarrow> False
          | Some i \<Rightarrow> tr_num_layers i = 2 \<and> tr_seq_num i = 1 \<and> list_all (\<lambda>y. \<not> lm_received y) (tr_layers i) \<and> length (tr_layers i) = 2)
        \<and> eq_queue (ew_queue (nd_epoll n)) = [] \<and> 0 < eq_capacity (ew_queue (nd_epoll n))"
    by code_simp
  then obtain n i where n: "node_runs ?ops (new_node decode_config sample_node) = Returns n"
    and i: "lt_find (nd_tracker n) ''r'' = Some i" "tr_num_layers i = 2" "tr_seq_num i = 1" "list_all (\<lambda>y. \<not> lm_received y) (tr_layers i)"
      "length (tr_layers i) = 2"
    and q: "eq_queue (ew_queue (nd_epoll n)) = []" "0 < eq_capacity (ew_queue (nd_epoll n))"
    by (auto split: outcome.splits option.splits)
  have run: "node_reaches (\<lambda>_. True) (new_node decode_config sample_node) n"
    by (rule node_reaches_runs [OF n node_refl]) simp
  have none: "received_ids i = {}" using i(2,4,5) by (auto simp: received_ids_def list_all_length)
  have order: "host_order (tr_seq_num i) ?wcs"
    by (simp add: host_order_def i(3) encode_layer_id_def decode_layer_id_def)
  have "completed_layers ?wcs = {0, 1}" "completed_layers (take 2 ?wcs) = {1}"
    by (simp_all add: completed_layers_def encode_layer_id_def decode_layer_id_def insert_commute)
  then have "completes (tr_num_layers i) {} ?wcs 2"
    by (simp add: completes_def i(2) numeral_3_eq_3 [symmetric]) (auto simp: set_eq_iff subset_iff)
  moreover have "pe_fence (sample_poll 2)" by (simp add: sample_poll_def)
  ultimately have done_at: "\<exists>j. completes (tr_num_layers i) {} ?wcs j \<and> pe_fence (sample_poll j)" by blast
  have small: "mc_max_concurrent_requests (cf_memory decode_config) \<le> 65536"
    by (simp add: decode_config_def sample_rdma_config_def default_memory_config_def)
  from host_order_completes_once [OF run small i(1) none _ order, of sample_poll]
  obtain m where "msg_type m = KV_TRANSFER_COMPLETE"
    "eq_queue (ew_queue (nd_epoll (handle_completions sample_poll 0 ?wcs n))) = [(-1, m)]"
    using done_at q by (auto simp: Let_def)
  then show ?thesis using run by blast
qed

section \<open>What a node tells the orchestrator\<close>

text \<open>C32 A node never reports a failure. Whatever event it handles, it sends the orchestrator nothing, or one message: that it is
  ready, that a prefill is done, or that a decode is done. A failed call to vLLM or an unknown peer leaves the connection as
  it was, and a queue pair that cannot be connected is reported as ready.\<close>

theorem node_reports_only_success:
  assumes "node_process_event e (fd, m) n = Returns n'"
  shows "nd_epoll n' = nd_epoll n
    \<or> (\<exists>msg. nd_epoll n' = enqueue_response (nd_orchestrator_fd n) msg (nd_epoll n)
         \<and> (msg_type msg = RDMA_READY \<and> msg_type m = BROADCAST_MEMBER_INFO
           \<or> msg_type msg = PREFILL_COMPLETE_ORCHESTRATOR \<and> msg_type m = ASSIGN_REQUEST
               \<and> (\<exists>call tokens. nd_prefill_calls n' = nd_prefill_calls n @ [call] \<and> ne_prefill e call = Vllm_ok tokens)
           \<or> msg_type msg = DECODE_COMPLETE \<and> msg_type m = KV_TRANSFER_COMPLETE
               \<and> (\<exists>call text. nd_decode_calls n' = nd_decode_calls n @ [call] \<and> ne_decode e call = Vllm_ok text)))"
proof -
  let ?n = "n\<lparr>nd_events_processed := nd_events_processed n + 1\<rparr>"
  have ready: ?thesis if "msg_type m = BROADCAST_MEMBER_INFO"
    using assms that
    by (auto simp: node_process_event_def handle_broadcast_member_info_def send_orchestrator_def set_qmaps_def Let_def
        create_rdma_ready_def split: option.splits if_splits prod.splits intro!: disjI2 exI)
  have assign: ?thesis if "msg_type m = ASSIGN_REQUEST"
    using assms that
    by (auto simp: node_process_event_def handle_assign_request_def send_orchestrator_def prefill_done_message_def Let_def
        split: option.splits vllm_answer.splits)
  have decode: ?thesis if "msg_type m = KV_TRANSFER_COMPLETE"
    using assms that
    by (auto simp: node_process_event_def handle_kv_transfer_complete_def send_orchestrator_def on_layers_def decode_complete_def Let_def
        split: option.splits vllm_answer.splits)
  have prepare: ?thesis if "msg_type m = PREPARE_DECODE_SLOT"
    using assms that
    by (auto simp: node_process_event_def handle_prepare_decode_slot_def Let_def split: sum.splits prod.splits)
  show ?thesis
  proof (cases "msg_type m \<in> {BROADCAST_MEMBER_INFO, ASSIGN_REQUEST, KV_TRANSFER_COMPLETE, PREPARE_DECODE_SLOT}")
    case True
    then show ?thesis using ready assign decode prepare by blast
  next
    case False
    then show ?thesis using assms
      by (auto simp: node_process_event_def handle_transfer_ready_def handle_prefill_complete_def Let_def split: message_type.splits)
  qed
qed

text \<open>A decode node that has been told to expect the request \<open>r\<close> in slot 1.\<close>

definition prepared_node :: node where
  "prepared_node = (case node_process_event (decode_env Vllm_failed) (prepare_event ''r'' 1) (new_node decode_config sample_node) of
     Returns n \<Rightarrow> n | Terminated \<Rightarrow> new_node decode_config sample_node)"

lemma prepared_node_run:
  "node_process_event (decode_env Vllm_failed) (prepare_event ''r'' 1) (new_node decode_config sample_node) = Returns prepared_node"
  "\<exists>i. lt_find (nd_tracker prepared_node) ''r'' = Some i \<and> tr_slot_id i = 1"
proof -
  have "case node_process_event (decode_env Vllm_failed) (prepare_event ''r'' 1) (new_node decode_config sample_node) of
      Terminated \<Rightarrow> False | Returns n \<Rightarrow> map_option tr_slot_id (lt_find (nd_tracker n) ''r'') = Some 1"
    by code_simp
  then show "node_process_event (decode_env Vllm_failed) (prepare_event ''r'' 1) (new_node decode_config sample_node) = Returns prepared_node"
    "\<exists>i. lt_find (nd_tracker prepared_node) ''r'' = Some i \<and> tr_slot_id i = 1"
    by (auto simp: prepared_node_def split: outcome.splits)
qed

lemma prepared_node_reached: "node_reaches (\<lambda>_. True) (new_node decode_config sample_node) prepared_node"
  by (rule node_reaches_runs [of "[On_event (decode_env Vllm_failed) (prepare_event ''r'' 1)]", OF _ node_refl])
    (simp_all add: prepared_node_run)

theorem node_reports_only_success_witness:
  "\<exists>n'. node_process_event (decode_env (Vllm_ok ''hi'')) (kv_event ''r'') prepared_node = Returns n'
     \<and> (nd_epoll n' = nd_epoll prepared_node \<or> (\<exists>msg. nd_epoll n' = enqueue_response (nd_orchestrator_fd prepared_node) msg (nd_epoll prepared_node)
          \<and> msg_type msg \<noteq> REQUEST_FAILED))"
proof -
  obtain i where "lt_find (nd_tracker prepared_node) ''r'' = Some i" using prepared_node_run(2) by blast
  then obtain n' where n': "node_process_event (decode_env (Vllm_ok ''hi'')) (kv_event ''r'') prepared_node = Returns n'"
    by (simp add: node_process_event_def kv_event_def handle_kv_transfer_complete_def decode_env_def lt_get_request_def Let_def
        sample_request_def)
  then have "node_process_event (decode_env (Vllm_ok ''hi'')) (fst (kv_event ''r''), snd (kv_event ''r'')) prepared_node = Returns n'"
    by simp
  from node_reports_only_success [OF this] show ?thesis using n' by auto
qed

section \<open>Preparing a slot\<close>

interpretation keys: tracker_invariant "\<lambda>t. keys_distinct (lt_requests t)" N K for N K
proof unfold_locales
  show "keys_distinct (lt_requests t) \<Longrightarrow> lt_add_request now rid pre slot N t = Inr (s, t') \<Longrightarrow> keys_distinct (lt_requests t')"
    for t now rid pre slot s t'
    by (auto simp: lt_add_request_def Let_def split: if_splits option.splits)
  have put: "keys_distinct (lt_requests t) \<Longrightarrow> keys_distinct (lt_requests (lt_put rid i t))" for rid i t
    by (simp add: lt_put_def)
  show "keys_distinct (lt_requests t) \<Longrightarrow> keys_distinct (lt_requests (snd (lt_update_state now rid st t)))" for t now rid st
    using put by (auto simp: lt_update_state_def Let_def split: option.split)
  show "keys_distinct (lt_requests t) \<Longrightarrow> keys_distinct (lt_requests (lt_remove_request rid t))" for t rid
    by (auto simp: lt_remove_request_def split: option.split)
  show "keys_distinct (lt_requests t) \<Longrightarrow> keys_distinct (lt_requests (snd (mark_layer_received now1 now2 (resolve_seq_num q t) (uint l) t)))"
    for t now1 now2 q and l :: u16
    using put by (auto simp: mark_cases split: option.split)
qed

lemma slot_holder_iff:
  assumes "keys_distinct (lt_requests t)"
  shows "slot_holder t slot = None \<longleftrightarrow> (\<forall>r i. lt_find t r = Some i \<longrightarrow> tr_slot_id i \<noteq> slot)"
  using assms by (auto simp: slot_holder_def find_None_iff lt_find_def)

lemma run_keys:
  assumes "node_reaches P (new_node c g) n" shows "keys_distinct (lt_requests (nd_tracker n))"
proof -
  have any: "node_reaches (\<lambda>_. True) (new_node c g) n"
    using assms by (induction rule: node_reaches.induct) (auto intro: node_reaches.intros)
  show ?thesis using keys.run_tracker [OF any] by (simp add: new_node_def new_layer_tracker_def)
qed

lemma lt_add_base:
  "lt_add_request now rid p slot n t = Inr (s, t') \<Longrightarrow> lt_find t' rid = Some i \<Longrightarrow>
   tr_base_offset i = get_slot_base_offset (lt_layout t) slot"
  by (auto simp: lt_add_request_def lt_find_def Let_def split: if_splits option.splits)

lemma lt_add_other:
  "lt_add_request now rid p slot n t = Inr (s, t') \<Longrightarrow> r \<noteq> rid \<Longrightarrow> lt_find t' r = lt_find t r"
  by (auto simp: lt_add_request_def lt_find_def Let_def split: if_splits option.splits)

lemma lt_reach_layout: "lt_reach l t \<Longrightarrow> lt_layout t = l"
  by (induction rule: lt_reach.induct)
    (auto simp: new_layer_tracker_def lt_add_find(1) lt_update_state_def lt_remove_request_def mark_cases Let_def split: option.split)

text \<open>C33 Preparing a slot kills the node or prepares it. The exception of \<open>add_request\<close> is not caught: in every reachable state,
  the process ends exactly if the slot is outside the layout or still held by a request; otherwise the request
  is tracked in that slot, at the offset of the slot, waiting for its layers, and every other request is untouched.\<close>

theorem prepare_slot_outcome:
  assumes "node_reaches P (new_node c g) n" and "0 \<le> sint (cf_num_layers c)" and "msg_type m = PREPARE_DECODE_SLOT"
  defines "slot \<equiv> ri_slot_id (msg_request_info m)" and "rid \<equiv> ri_request_id (msg_request_info m)"
  shows "case node_process_event e (fd, m) n of
      Terminated \<Rightarrow> slot < 0 \<or> slot \<ge> mc_max_concurrent_requests (cf_memory c)
        \<or> (\<exists>r i. lt_find (nd_tracker n) r = Some i \<and> tr_slot_id i = slot)
    | Returns n' \<Rightarrow> 0 \<le> slot \<and> slot < mc_max_concurrent_requests (cf_memory c)
        \<and> (\<forall>r i. lt_find (nd_tracker n) r = Some i \<longrightarrow> tr_slot_id i \<noteq> slot)
        \<and> (\<forall>r. r \<noteq> rid \<longrightarrow> lt_find (nd_tracker n') r = lt_find (nd_tracker n) r)
        \<and> (\<exists>i. lt_find (nd_tracker n') rid = Some i \<and> tr_slot_id i = slot \<and> tr_state i = State_WAITING_FOR_KV
             \<and> tr_base_offset i = get_slot_base_offset (node_layout c) slot \<and> received_ids i = {})"
proof -
  have run: "lt_layout (nd_tracker n) = node_layout c" "nd_config n = c" "keys_distinct (lt_requests (nd_tracker n))"
    using run_reach [OF assms(1)] lt_reach_layout run_keys [OF assms(1)] by blast+
  show ?thesis
  proof (cases "slot < 0 \<or> slot \<ge> mc_max_concurrent_requests (cf_memory c) \<or> slot_holder (nd_tracker n) slot \<noteq> None")
    case True
    then have "node_process_event e (fd, m) n = Terminated"
      using assms(3) run(1) by (auto simp: node_process_event_def handle_prepare_decode_slot_def lt_add_request_def Let_def
          slot_def node_layout_def)
    then show ?thesis using True slot_holder_iff [OF run(3), of slot] by auto
  next
    case False
    then obtain s t where add: "lt_add_request (ne_clock e 0) rid (ri_prefill_node_id (msg_request_info m)) slot (sint (cf_num_layers c)) (nd_tracker n) = Inr (s, t)"
      using assms(2) run(1) by (auto simp: lt_add_request_def node_layout_def Let_def)
    have other: "\<forall>r. r \<noteq> rid \<longrightarrow> lt_find t r = lt_find (nd_tracker n) r" using lt_add_other [OF add] by blast
    obtain i where i: "lt_find t rid = Some i" using lt_add_find(4) [OF add] by blast
    note new = lt_add_find(3) [OF add i] lt_add_base [OF add i]
    let ?n' = "n\<lparr>nd_events_processed := nd_events_processed n + 1, nd_tracker := snd (lt_update_state (ne_clock e 1) rid State_WAITING_FOR_KV t)\<rparr>"
    have "node_process_event e (fd, m) n = Returns ?n'"
      using assms(3) add run(2) by (simp add: node_process_event_def handle_prepare_decode_slot_def Let_def slot_def rid_def)
    moreover have "nd_tracker ?n' = lt_put rid (i\<lparr>tr_state := State_WAITING_FOR_KV\<rparr>) t"
      using i(1) by (simp add: lt_update_state_def Let_def)
    ultimately show ?thesis
      using False i new run(1) other slot_holder_iff [OF run(3), of slot] by (simp add: received_ids_state)
  qed
qed

theorem prepare_slot_outcome_witness:
  "node_process_event (decode_env Vllm_failed) (prepare_event ''q'' 1) prepared_node = Terminated"
proof (rule ccontr)
  obtain fd m where ev: "prepare_event ''q'' 1 = (fd, m)" and m: "msg_type m = PREPARE_DECODE_SLOT"
    "ri_slot_id (msg_request_info m) = 1"
    by (simp add: prepare_event_def)
  have layers: "0 \<le> sint (cf_num_layers decode_config)" by (simp add: decode_config_def)
  assume "\<not> ?thesis"
  then obtain n' where n': "node_process_event (decode_env Vllm_failed) (fd, m) prepared_node = Returns n'"
    by (cases "node_process_event (decode_env Vllm_failed) (prepare_event ''q'' 1) prepared_node") (auto simp: ev)
  obtain i where i: "lt_find (nd_tracker prepared_node) ''r'' = Some i" "tr_slot_id i = 1" using prepared_node_run(2) by blast
  from prepare_slot_outcome [OF prepared_node_reached layers m(1), of "decode_env Vllm_failed" fd] i
  show False by (auto simp: n' m(2))
qed

text \<open>C34 A decode that fails keeps its slot: the request stays in the tracker as failed, in its slot, nothing is sent, and
  the next request that the orchestrator places in that slot ends the process.\<close>

theorem failed_decode_keeps_slot:
  assumes "lt_find (nd_tracker n) r = Some i" and "msg_type m = KV_TRANSFER_COMPLETE" and "ri_request_id (msg_request_info m) = r"
    and "ne_decode e (decode_request (nd_config n) (node_info_of n) m r i) = Vllm_failed"
    and "msg_type m' = PREPARE_DECODE_SLOT" and "ri_slot_id (msg_request_info m') = tr_slot_id i"
  shows "\<exists>n'. node_process_event e (fd, m) n = Returns n' \<and> nd_epoll n' = nd_epoll n
    \<and> (\<exists>j. lt_find (nd_tracker n') r = Some j \<and> tr_state j = State_FAILED \<and> tr_slot_id j = tr_slot_id i)
    \<and> node_process_event e' (fd', m') n' = Terminated"
proof -
  let ?j = "i\<lparr>tr_state := State_FAILED, tr_decode_start_ts := ne_clock e 0\<rparr>"
  obtain n' where n': "node_process_event e (fd, m) n = Returns n'" "nd_epoll n' = nd_epoll n"
    "lt_find (nd_tracker n') r = Some ?j"
    using assms(1-4)
    by (simp add: node_process_event_def handle_kv_transfer_complete_def Let_def lt_get_request_def lt_update_state_def lt_put_def lt_find_def)
  have "slot_holder (nd_tracker n') (tr_slot_id i) \<noteq> None" using slot_holder_None [OF _ n'(3)] by fastforce
  then have "node_process_event e' (fd', m') n' = Terminated"
    using assms(5,6) by (auto simp: node_process_event_def handle_prepare_decode_slot_def lt_add_request_def Let_def)
  then show ?thesis using n' by (intro exI [of _ n']) auto
qed

theorem failed_decode_keeps_slot_witness:
  "\<exists>n'. node_process_event (decode_env Vllm_failed) (kv_event ''r'') prepared_node = Returns n'
     \<and> node_process_event (decode_env Vllm_failed) (prepare_event ''q'' 1) n' = Terminated"
proof -
  obtain i where i: "lt_find (nd_tracker prepared_node) ''r'' = Some i" "tr_slot_id i = 1" using prepared_node_run(2) by blast
  obtain fd m where ev: "kv_event ''r'' = (fd, m)" and m: "msg_type m = KV_TRANSFER_COMPLETE" "ri_request_id (msg_request_info m) = ''r''"
    by (simp add: kv_event_def)
  obtain fd' m' where ev': "prepare_event ''q'' 1 = (fd', m')" and m': "msg_type m' = PREPARE_DECODE_SLOT"
    "ri_slot_id (msg_request_info m') = tr_slot_id i"
    by (simp add: prepare_event_def i(2))
  have "ne_decode (decode_env Vllm_failed) (decode_request (nd_config prepared_node) (node_info_of prepared_node) m ''r'' i) = Vllm_failed"
    by (simp add: decode_env_def)
  from failed_decode_keeps_slot [OF i(1) m this m', of fd "decode_env Vllm_failed" fd'] show ?thesis by (auto simp: ev ev')
qed

section \<open>The start of the cluster\<close>

lemma connect_loop_all:
  assumes "connect_loop a e m = Some (True, m')"
  shows "\<forall>(pid, qp) \<in> set m'. \<exists>q. qp = Some q \<and> qp_state q = QPS_RTS"
  using assms
proof (induction m arbitrary: m')
  case (Cons x m)
  obtain pid qp where x: "x = (pid, qp)" by fastforce
  obtain qp' m'' where c: "connect_qp_to_peer (fst (a pid)) (snd (a pid)) pid qp e = Some (True, qp')"
    "connect_loop a e m = Some (True, m'')" "m' = (pid, qp') # m''"
    using Cons.prems x by (auto split: option.splits bool.splits)
  have "\<exists>q. qp' = Some q \<and> qp_state q = QPS_RTS"
    using c(1) by (auto simp: connect_qp_to_peer_def connect_qp_def Let_def split: option.splits if_splits prod.splits)
  then show ?case using Cons.IH [OF c(2)] c(3) by simp
qed simp

lemma post_recv_wrs_states:
  "post_recv_wrs ok k e = (b, e') \<Longrightarrow> \<forall>(pid, qp) \<in> set (re_peer_qps e). \<exists>q. qp = Some q \<and> qp_state q = QPS_RTS \<Longrightarrow>
   \<forall>(pid, qp) \<in> set (re_peer_qps e'). \<exists>q. qp = Some q \<and> qp_state q = QPS_RTS"
  by (auto simp: post_recv_wrs_def Let_def split: list.splits option.splits prod.splits)

lemma connect_all_qps_rts:
  "connect_all_qps a ok e = Some (True, e') \<Longrightarrow> \<forall>(pid, qp) \<in> set (re_peer_qps e'). \<exists>q. qp = Some q \<and> qp_state q = QPS_RTS"
  using connect_loop_all [of a e "re_peer_qps e"] post_recv_wrs_states
  by (fastforce simp: connect_all_qps_def Let_def split: option.splits prod.splits if_splits)

text \<open>The ready message says nothing about the connections: when the member list has been processed the node announces itself
  ready and counts as running, with the queue pairs as \<open>connect_all_qps\<close> left them, whether or not it succeeded; only if
  it did is every queue pair ready to send.\<close>

theorem ready_despite_failed_connections:
  assumes "msg_type m = BROADCAST_MEMBER_INFO" and "cf_use_gpu (nd_config n)"
    and "exchange_qps (ni_node_id (node_info_of n)) (msg_membership_list_info m) (ni_qmaps (node_info_of n)) = Some qs"
    and "connect_all_qps (ne_connect e) (ne_post_recv e) (nd_engine (set_qmaps qs n)) = Some (connected, eng)"
  shows "\<exists>n' msg. node_process_event e (fd, m) n = Returns n' \<and> nd_state n' = Node_RUNNING \<and> nd_engine n' = eng
    \<and> nd_epoll n' = enqueue_response (nd_orchestrator_fd n) msg (nd_epoll n) \<and> msg_type msg = RDMA_READY
    \<and> (connected \<longrightarrow> (\<forall>(pid, qp) \<in> set (re_peer_qps eng). \<exists>q. qp = Some q \<and> qp_state q = QPS_RTS))"
proof -
  let ?n = "n\<lparr>nd_events_processed := nd_events_processed n + 1\<rparr>"
  have "nd_engine (set_qmaps qs ?n) = nd_engine (set_qmaps qs n)" by (simp add: set_qmaps_def)
  then have "\<exists>n' msg. node_process_event e (fd, m) n = Returns n' \<and> nd_state n' = Node_RUNNING \<and> nd_engine n' = eng
    \<and> nd_epoll n' = enqueue_response (nd_orchestrator_fd n) msg (nd_epoll n) \<and> msg_type msg = RDMA_READY"
    using assms
    by (simp add: node_process_event_def handle_broadcast_member_info_def Let_def send_orchestrator_def create_rdma_ready_def
        set_qmaps_def) auto
  moreover have "connected \<Longrightarrow> \<forall>(pid, qp) \<in> set (re_peer_qps eng). \<exists>q. qp = Some q \<and> qp_state q = QPS_RTS"
    using connect_all_qps_rts [of "ne_connect e" "ne_post_recv e" "nd_engine (set_qmaps qs n)" eng] assms(4) by simp
  ultimately show ?thesis by auto
qed

text \<open>A decode node whose engine has a queue pair for \<open>p0\<close>; connecting it fails.\<close>

definition unconnected_node :: node where
  "unconnected_node = (new_node decode_config sample_node)\<lparr>nd_engine := (new_rdma_engine decode_config decode_member)
     \<lparr>re_initialized := True, re_peer_qps := [(''p0'', Some ((sample_qp 200)\<lparr>qp_state := QPS_INIT\<rparr>))]\<rparr>\<rparr>"

definition broadcast_event :: event where
  "broadcast_event = (3, sample_message\<lparr>msg_type := BROADCAST_MEMBER_INFO, msg_membership_list_info := [prefill_member, decode_member]\<rparr>)"

definition failing_env :: node_env where
  "failing_env = (decode_env Vllm_failed)\<lparr>ne_connect := (\<lambda>_. (False, False))\<rparr>"

theorem ready_despite_failed_connections_witness:
  "\<exists>n' msg. node_process_event failing_env broadcast_event unconnected_node = Returns n' \<and> nd_state n' = Node_RUNNING
     \<and> nd_epoll n' = enqueue_response (nd_orchestrator_fd unconnected_node) msg (nd_epoll unconnected_node)
     \<and> msg_type msg = RDMA_READY
     \<and> list_all (\<lambda>(pid, qp). map_option qp_state qp = Some QPS_INIT) (re_peer_qps (nd_engine n'))"
proof -
  obtain fd m where ev: "broadcast_event = (fd, m)" and m: "msg_type m = BROADCAST_MEMBER_INFO"
    "msg_membership_list_info m = [prefill_member, decode_member]"
    by (simp add: broadcast_event_def)
  have gpu: "cf_use_gpu (nd_config unconnected_node)"
    by (simp add: unconnected_node_def new_node_def decode_config_def sample_rdma_config_def)
  have "case exchange_qps (ni_node_id (node_info_of unconnected_node)) [prefill_member, decode_member] (ni_qmaps (node_info_of unconnected_node)) of
      None \<Rightarrow> False | Some qs \<Rightarrow>
        (case connect_all_qps (ne_connect failing_env) (ne_post_recv failing_env) (nd_engine (set_qmaps qs unconnected_node)) of
           None \<Rightarrow> False
         | Some (connected, eng) \<Rightarrow> list_all (\<lambda>(pid, qp). map_option qp_state qp = Some QPS_INIT) (re_peer_qps eng))"
    by code_simp
  then obtain qs connected eng where qs:
    "exchange_qps (ni_node_id (node_info_of unconnected_node)) (msg_membership_list_info m) (ni_qmaps (node_info_of unconnected_node)) = Some qs"
    "connect_all_qps (ne_connect failing_env) (ne_post_recv failing_env) (nd_engine (set_qmaps qs unconnected_node)) = Some (connected, eng)"
    "list_all (\<lambda>(pid, qp). map_option qp_state qp = Some QPS_INIT) (re_peer_qps eng)"
    by (auto simp: m(2) split: option.splits prod.splits)
  from ready_despite_failed_connections [OF m(1) gpu qs(1,2), of fd] qs(3) show ?thesis by (auto simp: ev)
qed

section \<open>Memory of a started node\<close>

lemma uint_mult_exact: "uint x * uint y < 2 ^ 64 \<Longrightarrow> uint (x * y) = uint x * uint y" for x y :: u64
  using uint_mult_lem [of x y] by simp

lemma uint_mb: "uint x < 2 ^ 44 \<Longrightarrow> uint (x * 1024 * 1024) = uint x * 1048576" for x :: u64
  using uint_mult_exact [of x 1024] uint_mult_exact [of "x * 1024" 1024] by simp

lemma required_mb_exact:
  assumes "uint (cf_num_layers c) * uint (mc_layer_size_mb m) * mc_max_concurrent_requests m < 2 ^ 64"
    and "0 < mc_max_concurrent_requests m" and "0 < uint (cf_num_layers c)" and "0 < uint (mc_layer_size_mb m)"
  shows "uint (required_mb (cf_num_layers c) m) = uint (cf_num_layers c) * uint (mc_layer_size_mb m) * mc_max_concurrent_requests m"
proof -
  let ?l = "uint (cf_num_layers c)" and ?s = "uint (mc_layer_size_mb m)" and ?k = "mc_max_concurrent_requests m"
  have ls: "?l * ?s \<le> ?l * ?s * ?k" "?k \<le> ?l * ?s * ?k"
    using mult_left_mono [of 1 ?k "?l * ?s"] mult_right_mono [of 1 "?l * ?s" ?k] assms(2-4) mult_pos_pos [OF assms(3,4)] by linarith+
  have "?k < 2 ^ 64" using ls(2) assms(1) by linarith
  then have k: "uint (word_of_int ?k :: u64) = ?k"
    using assms(2) by (simp add: unsigned_of_int take_bit_int_eq_self)
  have l: "uint (ucast (cf_num_layers c) :: u64) = ?l"
    by (simp add: unsigned_ucast_eq take_bit_int_eq_self order.strict_trans2 [OF uint_lt2p])
  have "uint (ucast (cf_num_layers c) * mc_layer_size_mb m :: u64) = ?l * ?s"
    using uint_mult_exact [of "ucast (cf_num_layers c)" "mc_layer_size_mb m"] l ls assms(1) by simp
  then show ?thesis
    using uint_mult_exact [of "ucast (cf_num_layers c) * mc_layer_size_mb m" "word_of_int ?k"] k assms(1)
    by (simp add: required_mb_def)
qed

lemma node_start_checked:
  "node_start a n = (True, n') \<Longrightarrow> mc_required_mb (cf_memory (nd_config n)) \<le> mc_kv_buffer_mb (cf_memory (nd_config n))"
  by (auto simp: node_start_def Let_def split: if_splits)

text \<open>A node that starts with a configuration read from a file has room for its layers: every layer of every slot lies within the memory the
  engine registers, as long as the required size does not wrap 64 bits.\<close>

theorem started_node_memory:
  assumes "config_from_file api y file = Inr c" and "node_start a (new_node c g) = (True, n)"
    and "uint (cf_num_layers c) * uint (mc_layer_size_mb (cf_memory c)) * mc_max_concurrent_requests (cf_memory c) < 2 ^ 64"
    and "uint (mc_kv_buffer_mb (cf_memory c)) < 2 ^ 44" and "uint (cf_num_layers c) < 2 ^ 31" and "0 < mc_layer_size_mb (cf_memory c)"
    and "0 \<le> slot" and "slot < mc_max_concurrent_requests (cf_memory c)" and "0 \<le> layer" and "layer < sint (cf_num_layers c)"
  shows "uint (layout_layer_offset (node_layout c) slot layer) + uint (layer_bytes c) \<le> uint (kv_bytes c)"
proof -
  let ?l = "uint (cf_num_layers c)" and ?m = "cf_memory c"
  let ?s = "uint (mc_layer_size_mb ?m)" and ?k = "mc_max_concurrent_requests ?m"
  have "- (2 ^ 31) \<le> ?l" by (rule order_trans [of _ 0]) simp_all
  then have sl: "sint (cf_num_layers c) = ?l"
    using assms(5) signed_take_bit_int_eq_self [of 31 ?l] by (simp add: sint_uint)
  have pos: "0 < ?k" "0 < ?l" "0 < ?s" using assms(6-10) sl by (auto simp: word_less_def)
  have "required_mb (cf_num_layers c) ?m \<le> mc_kv_buffer_mb ?m"
    using node_start_checked [OF assms(2)] accepted_config_required [OF assms(1)] by (simp add: new_node_def)
  then have fit: "?l * ?s * ?k \<le> uint (mc_kv_buffer_mb ?m)"
    using required_mb_exact [OF assms(3) pos] by (simp add: word_le_def)
  have "?s \<le> ?l * ?s * ?k"
    using mult_right_mono [of 1 "?l * ?k" ?s] mult_pos_pos [OF pos(2,1)] pos(3) by (simp add: mult.commute mult.left_commute)
  then have bytes: "uint (mc_layer_size_mb ?m * 1024 * 1024) = ?s * 1048576"
    "uint (mc_kv_buffer_mb ?m * 1024 * 1024) = uint (mc_kv_buffer_mb ?m) * 1048576"
    using uint_mb fit assms(4) by simp_all
  have "?k * (?l * (?s * 1048576)) \<le> uint (mc_kv_buffer_mb ?m) * 1048576"
    using mult_right_mono [OF fit, of 1048576] by (simp add: mult.assoc mult.commute mult.left_commute)
  then have "layout_fits (node_layout c)"
    using pos unfolding layout_fits_def node_layout_def memory_layout.select_convs bytes sl by simp
  from uint_layer_offset(2) [OF this assms(7) _ assms(9)] assms(8,10)
  show ?thesis by (simp add: node_layout_def layer_bytes_def kv_bytes_def)
qed

definition start_calls :: node_start_calls where
  "start_calls = \<lparr>ns_bind = Some 4, ns_listen = True, ns_epoll_fd = 5, ns_nonblock = True, ns_ctl = True,
     ns_init = sample_init_calls\<lparr>ic_qp := (\<lambda>pid. \<lparr>qa_create = Some 100, qa_init = True, qa_psn = 5, qa_gid = (\<lambda>_ _. None)\<rparr>)\<rparr>,
     ns_connect = Some 6, ns_conn_nonblock = True, ns_conn_ctl = True, ns_now = 9, ns_message = sample_message\<rparr>"

lemma create_qps_all:
  "\<forall>pid \<in> set ps. qa_create (a pid) \<noteq> None \<and> qa_init (a pid) \<Longrightarrow> fst (create_qps a ps e)"
proof (induction a ps e rule: create_qps.induct)
  case (2 a pid ps e)
  then show ?case by (force simp: create_qp_for_peer_def Let_def)
qed simp

lemma start_calls_initialize: "\<exists>e'. rdma_initialize (ns_init start_calls) e = (True, e')"
proof -
  have qps: "create_qps (\<lambda>pid. \<lparr>qa_create = Some 100, qa_init = True, qa_psn = 5, qa_gid = (\<lambda>_ _. None)\<rparr>) ps e \<noteq> (False, e')" for ps e e'
    using create_qps_all [of ps "\<lambda>pid. \<lparr>qa_create = Some 100, qa_init = True, qa_psn = 5, qa_gid = (\<lambda>_ _. None)\<rparr>" e] by auto
  obtain e1 where "probe_and_bind_devices (ic_gpus (ns_init start_calls)) (ic_ports (ns_init start_calls)) e = (True, e1)"
    "ni_ib_dev_name (re_node_info e1) = ''mlx5_0''"
    by (simp add: start_calls_def sample_init_calls_def probe_and_bind_devices_def best_port_def better_port_def)
  then show ?thesis
    by (simp add: rdma_initialize_def start_calls_def sample_init_calls_def open_ib_device_def alloc_and_register_memory_def
        alloc_and_register_cpu_mem_def create_cqs_def create_cqs_only_def Let_def qps split: prod.split bool.split)
qed

lemma node_start_ok:
  assumes "mc_required_mb (cf_memory (nd_config n)) \<le> mc_kv_buffer_mb (cf_memory (nd_config n))"
    and "ns_bind a = Some sfd" and "ns_listen a" and "\<exists>e'. rdma_initialize (ns_init a) (nd_engine n) = (True, e')"
    and "ns_connect a = Some fd" and "0 \<le> fd" and "ns_conn_nonblock a" and "ns_conn_ctl a"
  shows "\<exists>n'. node_start a n = (True, n')"
proof -
  obtain e' where "rdma_initialize (ns_init a) (nd_engine n) = (True, e')" using assms(4) by blast
  then show ?thesis
    using assms(1,6)
    by (cases "cf_use_gpu (nd_config n)")
      (simp_all add: node_start_def assms(2,3,5,7,8) connect_to_orchestrator_def send_node_info_to_orchestrator_def node_worker_of_def
        set_node_worker_def add_connection_def Let_def not_less)
qed

lemma start_calls_start:
  assumes "mc_required_mb (cf_memory c) \<le> mc_kv_buffer_mb (cf_memory c)"
  shows "\<exists>n. node_start start_calls (new_node c g) = (True, n)"
proof (rule node_start_ok [where sfd = 4 and fd = 6])
  show "\<exists>e'. rdma_initialize (ns_init start_calls) (nd_engine (new_node c g)) = (True, e')" by (rule start_calls_initialize)
qed (use assms in \<open>simp_all add: new_node_def start_calls_def\<close>)

text \<open>Twelve layers of 128 MB, eight slots, in 16 GB: the last layer of the last slot ends inside.\<close>

theorem started_node_memory_witness:
  "\<exists>c n. config_from_file yaml_tree (0, 0) (Some sample_yaml) = Inr c \<and> node_start start_calls (new_node c sample_node) = (True, n)
     \<and> uint (layout_layer_offset (node_layout c) 7 11) + uint (layer_bytes c) \<le> uint (kv_bytes c)"
proof -
  obtain c where c: "config_from_file yaml_tree (0, 0) (Some sample_yaml) = Inr c"
    and m: "cf_num_layers c = 12" "cf_memory c = default_memory_config\<lparr>mc_required_mb := 12288\<rparr>"
    using sample_yaml_config by blast
  have "mc_required_mb (cf_memory c) \<le> mc_kv_buffer_mb (cf_memory c)" by (simp add: m(2) default_memory_config_def)
  then obtain n where n: "node_start start_calls (new_node c sample_node) = (True, n)" using start_calls_start by blast
  from started_node_memory [OF c n, of 7 11] c n m show ?thesis by (auto simp: default_memory_config_def)
qed

section \<open>Stopping after a fatal error\<close>

text \<open>Once the engine is fatal the polling thread ends itself and clears the flag that \<open>shutdown\<close> tests before it joins: the thread
  is never joined, and the destructor of a joinable thread terminates the process.\<close>

theorem fatal_poll_thread_not_joined:
  assumes "nd_poll_running n" and "re_fatal (nd_engine n)" and "nd_poll_thread n" and "nd_running n"
  shows "nd_poll_thread (node_shutdown gpu (poll_turn polled ok p n))"
  using assms by (simp add: poll_turn_def node_shutdown_def stop_pool_def stop_io_def Let_def)

end
