(* ===== verification/Connection.thy ===== *)
theory Connection
  imports Epoll Config
begin

text \<open>
  The blocking connection of \<open>src/cpp/common/connection.cpp\<close>, the client side's end of the wire. The kernel is a
  script: one entry per turn of a loop says what the calls of that turn return. The peer's byte stream is
  the list of the bytes still to come; \<open>recv\<close> at its end reports a closed connection. \<open>None\<close>
  stands for a call that is still blocked when the script ends.
\<close>

section \<open>State\<close>

record connection =
  cn_sockfd :: int
  cn_write_buffer :: bytes
  cn_node_host :: string
  cn_node_port :: u16

definition new_connection :: "int \<Rightarrow> connection" where
  "new_connection fd = \<lparr>cn_sockfd = fd, cn_write_buffer = [], cn_node_host = [], cn_node_port = 0\<rparr>"

definition set_node_info :: "string \<Rightarrow> u16 \<Rightarrow> connection \<Rightarrow> connection" where
  "set_node_info h p c = c\<lparr>cn_node_host := h, cn_node_port := p\<rparr>"

text \<open>The descriptors closed, and the connection afterwards.\<close>

definition close_connection :: "connection \<Rightarrow> int list \<times> connection" where
  "close_connection c =
     (if cn_sockfd c \<ge> 0 then ([cn_sockfd c], c\<lparr>cn_sockfd := -1, cn_write_buffer := []\<rparr>)
      else ([], c\<lparr>cn_write_buffer := []\<rparr>))"

text \<open>Moving: the source gives its descriptor away; assignment to another object first closes the target's own.
  The source's strings and buffers are left unspecified by the standard and are not used again.\<close>

definition move_connection :: "connection \<Rightarrow> connection \<times> connection" where
  "move_connection other = (other, other\<lparr>cn_sockfd := -1, cn_node_port := 0\<rparr>)"

definition move_assign :: "connection \<Rightarrow> connection \<Rightarrow> int list \<times> connection \<times> connection" where
  "move_assign c other = (fst (close_connection c), move_connection other)"

section \<open>Connecting\<close>

text \<open>What the calls of one attempt return; resolving is \<open>getaddrinfo\<close> or \<open>inet_pton\<close>.\<close>

record connect_calls =
  cc_socket :: int
  cc_resolved :: bool
  cc_connected :: bool

text \<open>\<open>connect\<close>: a descriptor the object still held is overwritten, not closed.\<close>

definition connect_socket :: "connect_calls \<Rightarrow> connection \<Rightarrow> bool \<times> int list \<times> connection" where
  "connect_socket k c =
     (let fd = cc_socket k in
      if fd < 0 then (False, [], c\<lparr>cn_sockfd := fd\<rparr>)
      else if \<not> cc_resolved k then (False, [fd], c\<lparr>cn_sockfd := -1\<rparr>)
      else if \<not> cc_connected k then (False, [fd], c\<lparr>cn_sockfd := -1\<rparr>)
      else (True, [], c\<lparr>cn_sockfd := fd\<rparr>))"

text \<open>\<open>connect_with_ip\<close> takes a dotted address instead of a name: \<open>inet_pton\<close> wants four decimal numbers up to 255
  without leading zeros.\<close>

fun split_dots :: "string \<Rightarrow> string list" where
  "split_dots [] = [[]]"
| "split_dots (c # cs) = (let ps = split_dots cs in if c = CHR ''.'' then [] # ps else (c # hd ps) # tl ps)"

definition digit_of :: "char \<Rightarrow> nat option" where
  "digit_of c = (let k = of_char c in if 48 \<le> k \<and> k \<le> 57 then Some (k - 48) else None)"

fun read_digits :: "nat \<Rightarrow> string \<Rightarrow> nat option" where
  "read_digits n [] = Some n"
| "read_digits n (c # cs) = (case digit_of c of None \<Rightarrow> None | Some d \<Rightarrow> read_digits (10 * n + d) cs)"

definition read_octet :: "string \<Rightarrow> u8 option" where
  "read_octet s = (if s = [] \<or> (hd s = CHR ''0'' \<and> s \<noteq> ''0'') then None
     else case read_digits 0 s of None \<Rightarrow> None | Some n \<Rightarrow> if n \<le> 255 then Some (word_of_nat n) else None)"

definition inet_pton4 :: "string \<Rightarrow> bytes option" where
  "inet_pton4 s = (case split_dots s of
     [a, b, c, d] \<Rightarrow> do { a \<leftarrow> read_octet a; b \<leftarrow> read_octet b; c \<leftarrow> read_octet c; d \<leftarrow> read_octet d; Some [a, b, c, d] }
   | _ \<Rightarrow> None)"

definition connect_with_ip :: "connect_calls \<Rightarrow> string \<Rightarrow> connection \<Rightarrow> bool \<times> int list \<times> connection" where
  "connect_with_ip k ip c =
     (let fd = cc_socket k in
      if fd < 0 then (False, [], c\<lparr>cn_sockfd := fd\<rparr>)
      else if inet_pton4 ip = None then (False, [fd], c\<lparr>cn_sockfd := -1\<rparr>)
      else if \<not> cc_connected k then (False, [fd], c\<lparr>cn_sockfd := -1\<rparr>)
      else (True, [], c\<lparr>cn_sockfd := fd\<rparr>))"

text \<open>A name is not resolved: a host that is not a dotted address always fails, and the new socket is closed again.\<close>

theorem connect_with_ip_name:
  assumes "digit_of (hd host) = None" and "hd host \<noteq> CHR ''.''" and "host \<noteq> []"
  shows "fst (connect_with_ip k host c) = False \<and> (0 \<le> cc_socket k \<longrightarrow> fst (snd (connect_with_ip k host c)) = [cc_socket k])"
proof -
  have "read_octet (h # p) = None" if "digit_of h = None" for h p
    using that by (simp add: read_octet_def)
  then have "inet_pton4 host = None"
    using assms by (cases host) (auto simp: inet_pton4_def Let_def split: list.splits)
  then show ?thesis by (simp add: connect_with_ip_def Let_def)
qed

theorem connect_with_ip_sample:
  "inet_pton4 ''130.127.134.14'' = Some [130, 127, 134, 14] \<and> inet_pton4 ''10.0.0.256'' = None
   \<and> inet_pton4 ''10.0.01.1'' = None \<and> inet_pton4 ''10.0.0'' = None"
  by code_simp

section \<open>The listening socket\<close>

text \<open>\<open>TCPServer\<close> of \<open>src/cpp/network/tcp_server.cpp\<close> is its descriptor. \<open>tcp_bind\<close> takes the answers of
  \<open>socket\<close>, \<open>setsockopt\<close> and \<open>bind\<close>; the lists are the descriptors closed.\<close>

definition tcp_bind :: "int \<Rightarrow> bool \<Rightarrow> bool \<Rightarrow> bool \<times> int list \<times> int" where
  "tcp_bind fd opt bound =
     (if fd < 0 then (False, [], fd)
      else if \<not> opt then (False, [fd], -1)
      else if \<not> bound then (False, [fd], -1)
      else (True, [], fd))"

definition tcp_accept :: "int \<Rightarrow> connection option" where
  "tcp_accept client_fd = (if client_fd < 0 then None else Some (new_connection client_fd))"

definition tcp_close :: "int \<Rightarrow> int list \<times> int" where
  "tcp_close fd = (if fd \<ge> 0 then ([fd], -1) else ([], fd))"

section \<open>Sending\<close>

datatype send_call = Send_n nat | Send_interrupted | Send_failed

text \<open>The loop of \<open>send_bytes\<close>: the result and the bytes handed to the kernel.\<close>

fun send_bytes_loop :: "send_call list \<Rightarrow> bytes \<Rightarrow> (bool \<times> bytes) option" where
  "send_bytes_loop script [] = Some (True, [])"
| "send_bytes_loop [] (b # bs) = None"
| "send_bytes_loop (Send_interrupted # script) (b # bs) = send_bytes_loop script (b # bs)"
| "send_bytes_loop (Send_failed # script) (b # bs) = Some (False, [])"
| "send_bytes_loop (Send_n n # script) (b # bs) =
     (if n = 0 then Some (False, [])
      else map_option (\<lambda>(ok, out). (ok, take n (b # bs) @ out)) (send_bytes_loop script (drop n (b # bs))))"

definition send_bytes :: "send_call list \<Rightarrow> bytes \<Rightarrow> connection \<Rightarrow> (bool \<times> bytes) option" where
  "send_bytes script data c = (if cn_sockfd c < 0 then Some (False, []) else send_bytes_loop script data)"

definition send_message :: "send_call list \<Rightarrow> message \<Rightarrow> connection \<Rightarrow> (bool \<times> bytes \<times> connection) option" where
  "send_message script m c =
     (let payload = serialize_message m;
          c = c\<lparr>cn_write_buffer := mem_of_u32 (htonl (word_of_nat (length payload))) @ payload\<rparr> in
      map_option (\<lambda>(ok, out). (ok, out, c)) (send_bytes script (cn_write_buffer c) c))"

section \<open>Receiving\<close>

datatype poll_call = Poll_ready | Poll_hang_up | Poll_timeout | Poll_interrupted | Poll_failed
datatype recv_call = Recv_up_to nat | Recv_interrupted | Recv_failed

text \<open>One turn: the milliseconds since the call began, and the answers of \<open>poll\<close> and \<open>recv\<close>. \<open>Recv_up_to k\<close> takes
  at most \<open>k + 1\<close> of the bytes to come.\<close>

record turn =
  tn_elapsed :: int
  tn_poll :: poll_call
  tn_recv :: recv_call

datatype turn_check = Turn_recv | Turn_again | Turn_fail

definition check_turn :: "int \<Rightarrow> turn \<Rightarrow> turn_check" where
  "check_turn timeout t =
     (if timeout < 0 then Turn_recv
      else if timeout - tn_elapsed t \<le> 0 then Turn_fail
      else case tn_poll t of
        Poll_ready \<Rightarrow> Turn_recv | Poll_interrupted \<Rightarrow> Turn_again | _ \<Rightarrow> Turn_fail)"

text \<open>The loop of \<open>receive_bytes\<close>, \<open>acc\<close> holding what has arrived. The result is the buffer, or \<open>None\<close> for a
  failure, with the rest of the script and of the stream.\<close>

type_synonym 'a received = "('a option \<times> turn list \<times> bytes) option"

fun receive_loop :: "int \<Rightarrow> nat \<Rightarrow> bytes \<Rightarrow> turn list \<Rightarrow> bytes \<Rightarrow> bytes received" where
  "receive_loop timeout n acc [] inp = (if n \<le> length acc then Some (Some acc, [], inp) else None)"
| "receive_loop timeout n acc (t # ts) inp =
     (if n \<le> length acc then Some (Some acc, t # ts, inp)
      else case check_turn timeout t of
        Turn_fail \<Rightarrow> Some (None, ts, inp)
      | Turn_again \<Rightarrow> receive_loop timeout n acc ts inp
      | Turn_recv \<Rightarrow>
          (case tn_recv t of
             Recv_failed \<Rightarrow> Some (None, ts, inp)
           | Recv_interrupted \<Rightarrow> receive_loop timeout n acc ts inp
           | Recv_up_to k \<Rightarrow>
               (let got = min (Suc k) (min (n - length acc) (length inp)) in
                if got = 0 then Some (None, ts, inp)
                else receive_loop timeout n (acc @ take got inp) ts (drop got inp))))"

definition receive_bytes :: "int \<Rightarrow> nat \<Rightarrow> turn list \<Rightarrow> bytes \<Rightarrow> connection \<Rightarrow> bytes received" where
  "receive_bytes timeout n ts inp c =
     (if cn_sockfd c < 0 then Some (None, ts, inp) else receive_loop timeout n [] ts inp)"

text \<open>Each of the two reads gets the whole timeout.\<close>

definition receive_message :: "int \<Rightarrow> turn list \<Rightarrow> bytes \<Rightarrow> connection \<Rightarrow> message received" where
  "receive_message timeout ts inp c =
     (case receive_bytes timeout 4 ts inp c of
        None \<Rightarrow> None
      | Some (None, ts, inp) \<Rightarrow> Some (None, ts, inp)
      | Some (Some header, ts, inp) \<Rightarrow>
          (let len = ntohl (u32_of_mem header) in
           if len = 0 \<or> len > 10 * 1024 * 1024 then Some (None, ts, inp)
           else case receive_bytes timeout (unat len) ts inp c of
             None \<Rightarrow> None
           | Some (None, ts, inp) \<Rightarrow> Some (None, ts, inp)
           | Some (Some payload, ts, inp) \<Rightarrow> Some (deserialize_message payload, ts, inp)))"

section \<open>Sending and receiving agree\<close>

lemma send_loop_prefix:
  "send_bytes_loop script data = Some (ok, out) \<Longrightarrow> \<exists>rest. data = out @ rest \<and> (ok \<longrightarrow> rest = [])"
proof (induction script data arbitrary: out rule: send_bytes_loop.induct)
  case (5 n script b bs)
  show ?case
  proof (cases "n = 0")
    case False
    then obtain o2 where "send_bytes_loop script (drop n (b # bs)) = Some (ok, o2)" "out = take n (b # bs) @ o2"
      using 5(2) by auto
    with 5(1) [OF False this(1)] show ?thesis
      by (metis append.assoc append_take_drop_id)
  qed (use 5(2) in auto)
qed auto

text \<open>A turn that reads: no timeout has run out and nothing fails.\<close>

definition good_turn :: "int \<Rightarrow> turn \<Rightarrow> bool" where
  "good_turn timeout t \<longleftrightarrow> check_turn timeout t = Turn_recv \<and> (\<exists>k. tn_recv t = Recv_up_to k)"

lemma receive_loop_good:
  assumes "\<forall>t \<in> set ts. good_turn timeout t" and "n \<le> length acc + length ts" and "n \<le> length acc + length inp"
    and "length acc \<le> n"
  shows "\<exists>ts'. receive_loop timeout n acc ts inp = Some (Some (acc @ take (n - length acc) inp), ts', drop (n - length acc) inp)
    \<and> length ts \<le> length ts' + (n - length acc) \<and> set ts' \<subseteq> set ts"
  using assms
proof (induction ts arbitrary: acc inp)
  case (Cons t ts)
  show ?case
  proof (cases "n \<le> length acc")
    case False
    obtain k where k: "tn_recv t = Recv_up_to k" "check_turn timeout t = Turn_recv"
      using Cons.prems(1) by (auto simp: good_turn_def)
    define got where "got = min (Suc k) (min (n - length acc) (length inp))"
    have got: "0 < got" "got \<le> n - length acc" "got \<le> length inp"
      using False Cons.prems(3) by (auto simp: got_def)
    have "\<exists>ts'. receive_loop timeout n (acc @ take got inp) ts (drop got inp)
        = Some (Some ((acc @ take got inp) @ take (n - length (acc @ take got inp)) (drop got inp)), ts',
            drop (n - length (acc @ take got inp)) (drop got inp))
      \<and> length ts \<le> length ts' + (n - length (acc @ take got inp)) \<and> set ts' \<subseteq> set ts"
      using Cons.prems got by (intro Cons.IH) auto
    moreover have "receive_loop timeout n acc (t # ts) inp = receive_loop timeout n (acc @ take got inp) ts (drop got inp)"
      using False k got(1) by (simp add: Let_def flip: got_def)
    moreover have "take got inp @ take (n - (length acc + got)) (drop got inp) = take (n - length acc) inp"
      using got take_add [of got "n - (length acc + got)" inp] by simp
    ultimately show ?thesis using got by (auto simp: min_absorb2)
  qed simp
qed simp

lemma receive_bytes_good:
  assumes "\<forall>t \<in> set ts. good_turn timeout t" and "length data \<le> length ts" and "cn_sockfd c \<ge> 0"
  shows "\<exists>ts'. receive_bytes timeout (length data) ts (data @ rest) c = Some (Some data, ts', rest)
    \<and> length ts \<le> length ts' + length data \<and> (\<forall>t \<in> set ts'. good_turn timeout t)"
  using receive_loop_good [of ts timeout "length data" "[]" "data @ rest"] assms
  by (auto simp: receive_bytes_def)

lemma receive_header_good:
  assumes "\<forall>t \<in> set ts. good_turn timeout t" and "4 \<le> length ts" and "cn_sockfd c \<ge> 0"
  obtains ts' where "receive_bytes timeout 4 ts (frame_bytes p @ rest) c
      = Some (Some (mem_of_u32 (htonl (word_of_nat (length p)))), ts', p @ rest)"
    "length ts \<le> length ts' + 4" "\<forall>t \<in> set ts'. good_turn timeout t"
  using receive_bytes_good [OF assms(1) _ assms(3), of "mem_of_u32 (htonl (word_of_nat (length p)))" "p @ rest"] assms(2)
  by (auto simp: frame_bytes_def)

lemma unat_frame_length: "length p \<le> 16777216 \<Longrightarrow> unat (word_of_nat (length p) :: u32) = length p"
  by (simp add: unsigned_of_nat take_bit_nat_eq_self)

lemma receive_frame:
  assumes "\<forall>t \<in> set ts. good_turn timeout t" and "4 + length p \<le> length ts" and "cn_sockfd c \<ge> 0"
    and "p \<noteq> []" and "length p \<le> 10485760"
  shows "\<exists>ts'. receive_message timeout ts (frame_bytes p @ rest) c = Some (deserialize_message p, ts', rest)"
proof -
  obtain ts1 where 1: "receive_bytes timeout 4 ts (frame_bytes p @ rest) c
      = Some (Some (mem_of_u32 (htonl (word_of_nat (length p)))), ts1, p @ rest)"
    "length ts \<le> length ts1 + 4" "\<forall>t \<in> set ts1. good_turn timeout t"
    using receive_header_good [OF assms(1) _ assms(3)] assms(2) by (metis add_leD1)
  have len: "unat (word_of_nat (length p) :: u32) = length p" using assms(5) by (intro unat_frame_length) simp
  obtain ts2 where "receive_bytes timeout (length p) ts1 (p @ rest) c = Some (Some p, ts2, rest)"
    using receive_bytes_good [OF 1(3) _ assms(3), of p rest] 1(2) assms(2) by auto
  moreover have "(word_of_nat (length p) :: u32) \<noteq> 0" using len assms(4) by (metis length_0_conv unat_0)
  moreover have "\<not> (word_of_nat (length p) :: u32) > 10 * 1024 * 1024"
    using len assms(5) by (simp add: word_less_nat_alt)
  ultimately show ?thesis using 1(1) len by (simp add: receive_message_def Let_def)
qed

text \<open>C18 What one connection sends the other receives: if \<open>send_message\<close> reports success and the payload is at most 10 MiB, the
  receiver gets the message back from however small pieces the kernel delivers, and the bytes behind it stay
  in the stream. One byte per turn is enough.\<close>

theorem connection_roundtrip:
  assumes "message_ok m" and "length (serialize_message m) \<le> 10485760"
    and "send_message script m c = Some (True, out, c')" and "cn_sockfd c2 \<ge> 0"
    and "\<forall>t \<in> set ts. good_turn timeout t" and "length out \<le> length ts"
  shows "out = frame m \<and> (\<exists>ts'. receive_message timeout ts (out @ rest) c2 = Some (Some (message_on_wire m), ts', rest))"
proof -
  have "send_bytes script (frame m) (c\<lparr>cn_write_buffer := frame m\<rparr>) = Some (True, out)"
    using assms(3) by (auto simp: send_message_def Let_def frame_def frame_bytes_def)
  then have out: "out = frame m"
    using send_loop_prefix [of script "frame m" True out] by (auto simp: send_bytes_def split: if_splits)
  moreover have "deserialize_message (serialize_message m) = Some (message_on_wire m)"
    using message_rd_wr [OF assms(1), of "[]"] by (simp add: deserialize_message_def)
  moreover have "4 + length (serialize_message m) \<le> length ts"
    using assms(6) by (simp add: out frame_def frame_bytes_def)
  ultimately show ?thesis
    using receive_frame [OF assms(5) _ assms(4), of "serialize_message m" rest] assms(2) by (auto simp: frame_def)
qed

definition sample_turn :: turn where
  "sample_turn = \<lparr>tn_elapsed = 0, tn_poll = Poll_ready, tn_recv = Recv_up_to 0\<rparr>"

lemma sample_turn_good [simp]: "good_turn 1000 sample_turn"
  by (simp add: good_turn_def check_turn_def sample_turn_def)

lemma sample_message_short: "length (serialize_message sample_message) \<le> 10485760"
  by (simp add: serialize_message_def sample_message_def write_uint8_def write_uint64_def
      write_string_def write_request_info_def sample_request_def write_int_def write_node_info_def
      sample_node_def write_uint16_def write_peer_info_def sample_peer_def)

theorem connection_roundtrip_witness:
  "\<exists>out c' ts'. send_message [Send_interrupted, Send_n 20000000] sample_message (new_connection 5) = Some (True, out, c')
     \<and> receive_message 1000 (replicate (length out) sample_turn) (out @ [7]) (new_connection 6)
         = Some (Some (message_on_wire sample_message), ts', [7])"
proof -
  let ?f = "frame sample_message"
  have "length ?f \<le> 20000000" using sample_message_short by (simp add: frame_def frame_bytes_def)
  moreover obtain b bs where "?f = b # bs" by (cases ?f) (simp_all add: frame_def frame_bytes_def mem_of_u32_def)
  ultimately have "send_bytes_loop [Send_interrupted, Send_n 20000000] ?f = Some (True, ?f)" by simp
  then have sent: "\<exists>c'. send_message [Send_interrupted, Send_n 20000000] sample_message (new_connection 5) = Some (True, ?f, c')"
    by (simp add: send_message_def Let_def send_bytes_def new_connection_def frame_def frame_bytes_def)
  then show ?thesis
    using connection_roundtrip [of sample_message _ "new_connection 5" ?f _ "new_connection 6" "replicate (length ?f) sample_turn" 1000 "[7]"]
      sample_message_short by (auto simp: new_connection_def)
qed

text \<open>The two ends disagree on the largest message: a frame of more than 10 and at most 16 MiB passes the epoll worker's
  header check, but \<open>Connection\<close> gives up after the header and leaves the payload in the stream, where the
  next call takes its first bytes for a length.\<close>

theorem frame_limits_differ:
  assumes "10485760 < length p" and "length p \<le> 16777216" and "cn_sockfd c \<ge> 0"
    and "\<forall>t \<in> set ts. good_turn timeout t" and "4 \<le> length ts"
  shows "(\<exists>ts'. receive_message timeout ts (frame_bytes p @ rest) c = Some (None, ts', p @ rest))
    \<and> parse_header (new_conn_state\<lparr>cs_input_buffer := frame_bytes p @ rest\<rparr>)
      = Header_ok (new_conn_state\<lparr>cs_input_buffer := p @ rest, cs_reading_header := False,
          cs_expected_payload_length := word_of_nat (length p)\<rparr>)"
proof -
  let ?n = "word_of_nat (length p) :: u32"
  have len: "unat ?n = length p" using assms(2) by (rule unat_frame_length)
  have "unat ?n \<noteq> 0" using len assms(1) by linarith
  then have "?n \<noteq> 0" by (metis unat_0)
  moreover have "?n > 10 * 1024 * 1024" "\<not> ?n > MAX_MESSAGE_SIZE"
    using len assms(1,2) by (simp_all add: word_less_nat_alt MAX_MESSAGE_SIZE_def)
  ultimately have big: "?n \<noteq> 0" "?n > 10 * 1024 * 1024" "\<not> ?n > MAX_MESSAGE_SIZE" .
  obtain ts1 where "receive_bytes timeout 4 ts (frame_bytes p @ rest) c = Some (Some (mem_of_u32 (htonl ?n)), ts1, p @ rest)"
    using receive_header_good [OF assms(4,5,3)] by metis
  then have "\<exists>ts'. receive_message timeout ts (frame_bytes p @ rest) c = Some (None, ts', p @ rest)"
    using big(2) by (simp add: receive_message_def Let_def)
  moreover have "parse_header (new_conn_state\<lparr>cs_input_buffer := frame_bytes p @ rest\<rparr>)
      = Header_ok (new_conn_state\<lparr>cs_input_buffer := p @ rest, cs_reading_header := False, cs_expected_payload_length := ?n\<rparr>)"
    using big(1,3) by (simp add: parse_header_def new_conn_state_def frame_bytes_def)
  ultimately show ?thesis ..
qed

theorem frame_limits_differ_witness:
  "\<exists>ts. receive_message 1000 (replicate 4 sample_turn) (frame_bytes (replicate 11000000 0)) (new_connection 6)
     = Some (None, ts, replicate 11000000 0)"
  using frame_limits_differ [of "replicate 11000000 0" "new_connection 6" "replicate 4 sample_turn" 1000 "[]"]
  by (simp add: new_connection_def)

end
