(* ===== verification/TrackerSpec.thy ===== *)
theory TrackerSpec
  imports TrackerLayer
begin

text \<open>
  The contract of the decode node's tracker, and the proof that \<open>RequestTrackerLayer\<close> keeps it. The specification knows
  neither sequence numbers, offsets, counters nor clocks: a finite map from requests to their slot, their number of layers and
  the set of layers that arrived. The tracker simulates it, operation by operation, with the same answers.
\<close>

section \<open>The specification\<close>

type_synonym transfers = "string \<Rightarrow> (int \<times> int \<times> int set) option"

datatype tracker_op =
    Op_add clock string string int int
  | Op_state clock string layer_state
  | Op_mark clock clock string int
  | Op_remove string

text \<open>A request gets a free slot below \<open>slots\<close>; an arrival is news once, and the last one says so.\<close>

fun spec_step :: "int \<Rightarrow> tracker_op \<Rightarrow> transfers \<Rightarrow> bool \<times> transfers" where
  "spec_step slots (Op_add now rid p slot n) m =
     (if 0 \<le> slot \<and> slot < slots \<and> 0 \<le> n \<and> (\<forall>r. \<forall>x. m r = Some x \<longrightarrow> fst x \<noteq> slot)
      then (True, m(rid \<mapsto> (slot, n, {}))) else (False, m))"
| "spec_step slots (Op_state now rid s) m = (m rid \<noteq> None, m)"
| "spec_step slots (Op_mark t1 t2 rid k) m =
     (case m rid of
        None \<Rightarrow> (False, m)
      | Some (slot, n, K) \<Rightarrow>
          if 0 \<le> k \<and> k < n \<and> k \<notin> K then (insert k K = {0..<n}, m(rid \<mapsto> (slot, n, insert k K))) else (False, m))"
| "spec_step slots (Op_remove rid) m = (True, m(rid := None))"

fun spec_run :: "int \<Rightarrow> tracker_op list \<Rightarrow> transfers \<Rightarrow> bool list \<times> transfers" where
  "spec_run slots [] m = ([], m)"
| "spec_run slots (p # ps) m = (let (b, m) = spec_step slots p m; (bs, m) = spec_run slots ps m in (b # bs, m))"

section \<open>The implementation\<close>

text \<open>The answer of an operation of the tracker; an exception leaves the tracker alone.\<close>

fun tracker_step :: "tracker_op \<Rightarrow> layer_tracker \<Rightarrow> bool \<times> layer_tracker" where
  "tracker_step (Op_add now rid p slot n) t =
     (case lt_add_request now rid p slot n t of Inl _ \<Rightarrow> (False, t) | Inr (s, t') \<Rightarrow> (True, t'))"
| "tracker_step (Op_state now rid s) t = lt_update_state now rid s t"
| "tracker_step (Op_mark t1 t2 rid k) t = mark_layer_received t1 t2 rid k t"
| "tracker_step (Op_remove rid) t = (True, lt_remove_request rid t)"

fun tracker_run :: "tracker_op list \<Rightarrow> layer_tracker \<Rightarrow> bool list \<times> layer_tracker" where
  "tracker_run [] t = ([], t)"
| "tracker_run (p # ps) t = (let (b, t) = tracker_step p t; (bs, t) = tracker_run ps t in (b # bs, t))"

definition transfers_of :: "layer_tracker \<Rightarrow> transfers" where
  "transfers_of t rid = map_option (\<lambda>i. (tr_slot_id i, tr_num_layers i, received_ids i)) (lt_find t rid)"

text \<open>The representation invariant.\<close>

definition rep_ok :: "layer_tracker \<Rightarrow> bool" where
  "rep_ok t \<longleftrightarrow> keys_distinct (lt_requests t) \<and> (\<forall>r i. lt_find t r = Some i \<longrightarrow> counts_ok (tr_num_layers i) i)"

lemma rep_ok_put: "rep_ok t \<Longrightarrow> counts_ok (tr_num_layers i) i \<Longrightarrow> rep_ok (lt_put rid i t)"
  by (auto simp: rep_ok_def) (simp add: lt_put_def)

lemma transfers_of_put:
  "transfers_of (lt_put rid i t) = (transfers_of t)(rid \<mapsto> (tr_slot_id i, tr_num_layers i, received_ids i))"
  by (auto simp: transfers_of_def)

lemma counter_updates [simp]:
  "rep_ok (t\<lparr>lt_completed_requests := c\<rparr>) = rep_ok t" "rep_ok (t\<lparr>lt_failed_requests := c\<rparr>) = rep_ok t"
  "transfers_of (t\<lparr>lt_completed_requests := c\<rparr>) = transfers_of t" "transfers_of (t\<lparr>lt_failed_requests := c\<rparr>) = transfers_of t"
  by (simp_all add: rep_ok_def transfers_of_def lt_find_def fun_eq_iff)

section \<open>Each operation refines its specification\<close>

definition refines :: "layer_tracker \<Rightarrow> bool \<times> layer_tracker \<Rightarrow> bool \<times> transfers \<Rightarrow> bool" where
  "refines t r s \<longleftrightarrow> fst r = fst s \<and> transfers_of (snd r) = snd s \<and> rep_ok (snd r) \<and> lt_layout (snd r) = lt_layout t"

lemma slot_holder_None_iff:
  "keys_distinct (lt_requests t) \<Longrightarrow>
   slot_holder t slot = None \<longleftrightarrow> (\<forall>r x. transfers_of t r = Some x \<longrightarrow> fst x \<noteq> slot)"
  by (auto simp: slot_holder_def find_None_iff transfers_of_def lt_find_def)

lemma add_refines:
  assumes "rep_ok t"
  shows "refines t (tracker_step (Op_add now rid p slot n) t)
    (spec_step (ml_max_concurrent_requests (lt_layout t)) (Op_add now rid p slot n) (transfers_of t))"
proof (cases "lt_add_request now rid p slot n t")
  case (Inl e)
  then show ?thesis
    using assms slot_holder_None_iff [of t slot]
    by (auto simp: refines_def rep_ok_def lt_add_request_def Let_def split: if_splits option.splits)
next
  case (Inr st)
  obtain s t' where st: "st = (s, t')" by fastforce
  then have add: "lt_add_request now rid p slot n t = Inr (s, t')" using Inr by simp
  obtain i where i: "lt_find t' rid = Some i" using lt_add_find(4) [OF add] by blast
  note new = lt_add_find(3) [OF add i]
  have guard: "0 \<le> slot" "slot < ml_max_concurrent_requests (lt_layout t)" "0 \<le> n" "slot_holder t slot = None"
    and reqs: "lt_requests t' = put rid i (lt_requests t)"
    using add i by (auto simp: lt_add_request_def lt_find_def Let_def split: if_splits option.splits)
  have find: "lt_find t' r = (if r = rid then Some i else lt_find t r)" for r
    by (simp add: lt_find_def reqs)
  have "rep_ok t'" using assms new by (auto simp: rep_ok_def find reqs counts_ok_def)
  moreover have "transfers_of t' = (transfers_of t)(rid \<mapsto> (slot, n, {}))"
    using new by (auto simp: transfers_of_def find)
  ultimately show ?thesis
    using guard slot_holder_None_iff [of t slot] assms lt_add_find(1) [OF add]
    by (auto simp: refines_def add rep_ok_def)
qed

lemma same_transfer:
  assumes "rep_ok t" and "lt_find t rid = Some i" and "tr_slot_id j = tr_slot_id i" and "tr_num_layers j = tr_num_layers i"
    and "tr_layers j = tr_layers i" and "tr_layers_received_count j = tr_layers_received_count i"
  shows "transfers_of (lt_put rid j t) = transfers_of t \<and> rep_ok (lt_put rid j t)"
proof -
  have ids: "received_ids j = received_ids i" using assms(4,5) by (simp add: received_ids_def)
  have "counts_ok (tr_num_layers j) j" using assms by (simp add: rep_ok_def counts_ok_def ids)
  moreover have "transfers_of t rid = Some (tr_slot_id j, tr_num_layers j, received_ids j)"
    by (simp add: transfers_of_def assms(2-4) ids)
  ultimately show ?thesis using rep_ok_put [OF assms(1)] by (simp add: transfers_of_put fun_upd_idem)
qed

lemma state_refines:
  assumes "rep_ok t"
  shows "refines t (tracker_step (Op_state now rid s) t) (spec_step m (Op_state now rid s) (transfers_of t))"
proof (cases "lt_find t rid")
  case (Some i)
  have known: "transfers_of t rid \<noteq> None" by (simp add: transfers_of_def Some)
  note same = same_transfer [OF assms Some]
  show ?thesis
    using known same [of "i\<lparr>tr_state := s\<rparr>"] same [of "i\<lparr>tr_state := s, tr_decode_complete_ts := now\<rparr>"]
      same [of "i\<lparr>tr_state := s, tr_decode_start_ts := now\<rparr>"]
    unfolding refines_def tracker_step.simps spec_step.simps lt_update_state_def Some option.case Let_def fst_conv snd_conv
    by (cases s) simp_all
next
  case None
  then show ?thesis using assms by (simp add: refines_def lt_update_state_def transfers_of_def)
qed

lemma mark_refines:
  assumes "rep_ok t"
  shows "refines t (tracker_step (Op_mark t1 t2 rid k) t) (spec_step m (Op_mark t1 t2 rid k) (transfers_of t))"
proof (cases "lt_find t rid")
  case (Some i)
  have ok: "counts_ok (tr_num_layers i) i" using assms Some by (simp add: rep_ok_def)
  have spec: "transfers_of t rid = Some (tr_slot_id i, tr_num_layers i, received_ids i)" by (simp add: transfers_of_def Some)
  show ?thesis
  proof (cases "0 \<le> k \<and> k < tr_num_layers i \<and> k \<notin> received_ids i")
    case True
    then have k: "0 \<le> k" "k < tr_num_layers i" "k \<notin> received_ids i" by simp_all
    note step = marked_step(1,2) [OF ok k, of t1 t2] marked_step(3) [OF ok k]
    have keep: "tr_slot_id (marked t1 t2 k i) = tr_slot_id i" "tr_num_layers (marked t1 t2 k i) = tr_num_layers i"
      by (simp_all add: marked_def Let_def)
    have impl: "tracker_step (Op_mark t1 t2 rid k) t = (insert k (received_ids i) = {0..<tr_num_layers i}, lt_put rid (marked t1 t2 k i) t)"
      using k step(3) by (simp add: mark_cases Some)
    have abs: "spec_step m (Op_mark t1 t2 rid k) (transfers_of t)
        = (insert k (received_ids i) = {0..<tr_num_layers i}, (transfers_of t)(rid \<mapsto> (tr_slot_id i, tr_num_layers i, insert k (received_ids i))))"
      using k by (simp add: spec)
    have "rep_ok (lt_put rid (marked t1 t2 k i) t)" using step(1) keep by (intro rep_ok_put assms) simp
    then show ?thesis unfolding impl abs by (simp add: refines_def transfers_of_put keep step(2))
  next
    case False
    then have "tracker_step (Op_mark t1 t2 rid k) t = (False, t)"
      "spec_step m (Op_mark t1 t2 rid k) (transfers_of t) = (False, transfers_of t)"
      by (auto simp: mark_cases Some spec)
    then show ?thesis using assms by (simp add: refines_def)
  qed
next
  case None
  then show ?thesis using assms by (simp add: refines_def mark_cases transfers_of_def)
qed

lemma remove_refines:
  assumes "rep_ok t"
  shows "refines t (tracker_step (Op_remove rid) t) (spec_step m (Op_remove rid) (transfers_of t))"
  using assms
  by (cases "lt_find t rid")
    (auto simp: refines_def lt_remove_request_def rep_ok_def transfers_of_def lt_find_def fun_eq_iff)

lemma step_refines:
  "rep_ok t \<Longrightarrow> refines t (tracker_step p t) (spec_step (ml_max_concurrent_requests (lt_layout t)) p (transfers_of t))"
  by (cases p) (simp_all only: add_refines state_refines mark_refines remove_refines)

text \<open>C8 The tracker implements its specification: for every sequence of operations on a new tracker, each operation gives the
  answer of the abstract map of slots and arrived layers, and the tracker at the end represents the map at the end.\<close>

theorem tracker_refines_spec:
  "case tracker_run ps (new_layer_tracker l) of (bs, t) \<Rightarrow>
     spec_run (ml_max_concurrent_requests l) ps Map.empty = (bs, transfers_of t)"
proof -
  have run: "rep_ok t \<Longrightarrow> spec_run (ml_max_concurrent_requests (lt_layout t)) ps (transfers_of t)
      = (fst (tracker_run ps t), transfers_of (snd (tracker_run ps t)))" for t
  proof (induction ps arbitrary: t)
    case (Cons p ps)
    obtain b t' where step: "tracker_step p t = (b, t')" by fastforce
    have "spec_step (ml_max_concurrent_requests (lt_layout t)) p (transfers_of t) = (b, transfers_of t')" "rep_ok t'"
      "lt_layout t' = lt_layout t"
      using step_refines [OF Cons.prems, of p] by (simp_all add: refines_def step prod_eq_iff)
    then show ?case using Cons.IH [of t'] by (simp add: step case_prod_unfold Let_def)
  qed simp
  have "rep_ok (new_layer_tracker l)" by (simp add: rep_ok_def new_layer_tracker_def lt_find_def)
  moreover have "transfers_of (new_layer_tracker l) = Map.empty" "lt_layout (new_layer_tracker l) = l"
    by (simp_all add: transfers_of_def new_layer_tracker_def lt_find_def fun_eq_iff)
  ultimately show ?thesis using run [of "new_layer_tracker l"] by (simp add: case_prod_unfold)
qed

text \<open>The end of a transfer is announced at the second layer of two, and a slot in use is refused.\<close>

theorem tracker_refines_spec_witness:
  "fst (tracker_run [Op_add 0 ''a'' ''p'' 1 2, Op_add 0 ''b'' ''p'' 1 2, Op_mark 1 1 ''a'' 1, Op_mark 2 2 ''a'' 0] (new_layer_tracker small_layout))
     = [True, False, False, True]"
proof -
  let ?ps = "[Op_add 0 ''a'' ''p'' 1 2, Op_add 0 ''b'' ''p'' 1 2, Op_mark 1 1 ''a'' 1, Op_mark 2 2 ''a'' 0]"
  have two: "{0..<2 :: int} = {0, 1}" by auto
  have "fst (spec_run 2 ?ps Map.empty) = [True, False, False, True]"
    by (simp add: two insert_commute)
  then show ?thesis
    using tracker_refines_spec [of small_layout ?ps] by (simp add: small_layout_def case_prod_unfold)
qed

end
