(* ===== verification/WireTyping.thy ===== *)
theory WireTyping
  imports Wire
begin

text \<open>
  What a message read from the network is known to satisfy: the range of every integer, the length of every string, list and
  GID, and that each enumeration value is either an enumerator or a byte outside them. The readers are composed, so
  the typing of each is the typing of its parts.
\<close>

locale typed_reader =
  fixes rd :: "bytes \<Rightarrow> ('a \<times> bytes) option" and ok :: "'a \<Rightarrow> bool"
  assumes typed: "rd bs = Some (a, r) \<Longrightarrow> ok a"
begin

lemma typed_list: "read_n rd n bs = Some (xs, r) \<Longrightarrow> list_all ok xs \<and> length xs = n"
proof (induction n arbitrary: bs xs)
  case (Suc n)
  then show ?case by (auto simp: bind_eq_Some_conv dest: typed)
qed simp

end

lemma role_ok_of_code: "role_ok (role_of_code b)"
  by (auto simp: role_of_code_def enum_of_code_def node_role_table_def)

lemma message_type_ok_of_code: "message_type_ok (message_type_of_code b)"
  by (auto simp: message_type_of_code_def enum_of_code_def message_type_table_def)

lemma status_ok_of_code: "status_ok (status_of_code b)"
  by (auto simp: status_of_code_def enum_of_code_def request_status_table_def)

lemma unat_u32: "unat (n :: u32) < 4294967296"
  using unsigned_less [of n] by simp

interpretation typed_string: typed_reader read_string string_ok
proof
  fix bs a r assume "read_string bs = Some (a, r)"
  then have "\<exists>len :: u32. length a \<le> unat len"
    by (auto simp: read_string_def bind_eq_Some_conv split: if_splits)
  then show "string_ok a" using unat_u32 by (auto simp: string_ok_def intro: order.strict_trans1)
qed

interpretation typed_int: typed_reader read_int is_c_int
proof
  fix bs a r assume "read_int bs = Some (a, r)"
  then obtain u :: u32 where "a = sint u" by (auto simp: read_int_def bind_eq_Some_conv)
  then show "is_c_int a" using sint_range_size [of u] by (simp add: is_c_int_def INT_MAX_def word_size)
qed

interpretation typed_gid: typed_reader read_gid "\<lambda>g. length g = 16"
  by unfold_locales (auto simp: read_gid_def split: if_splits)

interpretation typed_peer: typed_reader read_peer_info peer_info_ok
  by unfold_locales (auto simp: read_peer_info_def peer_info_ok_def bind_eq_Some_conv
      dest!: typed_string.typed typed_gid.typed)

interpretation typed_node: typed_reader read_node_info "\<lambda>n. node_info_ok n \<and> forget_fds n = n"
  by unfold_locales (auto simp: read_node_info_def node_info_ok_def forget_fds_def bind_eq_Some_conv role_ok_of_code unat_u32
      dest!: typed_string.typed typed_int.typed typed_peer.typed_list)

interpretation typed_request: typed_reader read_request_info request_info_ok
  by unfold_locales (auto simp: read_request_info_def request_info_ok_def bind_eq_Some_conv
      dest!: typed_string.typed typed_int.typed)

interpretation typed_message: typed_reader read_message "\<lambda>m. message_ok m \<and> message_on_wire m = m"
proof
  fix bs m r assume "read_message bs = Some (m, r)"
  then have "message_ok m \<and> msg_node_info m = forget_fds (msg_node_info m)
      \<and> list_all (\<lambda>n. forget_fds n = n) (msg_membership_list_info m)"
    by (auto simp: read_message_def message_ok_def bind_eq_Some_conv message_type_ok_of_code status_ok_of_code unat_u32
        list_all_iff dest!: typed_string.typed typed_node.typed typed_request.typed typed_node.typed_list)
  moreover then have "map forget_fds (msg_membership_list_info m) = msg_membership_list_info m"
    by (auto simp: list_all_iff intro: map_idI)
  ultimately show "message_ok m \<and> message_on_wire m = m" by (simp add: message_on_wire_def)
qed

text \<open>C2 Every message the parser accepts is well typed, whatever bytes arrived: integers are in the range of \<open>int\<close>, strings and
  lists below \<open>2^32\<close> elements, GIDs of 16 bytes, enumerations an enumerator or a byte that is none. So it can be sent on
  unchanged: serialised again it parses to the same message.\<close>

theorem deserialized_message_ok:
  assumes "deserialize_message data = Some m"
  shows "message_ok m \<and> deserialize_message (serialize_message m @ rest) = Some m"
proof -
  obtain r where "read_message data = Some (m, r)"
    using assms by (auto simp: deserialize_message_def split: if_splits)
  then have "message_ok m" "message_on_wire m = m" using typed_message.typed by blast+
  then show ?thesis using message_rd_wr [of m rest] by (simp add: deserialize_message_def)
qed

theorem deserialized_message_ok_witness:
  "\<exists>m. deserialize_message (serialize_message sample_message) = Some m \<and> message_ok m"
proof -
  have "deserialize_message (serialize_message sample_message) = Some (message_on_wire sample_message)"
    using message_rd_wr [of sample_message "[]"] by (simp add: deserialize_message_def)
  from deserialized_message_ok [OF this] this show ?thesis by blast
qed

end
