(* ===== verification/Bindings.thy ===== *)
theory Bindings
  imports RdmaEngine
begin

text \<open>
  The class behind the Python module, \<open>RDMABindings\<close> of \<open>src/cpp/bindings/rdma_bindings.cpp\<close>: the memory regions vLLM
  registers, writes from them, and waiting for a write. The engine it points to is a field; what CUDA and libibverbs
  answer is an argument.
\<close>

section \<open>State\<close>

record region =
  rg_gpu_ptr :: u64
  rg_size :: u64
  rg_lkey :: u32
  rg_rkey :: u32

text \<open>\<open>registered_regions_\<close> is a \<open>std::map\<close>, a list in key order.\<close>

record bindings =
  bn_engine :: rdma_engine
  bn_regions :: "(string \<times> region) list"
  bn_write_counter :: u64

definition cq_batch_size :: u64 where
  "cq_batch_size = 8"

text \<open>A null or uninitialised engine throws.\<close>

definition new_bindings :: "rdma_engine option \<Rightarrow> bindings option" where
  "new_bindings engine = (case engine of
     None \<Rightarrow> None
   | Some e \<Rightarrow> if \<not> re_initialized e then None
       else Some \<lparr>bn_engine = e, bn_regions = [], bn_write_counter = 0\<rparr>)"

text \<open>The destructor: the regions it deregisters.\<close>

definition destroy_bindings :: "bindings \<Rightarrow> string list" where
  "destroy_bindings b = (if \<not> re_initialized (bn_engine b) then [] else map fst (bn_regions b))"

section \<open>Memory registration\<close>

text \<open>What is known of the pointer: nothing in the build without GPU support, otherwise what
  \<open>cudaPointerGetAttributes\<close> says.\<close>

datatype pointer_check = Unchecked | Attributes_failed | Not_device_memory | Device_memory

text \<open>\<open>reg\<close> is the answer of \<open>ibv_reg_mr\<close>, the two keys.\<close>

definition register_gpu_memory ::
  "pointer_check \<Rightarrow> (u32 \<times> u32) option \<Rightarrow> u64 \<Rightarrow> u64 \<Rightarrow> string \<Rightarrow> bindings \<Rightarrow> bool \<times> bindings" where
  "register_gpu_memory check reg ptr len name b =
     (if check = Attributes_failed \<or> check = Not_device_memory then (False, b)
      else if map_of (bn_regions b) name \<noteq> None then (False, b)
      else if len = 0 then (False, b)
      else case reg of
        None \<Rightarrow> (False, b)
      | Some (lkey, rkey) \<Rightarrow> (True, b\<lparr>bn_regions := ordered_put name
          \<lparr>rg_gpu_ptr = ptr, rg_size = len, rg_lkey = lkey, rg_rkey = rkey\<rparr> (bn_regions b)\<rparr>))"

text \<open>The end of the region is computed in 64 bits.\<close>

definition in_region :: "u64 \<Rightarrow> region \<Rightarrow> bool" where
  "in_region ptr r \<longleftrightarrow> rg_gpu_ptr r \<le> ptr \<and> ptr < rg_gpu_ptr r + rg_size r"

definition get_lkey_for_ptr :: "u64 \<Rightarrow> bindings \<Rightarrow> u32 option" where
  "get_lkey_for_ptr ptr b = map_option (rg_lkey \<circ> snd) (List.find (\<lambda>(name, r). in_region ptr r) (bn_regions b))"

definition get_base_ptr_for_lkey :: "u32 \<Rightarrow> bindings \<Rightarrow> u64" where
  "get_base_ptr_for_lkey lkey b =
     (case List.find (\<lambda>(name, r). rg_lkey r = lkey) (bn_regions b) of None \<Rightarrow> 0 | Some (name, r) \<Rightarrow> rg_gpu_ptr r)"

section \<open>Looking a pointer up\<close>

lemma get_lkey_None: "get_lkey_for_ptr p b = None \<longleftrightarrow> (\<forall>(name, r) \<in> set (bn_regions b). \<not> in_region p r)"
  by (auto simp: get_lkey_for_ptr_def find_None_iff)

lemma get_lkey_Some:
  "get_lkey_for_ptr p b = Some k \<Longrightarrow> \<exists>name r. (name, r) \<in> set (bn_regions b) \<and> in_region p r \<and> rg_lkey r = k"
  by (auto simp: get_lkey_for_ptr_def find_Some_iff set_conv_nth) metis

lemma in_region_offset:
  assumes "unat (rg_gpu_ptr r) + unat (rg_size r) < 2 ^ 64" and "unat off < unat (rg_size r)"
  shows "in_region (rg_gpu_ptr r + off) r"
proof -
  have "unat (rg_gpu_ptr r + off) = unat (rg_gpu_ptr r) + unat off"
    "unat (rg_gpu_ptr r + rg_size r) = unat (rg_gpu_ptr r) + unat (rg_size r)"
    using assms by (subst unat_add_lem [symmetric]; simp)+
  then show ?thesis using assms(2) by (simp add: in_region_def word_le_nat_alt word_less_nat_alt)
qed

text \<open>The regions stay in key order, as in the map, and each under its own name.\<close>

lemma register_sorted:
  "register_gpu_memory check reg ptr len name b = (ok, b') \<Longrightarrow> sorted_wrt (<) (map fst (bn_regions b))
     \<Longrightarrow> sorted_wrt (<) (map fst (bn_regions b'))"
  by (auto simp: register_gpu_memory_def sorted_ordered_put split: if_splits option.splits)

text \<open>After a registration that succeeds, for a region that does not reach the end of the address space, every address in it that no
  earlier region holds resolves to the key libibverbs gave. A registration that fails changes nothing.\<close>

theorem registered_pointers_resolve:
  assumes "register_gpu_memory check (Some (lkey, rkey)) ptr len name b = (True, b')"
    and "unat ptr + unat len < 2 ^ 64" and "unat off < unat len"
    and "\<forall>(n, r) \<in> set (bn_regions b). \<not> in_region (ptr + off) r"
  shows "get_lkey_for_ptr (ptr + off) b' = Some lkey"
proof -
  let ?r = "\<lparr>rg_gpu_ptr = ptr, rg_size = len, rg_lkey = lkey, rg_rkey = rkey\<rparr>"
  have regs: "bn_regions b' = ordered_put name ?r (bn_regions b)" "map_of (bn_regions b) name = None"
    using assms(1) by (auto simp: register_gpu_memory_def split: if_splits)
  have mem: "set (bn_regions b') = insert (name, ?r) (set (bn_regions b))" unfolding regs(1) by (rule set_ordered_put [OF regs(2)])
  have "in_region (ptr + off) ?r" using in_region_offset [of ?r off] assms(2,3) by simp
  then have "get_lkey_for_ptr (ptr + off) b' \<noteq> None" unfolding get_lkey_None mem by auto
  then obtain k where k: "get_lkey_for_ptr (ptr + off) b' = Some k" by blast
  show ?thesis using get_lkey_Some [OF k] assms(4) k unfolding mem by auto
qed

lemma failed_registration_keeps:
  "register_gpu_memory check reg ptr len name b = (False, b') \<Longrightarrow> b' = b"
  by (auto simp: register_gpu_memory_def split: if_splits option.splits)

section \<open>Writing and waiting\<close>

text \<open>The counter advances before the write is tried, and only every eighth write asks for a completion.\<close>

definition rdma_write :: "bool \<Rightarrow> string \<Rightarrow> u64 \<Rightarrow> u64 \<Rightarrow> u64 \<Rightarrow> u32 \<Rightarrow> bindings \<Rightarrow> bool \<times> bindings" where
  "rdma_write posted pid local_addr remote_off len imm b =
     (case get_lkey_for_ptr local_addr b of
        None \<Rightarrow> (False, b)
      | Some lkey \<Rightarrow>
          (let n = bn_write_counter b + 1;
               signal = (n mod cq_batch_size = 0);
               (ok, e) = post_write_external posted pid local_addr lkey remote_off len imm signal (bn_engine b)
           in (ok, b\<lparr>bn_write_counter := n, bn_engine := e\<rparr>)))"

text \<open>The timeout is not used. \<open>None\<close> while the loop is still polling after the given polls.\<close>

definition rdma_wait_completion :: "int \<Rightarrow> bool list option list \<Rightarrow> bool option" where
  "rdma_wait_completion timeout_ms ps = map_option (\<lambda>completed. completed > 0) (engine_poll_send_cq 1 ps)"

definition get_staging_buffer_ptr :: "bindings \<Rightarrow> u64" where
  "get_staging_buffer_ptr b = mr_d_ptr (rx_mem (re_ctx (bn_engine b)))"

definition get_staging_buffer_size :: "bindings \<Rightarrow> u64" where
  "get_staging_buffer_size b = mr_bytes (rx_mem (re_ctx (bn_engine b)))"

definition get_bindings_stats :: "bindings \<Rightarrow> bool \<times> nat" where
  "get_bindings_stats b = (True, length (bn_regions b))"

section \<open>Waiting for a completion\<close>

lemma poll_sends_one: "poll_sends 1 ps = None \<longleftrightarrow> (\<forall>p \<in> set ps. p = Some [])"
proof (induction ps)
  case (Cons p ps)
  show ?case
  proof (cases "\<exists>wcs. p = Some wcs \<and> wcs \<noteq> [] \<and> list_all id wcs")
    case True
    then obtain wcs where p: "p = Some wcs" "wcs \<noteq> []" "list_all id wcs" by blast
    then have "1 - int (length wcs) \<le> 0" by (cases wcs) auto
    then have "poll_sends (1 - int (length wcs)) ps = Some True" by (cases ps) simp_all
    then show ?thesis using p by simp
  next
    case False
    then show ?thesis using Cons.IH by (cases p) auto
  qed
qed simp

text \<open>The wait for a completion ends exactly when a poll of the queue gives something: it returns if some poll fails or yields a completion, and
  never, whatever timeout was asked for, while every poll comes back empty. A wait that reports success has seen a
  completion.\<close>

theorem wait_completion_returns_iff:
  "(rdma_wait_completion timeout ps \<noteq> None \<longleftrightarrow> (\<exists>p \<in> set ps. p \<noteq> Some []))
   \<and> (rdma_wait_completion timeout ps = Some True \<longrightarrow> (\<exists>wcs. Some wcs \<in> set ps \<and> wcs \<noteq> []))"
proof -
  have iff: "rdma_wait_completion timeout ps \<noteq> None \<longleftrightarrow> (\<exists>p \<in> set ps. p \<noteq> Some [])"
    using poll_sends_one [of ps] by (auto simp: rdma_wait_completion_def engine_poll_send_cq_def)
  have "poll_sends 1 ps = Some True \<Longrightarrow> \<exists>wcs. Some wcs \<in> set ps \<and> wcs \<noteq> []"
  proof (induction ps)
    case (Cons p ps)
    then show ?case by (cases p; cases "the p") (auto split: if_splits)
  qed simp
  then show ?thesis using iff by (auto simp: rdma_wait_completion_def engine_poll_send_cq_def split: if_splits)
qed

section \<open>Which writes are signalled\<close>

type_synonym write_call = "bool \<times> string \<times> u64 \<times> u64 \<times> u64 \<times> u32"

fun run_writes :: "write_call list \<Rightarrow> bindings \<Rightarrow> bool list \<times> bindings" where
  "run_writes [] b = ([], b)"
| "run_writes ((posted, pid, addr, off, len, imm) # ws) b =
     (let (ok, b) = rdma_write posted pid addr off len imm b; (oks, b) = run_writes ws b in (ok # oks, b))"

text \<open>The requests a run of writes has added to the send queues, and how many of them ask for a completion.\<close>

definition new_requests :: "bindings \<Rightarrow> bindings \<Rightarrow> work_request list" where
  "new_requests b b' = map snd (drop (length (re_posted (bn_engine b))) (re_posted (bn_engine b')))"

definition completions_due :: "bindings \<Rightarrow> bindings \<Rightarrow> nat" where
  "completions_due b b' = length (filter wr_signaled (new_requests b b'))"

lemma external_write_posted:
  assumes "post_write_external posted pid addr lkey off len imm signal e = (ok, e')"
  shows "\<exists>rs. re_posted e' = re_posted e @ rs \<and> (\<forall>(p, wr) \<in> set rs. wr_signaled wr = signal)
    \<and> (ok \<and> len \<noteq> 0 \<longrightarrow> length rs = 1) \<and> (\<not> ok \<longrightarrow> rs = [])"
  using assms by (auto simp: post_write_external_def Let_def split: option.splits if_splits)

lemma rdma_write_posted:
  assumes "rdma_write posted pid addr off len imm b = (ok, b')"
  shows "\<exists>rs. re_posted (bn_engine b') = re_posted (bn_engine b) @ rs
    \<and> (\<forall>(p, wr) \<in> set rs. wr_signaled wr \<longleftrightarrow> (bn_write_counter b + 1) mod 8 = 0)
    \<and> (ok \<and> len \<noteq> 0 \<longrightarrow> length rs = 1) \<and> (ok \<longrightarrow> bn_write_counter b' = bn_write_counter b + 1)
    \<and> (bn_write_counter b' = bn_write_counter b \<or> bn_write_counter b' = bn_write_counter b + 1)"
proof (cases "get_lkey_for_ptr addr b")
  case None
  then show ?thesis using assms by (auto simp: rdma_write_def)
next
  case (Some lkey)
  obtain e' where e': "post_write_external posted pid addr lkey off len imm ((bn_write_counter b + 1) mod 8 = 0) (bn_engine b) = (ok, e')"
    "b' = b\<lparr>bn_write_counter := bn_write_counter b + 1, bn_engine := e'\<rparr>"
    using assms Some by (auto simp: rdma_write_def cq_batch_size_def Let_def split: prod.splits)
  from external_write_posted [OF e'(1)] e'(2) show ?thesis by auto
qed

lemma run_writes_signals:
  assumes "run_writes ws b = (oks, b')" and "bn_write_counter b = word_of_nat c" and "c + length ws < 2 ^ 64"
    and "list_all id oks" and "\<forall>(posted, pid, addr, off, len, imm) \<in> set ws. len \<noteq> 0"
  shows "\<exists>rs. re_posted (bn_engine b') = re_posted (bn_engine b) @ rs
    \<and> map (wr_signaled \<circ> snd) rs = map (\<lambda>i. i mod 8 = 0) [c + 1..<c + Suc (length ws)]"
  using assms
proof (induction ws arbitrary: b c oks)
  case (Cons w ws)
  obtain posted pid addr off len imm where w: "w = (posted, pid, addr, off, len, imm)" by (metis prod_cases6)
  obtain b1 oks' where b1: "rdma_write posted pid addr off len imm b = (True, b1)" "run_writes ws b1 = (oks', b')" "oks = True # oks'"
    using Cons.prems(1,4) w by (auto split: prod.splits)
  obtain rs where rs: "re_posted (bn_engine b1) = re_posted (bn_engine b) @ rs"
    "\<forall>(p, wr) \<in> set rs. wr_signaled wr \<longleftrightarrow> (bn_write_counter b + 1) mod 8 = 0" "length rs = 1"
    "bn_write_counter b1 = bn_write_counter b + 1"
    using rdma_write_posted [OF b1(1)] Cons.prems(5) w by auto
  have cnt: "bn_write_counter b1 = word_of_nat (c + 1)" using rs(4) Cons.prems(2) by simp
  have less: "c + 1 + length ws < 2 ^ 64" and all: "list_all id oks'"
    and len: "\<forall>(posted, pid, addr, off, len, imm) \<in> set ws. len \<noteq> 0"
    using Cons.prems(3-5) b1(3) by (simp_all add: id_def)
  obtain rs' where rs': "re_posted (bn_engine b') = re_posted (bn_engine b1) @ rs'"
    "map (wr_signaled \<circ> snd) rs' = map (\<lambda>i. i mod 8 = 0) [c + 1 + 1..<c + 1 + Suc (length ws)]"
    using Cons.IH [OF b1(2) cnt less all len] by blast
  have cnt_unat: "unat (word_of_nat (c + 1) :: u64) = c + 1" using less by (simp only: unat_of_nat) simp
  have iff: "(word_of_nat (c + 1) mod 8 :: u64) = 0 \<longleftrightarrow> (c + 1) mod 8 = 0"
    unfolding unat_eq_0 [symmetric] unat_mod cnt_unat by simp
  obtain p wr where one: "rs = [(p, wr)]" using rs(3) by (cases rs) auto
  have "wr_signaled wr \<longleftrightarrow> (word_of_nat (c + 1) mod 8 :: u64) = 0" using rs(2,4) cnt one by (simp add: add.commute)
  then have "map (wr_signaled \<circ> snd) rs = [(c + 1) mod 8 = 0]" unfolding iff using one by simp
  moreover have upt: "[c + 1..<c + Suc (length (w # ws))] = (c + 1) # [c + 1 + 1..<c + 1 + Suc (length ws)]"
    using upt_conv_Cons [of "c + 1" "c + Suc (length (w # ws))"] by (simp del: upt_Suc)
  ultimately have "map (wr_signaled \<circ> snd) (rs @ rs') = map (\<lambda>i. i mod 8 = 0) [c + 1..<c + Suc (length (w # ws))]"
    unfolding map_append upt list.map rs'(2) by simp
  then show ?case using rs(1) rs'(1) by (intro exI [of _ "rs @ rs'"]) (simp only: append_assoc simp_thms)
qed simp

text \<open>Every eighth write is signalled, no other: when a run of writes from fresh bindings succeeds, the \<open>i\<close>-th request posted
  asks for a completion exactly if \<open>i\<close> is a multiple of eight, so \<open>k\<close> writes bring \<open>k div 8\<close> completions.\<close>

theorem every_eighth_write_signalled:
  assumes "run_writes ws b = (oks, b')" and "bn_write_counter b = 0" and "list_all id oks"
    and "\<forall>(posted, pid, addr, off, len, imm) \<in> set ws. len \<noteq> 0" and "length ws < 2 ^ 64"
  shows "map wr_signaled (new_requests b b') = map (\<lambda>i. i mod 8 = 0) [1..<Suc (length ws)]"
  using run_writes_signals [OF assms(1) _ _ assms(3,4), of 0] assms(2,5) by (auto simp: new_requests_def)

text \<open>Bindings over the connected engine with one region registered, and \<open>n\<close> writes of one block from it.\<close>

definition sample_bindings :: bindings where
  "sample_bindings = \<lparr>bn_engine = connected_engine,
     bn_regions = [(''k0'', \<lparr>rg_gpu_ptr = 4096, rg_size = 65536, rg_lkey = 1, rg_rkey = 2\<rparr>)], bn_write_counter = 0\<rparr>"

definition block_writes :: "nat \<Rightarrow> write_call list" where
  "block_writes n = replicate n (True, ''d0'', 4096, 0, 8192, 7)"

theorem every_eighth_write_signalled_witness:
  "\<exists>b'. run_writes (block_writes 9) sample_bindings = (replicate 9 True, b')
    \<and> map wr_signaled (new_requests sample_bindings b') = [False, False, False, False, False, False, False, True, False]"
proof -
  have "fst (run_writes (block_writes 9) sample_bindings) = replicate 9 True" by code_simp
  then obtain b' where run: "run_writes (block_writes 9) sample_bindings = (replicate 9 True, b')" by (metis prod.collapse)
  have "\<forall>(posted, pid, addr, off, len, imm) \<in> set (block_writes 9). len \<noteq> 0" "length (block_writes 9) = 9"
    by (simp_all add: block_writes_def)
  from every_eighth_write_signalled [OF run _ _ this(1)] this(2)
  have "map wr_signaled (new_requests sample_bindings b') = map (\<lambda>i. i mod 8 = 0) [1..<10]"
    by (simp add: sample_bindings_def list_all_iff)
  then show ?thesis using run by (simp add: upt_rec)
qed

text \<open>C39 A wait after a short run of writes hangs: when fewer than eight writes have been made from fresh bindings, none asks for a
  completion, and as long as the queue yields only completions of these writes and no poll fails, the wait never returns,
  for any timeout.\<close>

theorem wait_after_few_writes_hangs:
  assumes "run_writes ws b = (oks, b')" and "bn_write_counter b = 0" and "list_all id oks"
    and "\<forall>(posted, pid, addr, off, len, imm) \<in> set ws. len \<noteq> 0" and "length ws < 8"
    and "\<forall>p \<in> set ps. \<exists>wcs. p = Some wcs \<and> length wcs \<le> completions_due b b'"
  shows "rdma_wait_completion timeout ps = None"
proof -
  have "map wr_signaled (new_requests b b') = map (\<lambda>i. i mod 8 = 0) [1..<Suc (length ws)]"
    using run_writes_signals [OF assms(1) _ _ assms(3,4), of 0] assms(2,5) by (auto simp: new_requests_def)
  moreover have "\<forall>x \<in> set (map (\<lambda>i. i mod 8 = 0) [1..<Suc (length ws)]). \<not> x" using assms(5) by auto
  ultimately have "\<forall>wr \<in> set (new_requests b b'). \<not> wr_signaled wr" by (metis image_eqI list.set_map)
  then have "completions_due b b' = 0" by (simp add: completions_due_def)
  then show ?thesis using assms(6) poll_sends_one [of ps] by (force simp: rdma_wait_completion_def engine_poll_send_cq_def)
qed

theorem wait_after_few_writes_hangs_witness:
  "\<exists>b'. run_writes (block_writes 7) sample_bindings = (replicate 7 True, b') \<and> rdma_wait_completion 5000 (replicate 50 (Some [])) = None"
proof -
  have "fst (run_writes (block_writes 7) sample_bindings) = replicate 7 True" by code_simp
  then obtain b' where run: "run_writes (block_writes 7) sample_bindings = (replicate 7 True, b')" by (metis prod.collapse)
  have "\<forall>(posted, pid, addr, off, len, imm) \<in> set (block_writes 7). len \<noteq> 0" "length (block_writes 7) = 7"
    by (simp_all add: block_writes_def)
  from wait_after_few_writes_hangs [OF run _ _ this(1)] this(2) show ?thesis
    using run by (simp add: sample_bindings_def list_all_iff)
qed

end
