(* ===== verification/DeviceProbe.thy ===== *)
theory DeviceProbe
  imports RdmaEngine
begin

text \<open>
  \<open>src/cpp/rdma/device_probe.cpp\<close>: which GPUs and InfiniBand ports of a machine may be used, and which port a GPU is bound
  to. The machine (sysfs, CUDA and libibverbs) is an argument, a record of what it answers; log lines are left out.
\<close>

section \<open>The machine\<close>

text \<open>\<open>ibv_port_state\<close>, with the values outside the five the code names.\<close>

datatype port_state = IBV_PORT_NOP | IBV_PORT_DOWN | IBV_PORT_INIT | IBV_PORT_ARMED | IBV_PORT_ACTIVE | Other_state

record port_attr =
  pa_state :: port_state
  pa_active_speed :: u8
  pa_active_width :: u8

text \<open>A device: its name, whether it opens, its port count, the answer of \<open>ibv_query_port\<close> for each port, the path its
  sysfs link resolves to, and the identifier at a port and index of its table.\<close>

record hca =
  hc_name :: string
  hc_opens :: bool
  hc_phys_port_cnt :: u8
  hc_query_port :: "int \<Rightarrow> port_attr option"
  hc_realpath :: "string option"
  hc_gid :: "int \<Rightarrow> int \<Rightarrow> u8 list option"

text \<open>What \<open>numa_node\<close> of a PCI device holds.\<close>

datatype numa_file = Missing | Empty | Not_a_number | Number int

text \<open>What CUDA answers: the device count, bus ids, names and memory, and which peers can reach each other.\<close>

record cuda_calls =
  cu_count :: "int option"
  cu_bus_id :: "int \<Rightarrow> string option"
  cu_name :: "int \<Rightarrow> string"
  cu_mem_bytes :: "int \<Rightarrow> u64"
  cu_can_access_peer :: "int \<Rightarrow> int \<Rightarrow> bool"

record machine =
  ma_devices :: "hca list"
  ma_numa :: "string \<Rightarrow> numa_file"
  ma_cuda :: cuda_calls

datatype probe_error = No_gpus | Invalid_gpu_id int | No_ib_devices | No_active_ports | No_port_for_gpu int | Numa_mismatch int

section \<open>Helpers\<close>

text \<open>A failed extraction of a number leaves 0 behind; at the end of the file nothing is stored.\<close>

definition pci_numa_node :: "machine \<Rightarrow> string \<Rightarrow> int" where
  "pci_numa_node m bus_id = (case ma_numa m bus_id of Missing \<Rightarrow> -1 | Empty \<Rightarrow> -1 | Not_a_number \<Rightarrow> 0 | Number i \<Rightarrow> i)"

definition lane_gbps :: "u8 \<Rightarrow> u64" where
  "lane_gbps s = (if s = 1 then 2 else if s = 2 then 5 else if s = 4 then 10 else if s = 8 then 10
     else if s = 16 then 14 else if s = 32 then 25 else if s = 64 then 50 else if s = 128 then 100 else 0)"

definition lane_width :: "u8 \<Rightarrow> u64" where
  "lane_width w = (if w = 1 then 1 else if w = 2 then 4 else if w = 4 then 8 else if w = 8 then 12 else 1)"

definition ib_speed_gbps :: "port_attr \<Rightarrow> u64" where
  "ib_speed_gbps pa = lane_gbps (pa_active_speed pa) * lane_width (pa_active_width pa)"

definition port_state_str :: "port_state \<Rightarrow> string" where
  "port_state_str s = (case s of IBV_PORT_NOP \<Rightarrow> ''NOP'' | IBV_PORT_DOWN \<Rightarrow> ''PORT_DOWN'' | IBV_PORT_INIT \<Rightarrow> ''PORT_INIT''
     | IBV_PORT_ARMED \<Rightarrow> ''PORT_ARMED'' | IBV_PORT_ACTIVE \<Rightarrow> ''PORT_ACTIVE'' | Other_state \<Rightarrow> ''UNKNOWN'')"

text \<open>The last component of the resolved path.\<close>

definition ib_pci_bus_id :: "hca \<Rightarrow> string" where
  "ib_pci_bus_id d = (case hc_realpath d of None \<Rightarrow> [] | Some path \<Rightarrow> rev (takeWhile (\<lambda>c. c \<noteq> CHR ''/'') (rev path)))"

definition ascii_lower :: "char \<Rightarrow> char" where
  "ascii_lower c = (if CHR ''A'' \<le> c \<and> c \<le> CHR ''Z'' then char_of (of_char c + (32 :: nat)) else c)"

definition gpu_pci_bus_id :: "cuda_calls \<Rightarrow> int \<Rightarrow> string" where
  "gpu_pci_bus_id cu g_id = (case cu_bus_id cu g_id of
     None \<Rightarrow> []
   | Some buf \<Rightarrow> (let s = map ascii_lower buf in if length s = 7 then ''0000:'' @ s else s))"

section \<open>Enumerating GPUs and ports\<close>

text \<open>The ids to use, or the exception; and the peer pairs \<open>(a, b)\<close> for which access from \<open>a\<close> to \<open>b\<close> is enabled, in order.\<close>

definition candidate_gpus :: "int \<Rightarrow> int list \<Rightarrow> probe_error + int list" where
  "candidate_gpus n_gpus ids =
     (case List.find (\<lambda>g_id. g_id < 0 \<or> g_id \<ge> n_gpus) ids of
        Some g_id \<Rightarrow> Inl (Invalid_gpu_id g_id)
      | None \<Rightarrow> Inr (if ids \<noteq> [] then ids else [0..n_gpus - 1]))"

definition peer_pairs :: "cuda_calls \<Rightarrow> int list \<Rightarrow> (int \<times> int) list" where
  "peer_pairs cu ids = [(a, b). a \<leftarrow> ids, b \<leftarrow> ids, a \<noteq> b \<and> cu_can_access_peer cu a b]"

definition discover_gpus :: "cuda_calls \<Rightarrow> gpu_config \<Rightarrow> probe_error + int list \<times> (int \<times> int) list" where
  "discover_gpus cu g =
     (case cu_count cu of
        None \<Rightarrow> Inl No_gpus
      | Some n_gpus \<Rightarrow>
          if n_gpus = 0 then Inl No_gpus
          else case candidate_gpus n_gpus (gc_gpu_ids g) of
            Inl e \<Rightarrow> Inl e
          | Inr valid \<Rightarrow> if valid = [] then Inl No_gpus
              else Inr (valid, if gc_enable_peer_access g then peer_pairs cu valid else []))"

text \<open>One device: skipped if it is not requested or does not open; its active ports otherwise, only the configured one when
  devices are named.\<close>

definition port_info :: "machine \<Rightarrow> hca \<Rightarrow> int \<Rightarrow> port_attr \<Rightarrow> ib_port_info" where
  "port_info m d port pa = \<lparr>ip_dev_name = hc_name d, ip_port = port, ip_numa_node = pci_numa_node m (ib_pci_bus_id d),
     ip_speed_gbps = ib_speed_gbps pa\<rparr>"

definition port_candidate :: "rdma_config \<Rightarrow> machine \<Rightarrow> hca \<Rightarrow> int \<Rightarrow> ib_port_info option" where
  "port_candidate r m d port =
     (if rc_ib_devices r \<noteq> [] \<and> port \<noteq> rc_ib_port r then None
      else case hc_query_port d port of
        None \<Rightarrow> None
      | Some pa \<Rightarrow> if pa_state pa = IBV_PORT_ACTIVE then Some (port_info m d port pa) else None)"

definition device_ports :: "rdma_config \<Rightarrow> machine \<Rightarrow> hca \<Rightarrow> ib_port_info list" where
  "device_ports r m d =
     (if rc_ib_devices r \<noteq> [] \<and> hc_name d \<notin> set (rc_ib_devices r) then []
      else if \<not> hc_opens d then []
      else List.map_filter (port_candidate r m d) [1..uint (hc_phys_port_cnt d)])"

definition discover_ib_ports :: "rdma_config \<Rightarrow> machine \<Rightarrow> probe_error + ib_port_info list" where
  "discover_ib_ports r m =
     (if ma_devices m = [] then Inl No_ib_devices
      else let ports = concat (map (device_ports r m) (ma_devices m)) in
        if ports = [] then Inl No_active_ports else Inr ports)"

section \<open>Making a GPU the thread's device\<close>

text \<open>What \<open>cudaDeviceEnablePeerAccess\<close> answers; only the other calls throw.\<close>

datatype peer_answer = Peer_enabled | Peer_already_enabled | Peer_refused

text \<open>\<open>bind_cuda_device\<close>: the call that threw, or the peers it asked for with the answers, in order.\<close>

definition bind_cuda_device ::
  "(int \<Rightarrow> bool) \<Rightarrow> (int \<Rightarrow> peer_answer) \<Rightarrow> cuda_calls \<Rightarrow> int \<Rightarrow> string + (int \<times> peer_answer) list" where
  "bind_cuda_device set_device enable cu gpu =
     (if \<not> set_device gpu then Inl ''cudaSetDevice''
      else case cu_count cu of
        None \<Rightarrow> Inl ''cudaGetDeviceCount''
      | Some n_gpus \<Rightarrow> Inr (map (\<lambda>peer. (peer, enable peer))
          (filter (\<lambda>peer. peer \<noteq> gpu \<and> cu_can_access_peer cu gpu peer) [0..n_gpus - 1])))"

text \<open>\<open>RDMAEngine::bind_cuda_device\<close> turns the exception into its result; without GPU support it does nothing.\<close>

definition engine_bind_cuda_device ::
  "bool \<Rightarrow> (int \<Rightarrow> bool) \<Rightarrow> (int \<Rightarrow> peer_answer) \<Rightarrow> cuda_calls \<Rightarrow> rdma_engine \<Rightarrow> bool" where
  "engine_bind_cuda_device gpu set_device enable cu e =
     (if \<not> gpu then True
      else case bind_cuda_device set_device enable cu (rx_gpu_id (re_ctx e)) of Inl where_failed \<Rightarrow> False | Inr peers \<Rightarrow> True)"

text \<open>Refused peers do not fail the binding, and every other device of the machine that can be reached is asked for once,
  whatever GPUs the configuration names.\<close>

theorem bind_cuda_device_peers:
  assumes "bind_cuda_device set_device enable cu gpu = Inr peers" and "cu_count cu = Some n_gpus"
  shows "distinct (map fst peers)
    \<and> fst ` set peers = {peer. 0 \<le> peer \<and> peer < n_gpus \<and> peer \<noteq> gpu \<and> cu_can_access_peer cu gpu peer}"
  using assms by (auto simp: bind_cuda_device_def comp_def image_image split: if_splits)

section \<open>Binding\<close>

record bound_device =
  bd_gpu_id :: int
  bd_gpu_name :: string
  bd_gpu_numa :: int
  bd_gpu_mem_bytes :: u64
  bd_ib_dev_name :: string
  bd_ib_port :: int
  bd_ib_numa :: int
  bd_ib_speed_gbps :: u64
  bd_ib_state :: string
  bd_gid :: "u8 list"

definition null_bound_device :: bound_device where
  "null_bound_device = \<lparr>bd_gpu_id = -1, bd_gpu_name = [], bd_gpu_numa = -1, bd_gpu_mem_bytes = 0, bd_ib_dev_name = [],
     bd_ib_port = 1, bd_ib_numa = -1, bd_ib_speed_gbps = 0, bd_ib_state = [], bd_gid = replicate 16 0\<rparr>"

text \<open>What is known of a GPU, with GPU support.\<close>

definition query_gpu :: "machine \<Rightarrow> int \<Rightarrow> gpu_info" where
  "query_gpu m g_id = \<lparr>gi_id = g_id, gi_name = cu_name (ma_cuda m) g_id, gi_mem_bytes = cu_mem_bytes (ma_cuda m) g_id,
     gi_numa = pci_numa_node m (gpu_pci_bus_id (ma_cuda m) g_id)\<rparr>"

text \<open>The selection loop, whose best port starts out as no port.\<close>

definition select_port :: "int \<Rightarrow> ib_port_info option \<Rightarrow> ib_port_info \<Rightarrow> ib_port_info option" where
  "select_port numa best port = (case best of None \<Rightarrow> Some port | Some b \<Rightarrow> Some (better_port numa b port))"

definition query_gid :: "machine \<Rightarrow> string \<Rightarrow> int \<Rightarrow> int \<Rightarrow> u8 list" where
  "query_gid m dev port index =
     (case List.find (\<lambda>d. hc_name d = dev) (ma_devices m) of
        None \<Rightarrow> replicate 16 0
      | Some d \<Rightarrow> if \<not> hc_opens d then replicate 16 0
          else case hc_gid d port index of None \<Rightarrow> replicate 16 0 | Some gid \<Rightarrow> gid)"

definition bind_gpu :: "machine \<Rightarrow> ib_port_info list \<Rightarrow> rdma_config \<Rightarrow> gpu_config \<Rightarrow> int \<Rightarrow> probe_error + bound_device" where
  "bind_gpu m ports r g g_id =
     (let q = query_gpu m g_id in
      case foldl (select_port (gi_numa q)) None ports of
        None \<Rightarrow> Inl (No_port_for_gpu g_id)
      | Some p \<Rightarrow>
          if gc_require_same_numa g \<and> gi_numa q \<noteq> ip_numa_node p \<and> gi_numa q \<noteq> -1 \<and> ip_numa_node p \<noteq> -1
          then Inl (Numa_mismatch g_id)
          else Inr \<lparr>bd_gpu_id = g_id, bd_gpu_name = gi_name q, bd_gpu_numa = gi_numa q, bd_gpu_mem_bytes = gi_mem_bytes q,
            bd_ib_dev_name = ip_dev_name p, bd_ib_port = ip_port p, bd_ib_numa = ip_numa_node p,
            bd_ib_speed_gbps = ip_speed_gbps p, bd_ib_state = ''PORT_ACTIVE'',
            bd_gid = query_gid m (ip_dev_name p) (ip_port p) (rc_gid_index r)\<rparr>)"

fun bind_gpus_to_hcas ::
  "machine \<Rightarrow> int list \<Rightarrow> ib_port_info list \<Rightarrow> rdma_config \<Rightarrow> gpu_config \<Rightarrow> probe_error + bound_device list" where
  "bind_gpus_to_hcas m [] ports r g = Inr []"
| "bind_gpus_to_hcas m (g_id # ids) ports r g =
     (case bind_gpu m ports r g g_id of
        Inl e \<Rightarrow> Inl e
      | Inr bd \<Rightarrow> (case bind_gpus_to_hcas m ids ports r g of Inl e \<Rightarrow> Inl e | Inr bds \<Rightarrow> Inr (bd # bds)))"

text \<open>\<open>gpu\<close> says which build. The one without GPU support takes the first port, whatever the others are.\<close>

definition probe_and_bind :: "bool \<Rightarrow> machine \<Rightarrow> config \<Rightarrow> probe_error + bound_device list" where
  "probe_and_bind gpu m c =
     (if gpu then
        case discover_gpus (ma_cuda m) (cf_gpu c) of
          Inl e \<Rightarrow> Inl e
        | Inr (ids, _) \<Rightarrow> (case discover_ib_ports (cf_rdma c) m of
            Inl e \<Rightarrow> Inl e
          | Inr ports \<Rightarrow> bind_gpus_to_hcas m ids ports (cf_rdma c) (cf_gpu c))
      else case discover_ib_ports (cf_rdma c) m of
          Inl e \<Rightarrow> Inl e
        | Inr ports \<Rightarrow> Inr (case ports of [] \<Rightarrow> [] | p # _ \<Rightarrow>
            [null_bound_device\<lparr>bd_ib_dev_name := ip_dev_name p, bd_ib_port := ip_port p, bd_ib_numa := ip_numa_node p,
              bd_ib_speed_gbps := ip_speed_gbps p, bd_ib_state := ''PORT_ACTIVE''\<rparr>]))"

section \<open>Which ports are found\<close>

text \<open>A port that may be used: its device is asked for (or none is named), opens, and the port answers as active; where
  devices are named it is the configured port.\<close>

definition usable_port :: "rdma_config \<Rightarrow> machine \<Rightarrow> hca \<Rightarrow> int \<Rightarrow> port_attr \<Rightarrow> bool" where
  "usable_port r m d port pa \<longleftrightarrow> d \<in> set (ma_devices m) \<and> hc_opens d
     \<and> (rc_ib_devices r \<noteq> [] \<longrightarrow> hc_name d \<in> set (rc_ib_devices r) \<and> port = rc_ib_port r)
     \<and> 1 \<le> port \<and> port \<le> uint (hc_phys_port_cnt d) \<and> hc_query_port d port = Some pa \<and> pa_state pa = IBV_PORT_ACTIVE"

lemma in_map_filter: "y \<in> set (List.map_filter f xs) \<longleftrightarrow> (\<exists>x \<in> set xs. f x = Some y)"
  by (induction xs) (auto simp: map_filter_simps split: option.splits)

lemma port_candidate_Some:
  "port_candidate r m d port = Some p \<longleftrightarrow> (rc_ib_devices r = [] \<or> port = rc_ib_port r)
     \<and> (\<exists>pa. hc_query_port d port = Some pa \<and> pa_state pa = IBV_PORT_ACTIVE \<and> p = port_info m d port pa)"
  by (auto simp: port_candidate_def split: option.splits)

lemma device_ports_iff:
  assumes "d \<in> set (ma_devices m)"
  shows "p \<in> set (device_ports r m d) \<longleftrightarrow> (\<exists>port pa. usable_port r m d port pa \<and> p = port_info m d port pa)"
proof (cases "(rc_ib_devices r \<noteq> [] \<and> hc_name d \<notin> set (rc_ib_devices r)) \<or> \<not> hc_opens d")
  case True
  then show ?thesis by (auto simp: device_ports_def usable_port_def)
next
  case False
  then have "device_ports r m d = List.map_filter (port_candidate r m d) [1..uint (hc_phys_port_cnt d)]"
    by (auto simp: device_ports_def)
  then have mem: "p \<in> set (device_ports r m d) \<longleftrightarrow> (\<exists>port \<in> {1..uint (hc_phys_port_cnt d)}. port_candidate r m d port = Some p)"
    by (simp only: in_map_filter set_upto)
  have "port \<in> {1..uint (hc_phys_port_cnt d)} \<and> port_candidate r m d port = Some p
      \<longleftrightarrow> (\<exists>pa. usable_port r m d port pa \<and> p = port_info m d port pa)" for port
    unfolding port_candidate_Some usable_port_def atLeastAtMost_iff using False assms by blast
  then show ?thesis unfolding mem by blast
qed

lemma discovered_ports:
  assumes "discover_ib_ports r m = Inr ports"
  shows "ports \<noteq> [] \<and> (p \<in> set ports \<longleftrightarrow> (\<exists>d port pa. usable_port r m d port pa \<and> p = port_info m d port pa))"
proof -
  have ports: "ports = concat (map (device_ports r m) (ma_devices m))" "ports \<noteq> []"
    using assms by (auto simp: discover_ib_ports_def Let_def split: if_splits)
  have "p \<in> set ports \<longleftrightarrow> (\<exists>d \<in> set (ma_devices m). p \<in> set (device_ports r m d))" unfolding ports(1) by simp
  then show ?thesis using ports(2) device_ports_iff [of _ m p r] by (metis usable_port_def)
qed

text \<open>Discovery fails exactly when the machine has no usable port.\<close>

theorem discovery_fails_iff:
  "(\<exists>err. discover_ib_ports r m = Inl err) \<longleftrightarrow> (\<forall>d port pa. \<not> usable_port r m d port pa)"
proof (cases "discover_ib_ports r m")
  case (Inr ports)
  have "\<exists>p. p \<in> set ports" using conjunct1 [OF discovered_ports [OF Inr]] by (cases ports) auto
  then have "\<exists>d port pa. usable_port r m d port pa" using discovered_ports [OF Inr] by blast
  then show ?thesis using Inr by simp
next
  case (Inl err)
  then have none: "\<forall>d \<in> set (ma_devices m). device_ports r m d = []"
    by (auto simp: discover_ib_ports_def Let_def split: if_splits)
  have "\<not> usable_port r m d port pa" for d port pa
  proof
    assume usable: "usable_port r m d port pa"
    then have "d \<in> set (ma_devices m)" by (simp add: usable_port_def)
    then show False using device_ports_iff [of d m "port_info m d port pa" r] usable none by auto
  qed
  then show ?thesis using Inl by simp
qed

text \<open>The selection of \<open>bind_gpus_to_hcas\<close>, which starts without a port, is that of the engine, which starts with the first.\<close>

lemma select_port_best: "foldl (select_port numa) None ports = best_port numa ports"
proof -
  have "foldl (select_port numa) (Some b) ps = Some (foldl (better_port numa) b ps)" for b ps
    by (induction ps arbitrary: b) (simp_all add: select_port_def)
  then show ?thesis
    by (cases ports) (simp_all add: best_port_def select_port_def better_port_def Let_def)
qed

section \<open>The engine on a machine\<close>

text \<open>\<open>probe_and_bind_devices\<close> of the engine with what this machine answers; an exception of a discovery makes it fail.\<close>

definition found_gpus :: "bool \<Rightarrow> machine \<Rightarrow> config \<Rightarrow> gpu_info list option" where
  "found_gpus gpu m c = (if gpu then Some (case discover_gpus (ma_cuda m) (cf_gpu c) of
     Inl err \<Rightarrow> [] | Inr (ids, pairs) \<Rightarrow> map (query_gpu m) ids) else None)"

definition found_ports :: "machine \<Rightarrow> config \<Rightarrow> ib_port_info list" where
  "found_ports m c = (case discover_ib_ports (cf_rdma c) m of Inl err \<Rightarrow> [] | Inr ports \<Rightarrow> ports)"

definition engine_probe :: "bool \<Rightarrow> machine \<Rightarrow> rdma_engine \<Rightarrow> bool \<times> rdma_engine" where
  "engine_probe gpu m e = probe_and_bind_devices (found_gpus gpu m (re_config e)) (found_ports m (re_config e)) e"

lemma found_ports_iff: "p \<in> set (found_ports m c) \<longleftrightarrow> (\<exists>d port pa. usable_port (cf_rdma c) m d port pa \<and> p = port_info m d port pa)"
proof (cases "discover_ib_ports (cf_rdma c) m")
  case (Inr ports)
  then show ?thesis using discovered_ports [OF Inr] by (simp add: found_ports_def)
next
  case (Inl err)
  then show ?thesis using discovery_fails_iff [of "cf_rdma c" m] by (auto simp: found_ports_def)
qed

text \<open>C40 The engine selects and announces the best usable port of its machine (its queue pairs are bound to the configured port number
  all the same). The announced port belongs to a device that opens, is active and
  is one the configuration allows; if any usable port is on the GPU's NUMA node so is it, and no usable port of the same
  kind is faster.\<close>

theorem engine_binds_best_usable_port:
  assumes "engine_probe gpu m e = (True, e')"
  defines "n \<equiv> re_node_info e'" and "r \<equiv> cf_rdma (re_config e)"
  shows "\<exists>d pa. usable_port r m d (ni_ib_port n) pa \<and> ni_ib_dev_name n = hc_name d
    \<and> ni_ib_numa n = pci_numa_node m (ib_pci_bus_id d) \<and> ni_ib_speed_gbps n = ib_speed_gbps pa
    \<and> (\<forall>d' port' pa'. usable_port r m d' port' pa' \<longrightarrow>
         (pci_numa_node m (ib_pci_bus_id d') = ni_gpu_numa n \<longrightarrow> ni_ib_numa n = ni_gpu_numa n)
         \<and> ((pci_numa_node m (ib_pci_bus_id d') = ni_gpu_numa n) = (ni_ib_numa n = ni_gpu_numa n)
              \<longrightarrow> ib_speed_gbps pa' \<le> ib_speed_gbps pa))"
proof -
  obtain p where p: "p \<in> set (found_ports m (re_config e))" "ni_ib_dev_name n = ip_dev_name p" "ni_ib_port n = ip_port p"
    "ni_ib_numa n = ip_numa_node p" "ni_ib_speed_gbps n = ip_speed_gbps p"
    "\<forall>q \<in> set (found_ports m (re_config e)). port_ge (ni_gpu_numa n) p q"
    using probe_takes_best [OF assms(1) [unfolded engine_probe_def]] unfolding n_def by blast
  obtain d port pa where d: "usable_port r m d port pa" "p = port_info m d port pa"
    using p(1) unfolding found_ports_iff r_def by blast
  have p_d: "ni_ib_dev_name n = hc_name d" "ni_ib_port n = port" "ni_ib_numa n = pci_numa_node m (ib_pci_bus_id d)"
    "ni_ib_speed_gbps n = ib_speed_gbps pa" "ip_numa_node p = ni_ib_numa n" "ip_speed_gbps p = ib_speed_gbps pa"
    using p(2-5) d(2) by (simp_all add: port_info_def)
  have "(pci_numa_node m (ib_pci_bus_id d') = ni_gpu_numa n \<longrightarrow> ni_ib_numa n = ni_gpu_numa n)
      \<and> ((pci_numa_node m (ib_pci_bus_id d') = ni_gpu_numa n) = (ni_ib_numa n = ni_gpu_numa n)
           \<longrightarrow> ib_speed_gbps pa' \<le> ib_speed_gbps pa)"
    if "usable_port r m d' port' pa'" for d' port' pa'
  proof -
    have "port_info m d' port' pa' \<in> set (found_ports m (re_config e))" using that found_ports_iff unfolding r_def by blast
    then have "port_ge (ni_gpu_numa n) p (port_info m d' port' pa')" using p(6) by blast
    then show ?thesis unfolding port_ge_def p_d(5,6) by (simp add: port_info_def)
  qed
  then show ?thesis using d(1) p_d(1-4) by blast
qed

text \<open>A machine with two devices: a fast port on node 1, and on node 0 an active and a down port.\<close>

definition sample_hca :: "string \<Rightarrow> u8 \<Rightarrow> (int \<Rightarrow> port_attr option) \<Rightarrow> hca" where
  "sample_hca name ports answer = \<lparr>hc_name = name, hc_opens = True, hc_phys_port_cnt = ports, hc_query_port = answer,
     hc_realpath = Some (''/sys/devices/'' @ name), hc_gid = (\<lambda>port index. None)\<rparr>"

definition sample_machine :: machine where
  "sample_machine = \<lparr>
     ma_devices = [
       sample_hca ''mlx5_0'' 1 (\<lambda>port. Some \<lparr>pa_state = IBV_PORT_ACTIVE, pa_active_speed = 64, pa_active_width = 2\<rparr>),
       sample_hca ''mlx5_1'' 2 (\<lambda>port. Some \<lparr>pa_state = if port = 1 then IBV_PORT_ACTIVE else IBV_PORT_DOWN,
         pa_active_speed = 32, pa_active_width = 2\<rparr>)],
     ma_numa = (\<lambda>bus_id. if bus_id = ''mlx5_0'' then Number 1 else Number 0),
     ma_cuda = \<lparr>cu_count = None, cu_bus_id = (\<lambda>gpu. None), cu_name = (\<lambda>gpu. []), cu_mem_bytes = (\<lambda>gpu. 0),
       cu_can_access_peer = (\<lambda>a b. False)\<rparr>\<rparr>"

lemma sample_ports:
  assumes "rc_ib_devices r = []"
  shows "discover_ib_ports r sample_machine = Inr [
    \<lparr>ip_dev_name = ''mlx5_0'', ip_port = 1, ip_numa_node = 1, ip_speed_gbps = 200\<rparr>,
    \<lparr>ip_dev_name = ''mlx5_1'', ip_port = 1, ip_numa_node = 0, ip_speed_gbps = 100\<rparr>]"
proof -
  have upto: "[1..2 :: int] = [1, 2]" by (simp add: upto.simps)
  show ?thesis
    by (simp add: discover_ib_ports_def sample_machine_def sample_hca_def device_ports_def port_candidate_def upto
        map_filter_simps port_info_def assms ib_pci_bus_id_def pci_numa_node_def ib_speed_gbps_def lane_gbps_def lane_width_def
        takeWhile.simps Let_def)
qed

lemma sample_probe:
  assumes "rc_ib_devices (cf_rdma (re_config e)) = []"
  shows "\<exists>e'. engine_probe False sample_machine e = (True, e') \<and> ni_ib_dev_name (re_node_info e') = ''mlx5_1''
    \<and> ni_ib_port (re_node_info e') = 1 \<and> ni_gpu_numa (re_node_info e') = 0"
  by (simp add: engine_probe_def found_gpus_def found_ports_def sample_ports [OF assms] probe_and_bind_devices_def
      best_port_def better_port_def Let_def)

theorem engine_binds_best_usable_port_witness:
  "\<exists>e' d pa. engine_probe False sample_machine connected_engine = (True, e')
    \<and> usable_port (cf_rdma sample_rdma_config) sample_machine d (ni_ib_port (re_node_info e')) pa
    \<and> hc_name d = ''mlx5_1''"
proof -
  have c: "re_config connected_engine = sample_rdma_config" by (simp add: connected_engine_def new_rdma_engine_def)
  have "rc_ib_devices (cf_rdma sample_rdma_config) = []" by (simp add: sample_rdma_config_def default_rdma_config_def)
  then obtain e' where e': "engine_probe False sample_machine connected_engine = (True, e')"
    "ni_ib_dev_name (re_node_info e') = ''mlx5_1''"
    using sample_probe [of connected_engine] c by auto
  show ?thesis using engine_binds_best_usable_port [OF e'(1)] e' unfolding c by metis
qed

text \<open>The port number of the configuration file has no effect: for any configuration read from a file, the ports found, so the
  one the engine binds, are the same whatever \<open>ib_port\<close> says, and every active port of every device that opens is a
  candidate.\<close>

theorem configured_port_has_no_effect:
  assumes "config_from_file api g file = Inr c"
  shows "discover_ib_ports (cf_rdma c\<lparr>rc_ib_port := k\<rparr>) m = discover_ib_ports (cf_rdma c) m
    \<and> (usable_port (cf_rdma c) m d port pa \<longleftrightarrow> d \<in> set (ma_devices m) \<and> hc_opens d \<and> 1 \<le> port
         \<and> port \<le> uint (hc_phys_port_cnt d) \<and> hc_query_port d port = Some pa \<and> pa_state pa = IBV_PORT_ACTIVE)"
proof -
  have none: "rc_ib_devices (cf_rdma c) = []" using accepted_config_devices [OF assms] by simp
  then have "port_candidate (cf_rdma c\<lparr>rc_ib_port := k\<rparr>) m = port_candidate (cf_rdma c) m"
    by (intro ext) (simp add: port_candidate_def)
  then have "device_ports (cf_rdma c\<lparr>rc_ib_port := k\<rparr>) m = device_ports (cf_rdma c) m"
    using none by (intro ext) (simp add: device_ports_def)
  then show ?thesis using none by (simp add: discover_ib_ports_def usable_port_def)
qed

theorem configured_port_has_no_effect_witness:
  "\<exists>c ports. config_from_file yaml_tree (0, 0) (Some sample_yaml) = Inr c
    \<and> discover_ib_ports (cf_rdma c\<lparr>rc_ib_port := 2\<rparr>) sample_machine = Inr ports \<and> list_all (\<lambda>p. ip_port p = 1) ports"
proof -
  obtain c where c: "config_from_file yaml_tree (0, 0) (Some sample_yaml) = Inr c" using sample_yaml_config by blast
  show ?thesis
    using configured_port_has_no_effect [OF c, of 2 sample_machine] sample_ports [of "cf_rdma c"] accepted_config_devices [OF c] c
    by (intro exI [of _ c]) simp
qed

text \<open>The unused entry point \<open>probe_and_bind\<close> agrees with none of this in the build without GPU support: it takes the first port,
  here the one on the other node.\<close>

theorem cpu_probe_takes_first_port:
  assumes "discover_ib_ports (cf_rdma c) m = Inr ports"
  shows "\<exists>bd. probe_and_bind False m c = Inr [bd] \<and> bd_ib_dev_name bd = ip_dev_name (hd ports) \<and> bd_ib_port bd = ip_port (hd ports)"
proof -
  obtain p ps where "ports = p # ps" using conjunct1 [OF discovered_ports [OF assms]] by (cases ports) auto
  then show ?thesis using assms by (simp add: probe_and_bind_def)
qed

text \<open>Where the configuration asks for GPU and adapter on the same node, \<open>bind_gpus_to_hcas\<close> fails if the best port is on another
  known node; a binding it returns is to the best port, one per GPU in the order given.\<close>

theorem bound_gpus:
  assumes "bind_gpus_to_hcas m ids ports r g = Inr bds"
  shows "map bd_gpu_id bds = ids \<and> (\<forall>bd \<in> set bds. \<exists>p. best_port (bd_gpu_numa bd) ports = Some p
    \<and> bd_ib_dev_name bd = ip_dev_name p \<and> bd_ib_port bd = ip_port p
    \<and> (gc_require_same_numa g \<longrightarrow> bd_gpu_numa bd = ip_numa_node p \<or> bd_gpu_numa bd = -1 \<or> ip_numa_node p = -1))"
  using assms
proof (induction ids arbitrary: bds)
  case (Cons gpu ids)
  obtain bd bds' where bd: "bind_gpu m ports r g gpu = Inr bd" "bind_gpus_to_hcas m ids ports r g = Inr bds'" "bds = bd # bds'"
    using Cons.prems by (auto split: sum.splits)
  have "bd_gpu_id bd = gpu \<and> (\<exists>p. best_port (bd_gpu_numa bd) ports = Some p
    \<and> bd_ib_dev_name bd = ip_dev_name p \<and> bd_ib_port bd = ip_port p
    \<and> (gc_require_same_numa g \<longrightarrow> bd_gpu_numa bd = ip_numa_node p \<or> bd_gpu_numa bd = -1 \<or> ip_numa_node p = -1))"
    using bd(1) by (auto simp: bind_gpu_def select_port_best Let_def split: option.splits if_splits)
  then show ?case using Cons.IH [OF bd(2)] bd(3) by simp
qed simp

end
