(* ===== verification/VllmServer.thy ===== *)
theory VllmServer
  imports Bindings DeviceProbe NodeWorker
begin

text \<open>
  The node's side of vLLM: the HTTP client that posts to it (\<open>src/cpp/network/http_client.cpp\<close>), the command line that
  starts it (\<open>Node::start_vllm_server\<close> of \<open>src/cpp/nodes/node.cpp\<close>), and the accessor through which its Python connector is
  to reach the engine (\<open>src/cpp/nodes/node_accessor.cpp\<close>). libcurl, the file system and \<open>fork\<close> are arguments.
\<close>

section \<open>The HTTP client\<close>

record http_response =
  hr_success :: bool
  hr_status_code :: int
  hr_body :: string
  hr_error :: string

text \<open>What \<open>curl_easy_perform\<close> ends with: an error and its text, or a status code and a body.\<close>

datatype curl_result = Curl_error string | Curl_done int string

definition show_int :: "int \<Rightarrow> string" where
  "show_int i = (if i < 0 then ''-'' @ show_nat (nat (- i)) else show_nat (nat i))"

text \<open>\<open>handle\<close> says whether the constructor got a handle. The status is a \<open>long\<close>, stored as an \<open>int\<close>.\<close>

definition http_post :: "bool \<Rightarrow> curl_result \<Rightarrow> http_response" where
  "http_post handle res =
     (if \<not> handle then \<lparr>hr_success = False, hr_status_code = 0, hr_body = [], hr_error = ''CURL not initialized''\<rparr>
      else case res of
        Curl_error msg \<Rightarrow> \<lparr>hr_success = False, hr_status_code = 0, hr_body = [], hr_error = ''CURL error: '' @ msg\<rparr>
      | Curl_done status body \<Rightarrow>
          (let code = sint (word_of_int status :: u32) in
           if status \<ge> 200 \<and> status < 300
           then \<lparr>hr_success = True, hr_status_code = code, hr_body = body, hr_error = []\<rparr>
           else \<lparr>hr_success = False, hr_status_code = code, hr_body = body, hr_error = ''HTTP error '' @ show_int status\<rparr>))"

text \<open>How the node's handlers read the response: \<open>parse\<close> is the JSON access, \<open>None\<close> where it throws.\<close>

definition answer_of_response :: "(string \<Rightarrow> 'a option) \<Rightarrow> http_response \<Rightarrow> 'a vllm_answer" where
  "answer_of_response parse r = (if \<not> hr_success r then Vllm_failed
     else case parse (hr_body r) of None \<Rightarrow> Vllm_malformed | Some a \<Rightarrow> Vllm_ok a)"

section \<open>Starting vLLM\<close>

definition kv_role :: "config \<Rightarrow> string" where
  "kv_role c = (if cf_role c = ''prefill'' then ''kv_producer'' else ''kv_consumer'')"

definition mooncake_path :: "config \<Rightarrow> string" where
  "mooncake_path c = ''/tmp/mooncake-'' @ cf_role c @ ''-'' @ show_nat (unat (cf_client_socket_port c)) @ ''.json''"

definition mooncake_device :: "config \<Rightarrow> string" where
  "mooncake_device c = (if rc_ib_devices (cf_rdma c) = [] then ''mlx5_0'' else hd (rc_ib_devices (cf_rdma c)))"

definition newline :: string where
  "newline = [char_of (10 :: nat)]"

definition mooncake_content :: "config \<Rightarrow> string" where
  "mooncake_content c = ''{'' @ newline @ ''  \"local_hostname\": \"'' @ cf_hostname c @ ''\",'' @ newline
     @ ''  \"metadata_server\": \"'' @ cf_orchestrator_host c @ '':2379\",'' @ newline
     @ ''  \"protocol\": \"rdma\",'' @ newline
     @ ''  \"rdma_devices\": [\"'' @ mooncake_device c @ ''\"],'' @ newline
     @ ''  \"use_gpu_direct\": false'' @ newline @ ''}'' @ newline"

text \<open>\<open>home\<close> is the variable \<open>HOME\<close>, \<open>util\<close> the text of the memory utilisation.\<close>

definition vllm_command :: "string \<Rightarrow> string \<Rightarrow> config \<Rightarrow> string" where
  "vllm_command home util c =
     ''source '' @ home @ ''/rdma-kv-cache/venv/bin/activate && '' @
     (let model = ''--model '' @ [CHR 0x27] @ cf_model_name c @ [CHR 0x27] @ '' --port '' @ show_nat (unat (cf_vllm_port c)) @ '' '' in
      if cf_use_gpu c then
        ''PYTHONPATH='' @ home @ ''/rdma-kv-cache/python:'' @ home @ ''/rdma-kv-cache/build/cpp/bindings:$PYTHONPATH ''
        @ ''python -m vllm.entrypoints.openai.api_server '' @ model
        @ ''--gpu-memory-utilization '' @ util @ '' --kv-transfer-config ''
        @ [CHR 0x27] @ ''{\"kv_connector\": \"RDMAConnector\", \"kv_role\": \"'' @ kv_role c
        @ ''\", \"kv_connector_module_path\": \"rdma_connector\"}'' @ [CHR 0x27]
      else
        ''MOONCAKE_CONFIG_PATH='' @ mooncake_path c @ '' python -m vllm.entrypoints.openai.api_server '' @ model
        @ ''--kv-transfer-config '' @ [CHR 0x27] @ ''{\"kv_connector\": \"MooncakeConnector\", \"kv_role\": \"'' @ kv_role c
        @ ''\"}'' @ [CHR 0x27] @ '' --device cpu'')"

text \<open>The results of \<open>open\<close>, \<open>write\<close> (what was written, or an error) and \<open>fork\<close>.\<close>

record start_server_calls =
  sv_open :: int
  sv_written :: "nat option"
  sv_fork :: int

text \<open>Success, the file (created or truncated, then as much of its content as was written), and the command of the child, if there is
  one. The parent returns success whether or not the child's \<open>execl\<close> does.\<close>

definition mooncake_file :: "nat option \<Rightarrow> config \<Rightarrow> string \<times> string" where
  "mooncake_file written c = (mooncake_path c, case written of None \<Rightarrow> [] | Some n \<Rightarrow> take n (mooncake_content c))"

definition start_vllm_server ::
  "start_server_calls \<Rightarrow> string \<Rightarrow> string \<Rightarrow> config \<Rightarrow> bool \<times> (string \<times> string) option \<times> string option" where
  "start_vllm_server a home util c =
     (let file = (if cf_use_gpu c then None else Some (mooncake_file (sv_written a) c)) in
      if \<not> cf_use_gpu c \<and> sv_open a < 0 then (False, None, None)
      else if \<not> cf_use_gpu c \<and> sv_written a \<noteq> Some (length (mooncake_content c)) then (False, file, None)
      else if sv_fork a < 0 then (False, file, None)
      else (True, file, Some (vllm_command home util c)))"

section \<open>The accessor\<close>

text \<open>\<open>g_current_node\<close> of one process, whose node we need for its engine only. A program starts with the null pointer.\<close>

definition initial_current_node :: "rdma_engine option" where
  "initial_current_node = None"

definition set_current_node :: "rdma_engine option \<Rightarrow> rdma_engine option \<Rightarrow> rdma_engine option" where
  "set_current_node node current = node"

definition get_node_rdma_engine :: "rdma_engine option \<Rightarrow> rdma_engine option" where
  "get_node_rdma_engine current = current"

section \<open>Properties\<close>

text \<open>A handler goes on exactly for a status from 200 to 299 whose body parses; every transport error and every other status
  makes it report a failure.\<close>

theorem answer_ok_iff:
  "answer_of_response parse (http_post handle res) = Vllm_ok a
     \<longleftrightarrow> handle \<and> (\<exists>status body. res = Curl_done status body \<and> 200 \<le> status \<and> status < 300 \<and> parse body = Some a)"
  by (auto simp: answer_of_response_def http_post_def Let_def split: curl_result.splits option.splits if_splits)

text \<open>vLLM is started only behind a complete Mooncake file, or without one on the GPU path.\<close>

theorem started_server:
  assumes "start_vllm_server a home util c = (True, file, cmd)"
  shows "cmd = Some (vllm_command home util c)
    \<and> file = (if cf_use_gpu c then None else Some (mooncake_path c, mooncake_content c))"
  using assms by (auto simp: start_vllm_server_def mooncake_file_def Let_def split: if_splits)

text \<open>With a configuration from a file, vLLM on the path without GPU support is told the device \<open>mlx5_0\<close>, also where the node's own
  engine has bound another one.\<close>

theorem mooncake_device_is_fixed:
  assumes "config_from_file api g file = Inr c"
  shows "mooncake_device c = ''mlx5_0''"
  using accepted_config_devices [OF assms] by (simp add: mooncake_device_def)

theorem vllm_told_another_device:
  "\<exists>c e'. config_from_file yaml_tree (0, 0) (Some sample_yaml) = Inr c
    \<and> engine_probe False sample_machine (new_rdma_engine c sample_node) = (True, e')
    \<and> ni_ib_dev_name (re_node_info e') = ''mlx5_1'' \<and> mooncake_device c = ''mlx5_0''"
proof -
  obtain c where c: "config_from_file yaml_tree (0, 0) (Some sample_yaml) = Inr c" using sample_yaml_config by blast
  have "rc_ib_devices (cf_rdma (re_config (new_rdma_engine c sample_node))) = []"
    using accepted_config_devices [OF c] by (simp add: new_rdma_engine_def)
  from sample_probe [OF this] mooncake_device_is_fixed [OF c] show ?thesis using c by blast
qed

text \<open>The node registers itself in its own process. vLLM runs in a process of its own, started by \<open>execl\<close>, where the accessor
  still holds the null pointer: the bindings cannot be constructed there.\<close>

theorem vllm_process_has_no_bindings:
  "get_node_rdma_engine (set_current_node (Some e) initial_current_node) = Some e
   \<and> new_bindings (get_node_rdma_engine initial_current_node) = None"
  by (simp add: get_node_rdma_engine_def set_current_node_def initial_current_node_def new_bindings_def)

end
