(* ===== verification/BenchmarkClient.thy ===== *)
theory BenchmarkClient
  imports Complex_Main Connection Config Epoll
begin

text \<open>
  The benchmark client, \<open>src/cpp/apps/client/benchmark_client.cpp\<close>: connecting, one request and its reply, the statistics and
  the throughput run. What the sockets and the clock answer is an argument.
\<close>

section \<open>The client\<close>

record client =
  bc_sock_fd :: int
  bc_connected :: bool

definition new_client :: client where
  "new_client = \<lparr>bc_sock_fd = -1, bc_connected = False\<rparr>"

text \<open>The descriptors closed, and the client. A descriptor left over from a failed request is overwritten, not closed.\<close>

definition client_connect :: "connect_calls \<Rightarrow> client \<Rightarrow> bool \<times> int list \<times> client" where
  "client_connect k c =
     (if bc_connected c then (True, [], c)
      else let fd = cc_socket k in
        if fd < 0 then (False, [], c\<lparr>bc_sock_fd := fd\<rparr>)
        else if \<not> cc_resolved k then (False, [fd], c\<lparr>bc_sock_fd := -1\<rparr>)
        else if \<not> cc_connected k then (False, [fd], c\<lparr>bc_sock_fd := -1\<rparr>)
        else (True, [], c\<lparr>bc_sock_fd := fd, bc_connected := True\<rparr>))"

definition client_disconnect :: "client \<Rightarrow> int list \<times> client" where
  "client_disconnect c =
     (if bc_sock_fd c \<ge> 0 then ([bc_sock_fd c], c\<lparr>bc_sock_fd := -1, bc_connected := False\<rparr>)
      else ([], c\<lparr>bc_connected := False\<rparr>))"

text \<open>\<open>counter\<close> is the static counter, which the call advances.\<close>

definition client_request_id :: "u64 \<Rightarrow> u64 \<Rightarrow> string \<times> u64" where
  "client_request_id now counter =
     (''req_'' @ show_nat (unat now) @ ''_'' @ show_nat (unat counter), counter + 1)"

section \<open>One request\<close>

text \<open>The calls of one request: the clock for the id and for the timestamp, the uninitialised memory the message is made
  in, the results of \<open>send\<close> (how many bytes, or an error) and of \<open>recv\<close> (what was read, at most 65536 bytes, or an
  error).\<close>

record request_calls =
  rq_now_id :: u64
  rq_now :: u64
  rq_memory :: message
  rq_sent :: "nat option"
  rq_received :: "bytes option"

definition client_message :: "u64 \<Rightarrow> message \<Rightarrow> string \<Rightarrow> string \<Rightarrow> int \<Rightarrow> message" where
  "client_message now g rid prompt max_tokens =
     (let m = new_message g in m\<lparr>msg_type := CLIENT_REQUEST, msg_source_node_id := [],
        msg_request_info := (msg_request_info m)\<lparr>ri_request_id := rid, ri_prompt := prompt, ri_max_tokens := max_tokens,
          ri_timestamp_created := now\<rparr>\<rparr>)"

text \<open>The reply as \<open>send_request\<close> judges it: the text, or \<open>None\<close> for one of its error returns.\<close>

definition judge_reply :: "bytes \<Rightarrow> string option" where
  "judge_reply data = (case deserialize_message data of
     None \<Rightarrow> None
   | Some m \<Rightarrow> if msg_type m = CLIENT_ERROR then None
       else if msg_type m \<noteq> CLIENT_RESPONSE then None
       else Some (msg_response_text m))"

text \<open>The text returned on success, the bytes given to \<open>send\<close>, the counter and the client.\<close>

definition client_send_request ::
  "request_calls \<Rightarrow> string \<Rightarrow> int \<Rightarrow> u64 \<Rightarrow> client \<Rightarrow> string option \<times> bytes \<times> u64 \<times> client" where
  "client_send_request q prompt max_tokens counter c =
     (if \<not> bc_connected c then (None, [], counter, c)
      else
        let (rid, counter) = client_request_id (rq_now_id q) counter;
            out = serialize_message (client_message (rq_now q) (rq_memory q) rid prompt max_tokens);
            broken = c\<lparr>bc_connected := False\<rparr> in
        case rq_sent q of
          None \<Rightarrow> (None, out, counter, broken)
        | Some n \<Rightarrow>
            if n \<noteq> length out then (None, out, counter, broken)
            else case rq_received q of
              None \<Rightarrow> (None, out, counter, broken)
            | Some data \<Rightarrow> if data = [] then (None, out, counter, broken)
                else (judge_reply data, out, counter, c))"

section \<open>Statistics\<close>

record bench_stats =
  bs_total :: u64
  bs_successful :: u64
  bs_failed :: u64
  bs_latency_ms :: u64
  bs_min_ms :: u64
  bs_max_ms :: u64

definition empty_stats :: bench_stats where
  "empty_stats = \<lparr>bs_total = 0, bs_successful = 0, bs_failed = 0, bs_latency_ms = 0, bs_min_ms = -1, bs_max_ms = 0\<rparr>"

text \<open>\<open>lat\<close> is the latency cut to whole milliseconds, as the code casts it.\<close>

definition add_result :: "bool \<Rightarrow> u64 \<Rightarrow> bench_stats \<Rightarrow> bench_stats" where
  "add_result success lat s =
     (let s = s\<lparr>bs_total := bs_total s + 1\<rparr> in
      if success then
        s\<lparr>bs_successful := bs_successful s + 1, bs_latency_ms := bs_latency_ms s + lat,
          bs_min_ms := (if lat < bs_min_ms s then lat else bs_min_ms s),
          bs_max_ms := (if lat > bs_max_ms s then lat else bs_max_ms s)\<rparr>
      else s\<lparr>bs_failed := bs_failed s + 1\<rparr>)"

section \<open>The two modes\<close>

definition run_single_request :: "connect_calls \<Rightarrow> request_calls \<Rightarrow> string \<Rightarrow> int \<Rightarrow> string option" where
  "run_single_request k q prompt max_tokens =
     (case client_connect k new_client of
        (False, gone, c) \<Rightarrow> None
      | (True, gone, c) \<Rightarrow> fst (client_send_request q prompt max_tokens 0 c))"

text \<open>The loop, over the calls of each request with the latency it measures.\<close>

fun throughput_loop ::
  "(request_calls \<times> u64) list \<Rightarrow> string \<Rightarrow> int \<Rightarrow> u64 \<Rightarrow> client \<Rightarrow> bench_stats \<Rightarrow> bench_stats \<times> client" where
  "throughput_loop [] prompt max_tokens counter c s = (s, c)"
| "throughput_loop ((q, lat) # qs) prompt max_tokens counter c s =
     (let (r, out, counter, c) = client_send_request q prompt max_tokens counter c
      in throughput_loop qs prompt max_tokens counter c (add_result (r \<noteq> None) lat s))"

definition run_throughput_benchmark ::
  "connect_calls \<Rightarrow> (request_calls \<times> u64) list \<Rightarrow> string \<Rightarrow> int \<Rightarrow> bench_stats option" where
  "run_throughput_benchmark k qs prompt max_tokens =
     (case client_connect k new_client of
        (False, gone, c) \<Rightarrow> None
      | (True, gone, c) \<Rightarrow> Some (fst (throughput_loop qs prompt max_tokens 0 c empty_stats)))"

section \<open>Statistics add up\<close>

text \<open>The statistics of any run add up: the total is the sum of successes and failures, and after a success the smallest
  latency is at most the largest.\<close>

definition stats_ok :: "bench_stats \<Rightarrow> bool" where
  "stats_ok s \<longleftrightarrow> bs_total s = bs_successful s + bs_failed s"

lemma add_result_ok [simp]: "stats_ok s \<Longrightarrow> stats_ok (add_result ok lat s)"
  by (simp add: stats_ok_def add_result_def Let_def)

theorem throughput_stats_ok:
  "stats_ok s \<Longrightarrow> stats_ok (fst (throughput_loop qs prompt max_tokens counter c s))"
  by (induction qs prompt max_tokens counter c s rule: throughput_loop.induct) (simp_all split: prod.split)

text \<open>What \<open>print_summary\<close> prints when a request has succeeded: the average, smallest and largest latency and the success
  rate in percent. The doubles are exact rationals here.\<close>

definition bench_summary :: "bench_stats \<Rightarrow> (rat \<times> u64 \<times> u64 \<times> rat) option" where
  "bench_summary s = (if bs_successful s > 0
     then Some (of_int (uint (bs_latency_ms s)) / of_int (uint (bs_successful s)), bs_min_ms s, bs_max_ms s,
       100 * of_int (uint (bs_successful s)) / of_int (uint (bs_total s)))
     else None)"

text \<open>As long as no counter wraps, the latency sum lies between the smallest and the largest latency times the
  successes.\<close>

definition stats_exact :: "nat \<Rightarrow> int \<Rightarrow> bench_stats \<Rightarrow> bool" where
  "stats_exact n acc s \<longleftrightarrow> uint (bs_total s) \<le> int n \<and> uint (bs_latency_ms s) \<le> acc
     \<and> uint (bs_total s) = uint (bs_successful s) + uint (bs_failed s)
     \<and> uint (bs_min_ms s) * uint (bs_successful s) \<le> uint (bs_latency_ms s)
     \<and> uint (bs_latency_ms s) \<le> uint (bs_max_ms s) * uint (bs_successful s)"

lemma uint_plus_small: "uint (a :: u64) + uint b < 2 ^ 64 \<Longrightarrow> uint (a + b) = uint a + uint b"
  by (simp add: uint_word_ariths)

lemma add_result_exact:
  assumes exact: "stats_exact n acc s" and small: "n + 1 < 2 ^ 64" "acc + uint lat < 2 ^ 64"
  shows "stats_exact (n + 1) (acc + uint lat) (add_result ok lat s)"
proof -
  let ?k = "uint (bs_successful s)"
  have nonneg: "0 \<le> uint (bs_failed s)" "0 \<le> ?k" "0 \<le> uint lat" by simp_all
  have total: "uint (bs_total s + 1) = uint (bs_total s) + 1" "uint (bs_successful s + 1) = ?k + 1"
    "uint (bs_failed s + 1) = uint (bs_failed s) + 1"
    by (rule uint_plus_small [where b = 1, simplified]; use exact small(1) nonneg in \<open>simp add: stats_exact_def; linarith\<close>)+
  have lat: "uint (bs_latency_ms s + lat) = uint (bs_latency_ms s) + uint lat"
    using exact small(2) by (intro uint_plus_small) (simp add: stats_exact_def)
  let ?mn = "if lat < bs_min_ms s then lat else bs_min_ms s" and ?mx = "if lat > bs_max_ms s then lat else bs_max_ms s"
  have mn: "uint ?mn \<le> uint (bs_min_ms s)" "uint ?mn \<le> uint lat" and mx: "uint (bs_max_ms s) \<le> uint ?mx" "uint lat \<le> uint ?mx"
    by (auto simp: word_less_def not_less word_le_def)
  have "uint ?mn * (?k + 1) \<le> uint (bs_latency_ms s) + uint lat"
    using exact mult_right_mono [OF mn(1) nonneg(2)] mn(2) by (simp add: stats_exact_def distrib_left)
  moreover have "uint (bs_latency_ms s) + uint lat \<le> uint ?mx * (?k + 1)"
    using exact mult_right_mono [OF mx(1) nonneg(2)] mx(2) by (simp add: stats_exact_def distrib_left)
  moreover have "uint (bs_latency_ms s) \<le> acc + uint lat"
    using exact by (intro add_increasing2 nonneg(3)) (simp add: stats_exact_def)
  ultimately show ?thesis
    using exact by (cases ok) (simp_all add: stats_exact_def add_result_def Let_def total lat split del: if_split cong: if_cong)
qed

lemma throughput_exact:
  assumes "stats_exact n acc s" and "n + length qs < 2 ^ 64" and "acc + (\<Sum>(q, lat)\<leftarrow>qs. uint lat) < 2 ^ 64"
  shows "stats_exact (n + length qs) (acc + (\<Sum>(q, lat)\<leftarrow>qs. uint lat)) (fst (throughput_loop qs prompt max_tokens counter c s))"
  using assms
proof (induction qs prompt max_tokens counter c s arbitrary: n acc rule: throughput_loop.induct)
  case (2 q lat qs prompt max_tokens counter c s)
  have "0 \<le> (\<Sum>(q, lat)\<leftarrow>qs. uint lat)" by (induction qs) auto
  then have small: "n + 1 < 2 ^ 64" "acc + uint lat < 2 ^ 64" using "2.prems"(2,3) by simp_all
  obtain r out counter' c' where r: "client_send_request q prompt max_tokens counter c = (r, out, counter', c')"
    using prod_cases4 by blast
  from "2.IH" [OF r [symmetric] refl refl refl add_result_exact [OF "2.prems"(1) small]] "2.prems"(2,3) r
  show ?case by (simp add: Let_def ac_simps)
qed simp

lemma rat_facts:
  "0 < k \<Longrightarrow> a * k \<le> l \<Longrightarrow> (of_int a :: rat) \<le> of_int l / of_int k"
  "0 < k \<Longrightarrow> l \<le> a * k \<Longrightarrow> of_int l / of_int k \<le> (of_int a :: rat)"
  "0 < k \<Longrightarrow> k \<le> t \<Longrightarrow> 100 * of_int k / of_int t \<le> (100 :: rat)"
  by (simp_all add: pos_le_divide_eq pos_divide_le_eq flip: of_int_mult)

text \<open>The summary of a run whose counters do not wrap is consistent: the average lies between the smallest and the largest latency,
  and the success rate is at most 100 percent.\<close>

theorem summary_consistent:
  assumes "run_throughput_benchmark k qs prompt max_tokens = Some s"
    and "length qs < 2 ^ 64" and "(\<Sum>(q, lat)\<leftarrow>qs. uint lat) < 2 ^ 64" and "bench_summary s = Some (avg, mn, mx, rate)"
  shows "of_int (uint mn) \<le> avg \<and> avg \<le> of_int (uint mx) \<and> rate \<le> 100"
proof -
  obtain c where s: "s = fst (throughput_loop qs prompt max_tokens 0 c empty_stats)"
    using assms(1) by (auto simp: run_throughput_benchmark_def split: prod.splits bool.splits)
  have "stats_exact 0 0 empty_stats" by (simp add: stats_exact_def empty_stats_def)
  from throughput_exact [OF this] assms(2,3) have exact: "stats_exact (length qs) (\<Sum>(q, lat)\<leftarrow>qs. uint lat) s"
    by (simp add: s)
  have pos: "0 < uint (bs_successful s)" and out: "mn = bs_min_ms s" "mx = bs_max_ms s"
      "avg = of_int (uint (bs_latency_ms s)) / of_int (uint (bs_successful s))"
      "rate = 100 * of_int (uint (bs_successful s)) / of_int (uint (bs_total s))"
    using assms(4) by (auto simp: bench_summary_def word_less_def split: if_splits)
  have "uint (bs_successful s) \<le> uint (bs_total s)" using exact by (simp add: stats_exact_def)
  moreover have "uint mn * uint (bs_successful s) \<le> uint (bs_latency_ms s)" "uint (bs_latency_ms s) \<le> uint mx * uint (bs_successful s)"
    using exact out by (simp_all add: stats_exact_def)
  ultimately show ?thesis unfolding out(3,4) using pos by (intro conjI rat_facts)
qed

section \<open>Request ids\<close>

lemma digit_char: "d < 10 \<Longrightarrow> of_char (char_of (48 + d) :: char) = (48 + d :: nat)"
  by (simp add: of_char_of)

lemma show_nat_no_underscore: "CHR ''_'' \<notin> set (show_nat n)"
proof (induction n rule: show_nat.induct)
  case (1 n)
  have "CHR ''_'' \<noteq> char_of (48 + d)" if "d < 10" for d :: nat
  proof
    assume eq: "CHR ''_'' = char_of (48 + d)"
    have "(of_char CHR ''_'' :: nat) = 48 + d" unfolding eq digit_char [OF that] ..
    then show False using that by simp
  qed
  then show ?case using 1 by (subst show_nat.simps) auto
qed

lemma show_nat_inject: "show_nat m = show_nat n \<Longrightarrow> m = n"
proof (induction m arbitrary: n rule: show_nat.induct)
  case (1 m)
  have char: "d = e" if "char_of (48 + d) = (char_of (48 + e) :: char)" "d < 10" "e < 10" for d e :: nat
    using digit_char [OF that(2)] digit_char [OF that(3)] that(1) by simp
  have expand: "show_nat k = (if k < 10 then [char_of (48 + k)] else show_nat (k div 10) @ [char_of (48 + k mod 10)])" for k
    by (rule show_nat.simps)
  consider "m < 10" "n < 10" | "m \<ge> 10" "n \<ge> 10" | "(m < 10) \<noteq> (n < 10)" by linarith
  then show ?case
  proof cases
    case 1
    then show ?thesis using "1.prems" char expand [of m] expand [of n] by simp
  next
    case 2
    then have "show_nat (m div 10) = show_nat (n div 10)" "m mod 10 = n mod 10"
      using "1.prems" expand [of m] expand [of n] char [of "m mod 10" "n mod 10"] by simp_all
    moreover have "m div 10 = n div 10" using "1.IH" [of "n div 10"] 2 calculation(1) by simp
    ultimately show ?thesis by (metis div_mult_mod_eq)
  next
    case 3
    then show ?thesis using "1.prems" expand [of m] expand [of n]
      show_nat_nonempty [of "m div 10"] show_nat_nonempty [of "n div 10"] by (auto split: if_splits simp: append_eq_Cons_conv Cons_eq_append_conv)
  qed
qed

text \<open>Request ids repeat only with both the clock reading and the counter: two requests of one process have different ids until
  the counter has gone round.\<close>

theorem client_request_ids_distinct:
  assumes "fst (client_request_id now counter) = fst (client_request_id now' counter')"
  shows "now = now' \<and> counter = counter'"
proof -
  let ?n = "show_nat (unat now)" and ?n' = "show_nat (unat now')"
  have eq: "?n @ CHR ''_'' # show_nat (unat counter) = ?n' @ CHR ''_'' # show_nat (unat counter')"
    using assms by (simp add: client_request_id_def)
  have "takeWhile (\<lambda>c. c \<noteq> CHR ''_'') (s @ CHR ''_'' # t) = s" if "CHR ''_'' \<notin> set s" for s t :: string
    using that by (subst takeWhile_append2) auto
  from this [OF show_nat_no_underscore, of "unat now" "show_nat (unat counter)"]
    this [OF show_nat_no_underscore, of "unat now'" "show_nat (unat counter')"]
  have n: "?n = ?n'" unfolding eq by simp
  then have "show_nat (unat counter) = show_nat (unat counter')" using eq by simp
  then show ?thesis using n show_nat_inject by (metis unsigned_word_eqI)
qed

section \<open>Replies of the orchestrator\<close>

text \<open>The bytes of a reply as \<open>enqueue_response\<close> frames them: a four-byte length, then the message. Below 16 MiB the first
  byte is zero.\<close>

lemma no_high_bit: "n < 2 ^ k \<Longrightarrow> k \<le> i \<Longrightarrow> \<not> bit (word_of_nat n :: u32) i"
  by (metis bit_take_bit_iff not_le of_nat_take_bit take_bit_nat_eq_self_iff bit_of_nat_iff)

lemma frame_first_byte:
  assumes "length p < 2 ^ 24"
  shows "\<exists>rest. frame_bytes p = 0 # rest"
proof -
  have "(ucast (htonl (word_of_nat (length p))) :: u8) = 0"
    by (rule bit_word_eqI) (use no_high_bit [OF assms] in \<open>simp add: bit_simps bit_htonl\<close>)
  then show ?thesis by (simp add: frame_bytes_def mem_of_u32_def)
qed

lemma judge_request_byte: "judge_reply (0 # bs) = None"
proof -
  have "msg_type m = CLIENT_REQUEST" if "deserialize_message (0 # bs) = Some m" for m
    using that by (auto simp: deserialize_message_def read_message_def read_uint8_def bind_eq_Some_conv
        message_type_of_code_def enum_of_code_def message_type_table_def)
  then show ?thesis by (auto simp: judge_reply_def split: option.split)
qed

text \<open>What one \<open>recv\<close> gives when the peer frames its messages and the read begins with a frame: nothing, an error, or the
  start of a frame of less than 16 MiB with whatever follows it.\<close>

definition framed_reply :: "request_calls \<Rightarrow> bool" where
  "framed_reply q \<longleftrightarrow> (case rq_received q of None \<Rightarrow> True
     | Some data \<Rightarrow> \<exists>p rest n. length p < 2 ^ 24 \<and> data = take n (frame_bytes p @ rest))"

lemma framed_request_fails: "framed_reply q \<Longrightarrow> fst (client_send_request q prompt max_tokens counter c) = None"
proof (cases "rq_received q")
  case (Some data)
  assume "framed_reply q"
  then obtain p rest n where "length p < 2 ^ 24" "data = take n (frame_bytes p @ rest)" using Some by (auto simp: framed_reply_def)
  then have "data = [] \<or> (\<exists>bs. data = 0 # bs)" using frame_first_byte [of p] by (cases n) auto
  then show ?thesis using Some judge_request_byte
    by (auto simp: client_send_request_def Let_def split: option.split prod.split)
qed (simp add: client_send_request_def Let_def split: option.split prod.split)

lemma framed_throughput:
  assumes "\<forall>(q, lat) \<in> set qs. framed_reply q"
  shows "bs_successful (fst (throughput_loop qs prompt max_tokens counter c s)) = bs_successful s
    \<and> bs_failed (fst (throughput_loop qs prompt max_tokens counter c s)) = bs_failed s + word_of_nat (length qs)"
  using assms
proof (induction qs prompt max_tokens counter c s rule: throughput_loop.induct)
  case (2 q lat qs prompt max_tokens counter c s)
  obtain out counter' c' where r: "client_send_request q prompt max_tokens counter c = (None, out, counter', c')"
    using framed_request_fails [of q] 2(2) by (metis (no_types, lifting) case_prodD fst_conv list.set_intros(1) prod.exhaust)
  show ?case using 2 r by (simp add: add_result_def Let_def)
qed simp

text \<open>The benchmark client never gets an answer from the orchestrator: it reads replies without their four-byte length, so every
  reply that begins with a frame of less than 16 MiB is taken for a request or for garbage. A run against such replies counts
  each request as failed and none as successful, and a single request fails.\<close>

theorem benchmark_never_succeeds:
  assumes "\<forall>(q, lat) \<in> set qs. framed_reply q" and "framed_reply q"
  shows "(\<forall>s. run_throughput_benchmark k qs prompt max_tokens = Some s \<longrightarrow> bs_successful s = 0 \<and> bs_failed s = word_of_nat (length qs)
      \<and> bs_total s = word_of_nat (length qs))
    \<and> run_single_request k q prompt max_tokens = None"
proof -
  have "bs_successful s = 0 \<and> bs_failed s = word_of_nat (length qs) \<and> stats_ok s"
    if run: "run_throughput_benchmark k qs prompt max_tokens = Some s" for s
  proof -
    obtain c where s: "s = fst (throughput_loop qs prompt max_tokens 0 c empty_stats)"
      using run by (auto simp: run_throughput_benchmark_def split: prod.splits bool.splits)
    have "stats_ok empty_stats" by (simp add: stats_ok_def empty_stats_def)
    then show ?thesis unfolding s using framed_throughput [OF assms(1)] throughput_stats_ok by (simp add: empty_stats_def)
  qed
  moreover have "run_single_request k q prompt max_tokens = None"
    using framed_request_fails [OF assms(2)] by (auto simp: run_single_request_def split: prod.split bool.split)
  ultimately show ?thesis by (auto simp: stats_ok_def)
qed

text \<open>A request answered by the frame of a proper reply.\<close>

definition answered_request :: "string \<Rightarrow> request_calls" where
  "answered_request rid = \<lparr>rq_now_id = 7, rq_now = 8, rq_memory = sample_message,
     rq_sent = Some (length (serialize_message (client_message 8 sample_message rid ''hi'' 50))),
     rq_received = Some (frame (sample_message\<lparr>msg_type := CLIENT_RESPONSE\<rparr>))\<rparr>"

lemma sample_frame_short: "length (serialize_message (sample_message\<lparr>msg_type := CLIENT_RESPONSE\<rparr>)) < 2 ^ 24"
  by (simp add: serialize_message_def sample_message_def write_uint8_def write_uint64_def write_string_def
      write_request_info_def sample_request_def write_int_def write_node_info_def sample_node_def write_peer_info_def
      sample_peer_def write_uint16_def)

theorem benchmark_never_succeeds_witness:
  "run_single_request \<lparr>cc_socket = 5, cc_resolved = True, cc_connected = True\<rparr> (answered_request ''req_7_0'') ''hi'' 50 = None
   \<and> snd (snd (snd (client_send_request (answered_request ''req_7_0'') ''hi'' 50 0 \<lparr>bc_sock_fd = 5, bc_connected = True\<rparr>)))
       = \<lparr>bc_sock_fd = 5, bc_connected = True\<rparr>"
proof -
  let ?p = "serialize_message (sample_message\<lparr>msg_type := CLIENT_RESPONSE\<rparr>)"
  have "frame_bytes ?p = take (length (frame_bytes ?p)) (frame_bytes ?p @ [])" by simp
  then have framed: "framed_reply (answered_request rid)" for rid
    unfolding framed_reply_def answered_request_def frame_def using sample_frame_short by (simp only: option.case request_calls.simps) blast
  have "char_of (55 :: nat) = CHR ''7''" "char_of (48 :: nat) = CHR ''0''" by code_simp+
  then have "client_request_id 7 0 = (''req_7_0'', 1)" by (simp add: client_request_id_def show_nat.simps)
  then show ?thesis
    using benchmark_never_succeeds [of "[]" "answered_request ''req_7_0''" "\<lparr>cc_socket = 5, cc_resolved = True, cc_connected = True\<rparr>" "''hi''" 50]
      framed by (simp add: client_send_request_def answered_request_def frame_def frame_bytes_def mem_of_u32_def)
qed

section \<open>What the orchestrator makes of a request\<close>

text \<open>The request is sent without a length too: when the memory of the message was zero where the constructor leaves it
  alone, its first four bytes read as the length 0, and the orchestrator drops the connection.\<close>

theorem unframed_request_drops_client:
  assumes "cs_reading_header st" and "msg_status g = PENDING" and "unat (msg_transaction_id g) < 2 ^ 48"
    and "cs_input_buffer st = serialize_message (client_message now g rid prompt max_tokens) @ rest"
  shows "parse_messages fd st q = Removed q"
proof -
  have low: "take_bit 48 (unat (msg_transaction_id g)) = unat (msg_transaction_id g)" using assms(3) by (rule take_bit_nat_eq_self)
  have hi: "\<not> bit (msg_transaction_id g) i" if "48 \<le> i" for i
  proof
    assume "bit (msg_transaction_id g) i"
    then have "bit (take_bit 48 (unat (msg_transaction_id g))) i" unfolding low by (simp add: bit_unsigned_iff)
    then show False using that by (simp add: bit_take_bit_iff)
  qed
  let ?w = "ucast (drop_bit 32 (msg_transaction_id g)) :: u32"
  have "(ucast (htonl ?w) :: u8) = 0" "(ucast (drop_bit 8 (htonl ?w)) :: u8) = 0"
    by (rule bit_word_eqI; use hi in \<open>simp add: bit_simps bit_htonl\<close>)+
  then have "take 4 (cs_input_buffer st) = [0, 0, 0, 0]"
    unfolding assms(4) using assms(2)
    by (simp add: serialize_message_def client_message_def new_message_def Let_def write_uint8_def write_uint64_def mem_of_u32_def
        message_type_code_def status_code_def enum_code_def message_type_table_def request_status_table_def)
  moreover have "4 \<le> length (cs_input_buffer st)" unfolding assms(4)
    by (simp add: serialize_message_def write_uint8_def write_uint64_def)
  ultimately show ?thesis using assms(1) by (simp add: parse_rules parse_header_def Let_def u32_of_mem_def ntohl_def htonl_def)
qed

end
