(* ===== verification/WorkerPool.thy ===== *)
theory WorkerPool
  imports EventQueue "HOL-Library.Multiset"
begin

text \<open>
  The thread pools of \<open>src/cpp/nodes/worker_pool_base.cpp\<close>, \<open>worker_pool_node.cpp\<close> and
  \<open>worker_pool_orchestrator.cpp\<close> as a transition system: the epoll thread pushes events, the worker
  threads run \<open>worker_thread_function\<close>, the main thread runs \<open>start\<close> and \<open>stop\<close>. A step is what one
  thread does between two synchronisations: a load or store of \<open>running_\<close>, a critical section of the
  queue's mutex, a notification of the condition variable, a handler, or a join. The condition variable
  is explicit: a thread whose predicate fails sleeps until a notification or a spurious wakeup, and then
  tests the predicate again. A handler is foreign to the pool: \<open>h e\<close> says whether the one of the event \<open>e\<close> returns. One that does not
  keeps its thread for ever; one that throws ends the process, and with it the run. The two pools differ only in the worker they run, so one model serves both.
\<close>

section \<open>State\<close>

text \<open>
  Where a worker thread is in \<open>worker_thread_function\<close>: about to load \<open>running_\<close>; about to take the
  mutex in \<open>wait_and_pop\<close> and test the predicate; in \<open>cv_.wait\<close> with the mutex released; in
  \<open>process_event\<close>; returned and waiting to be joined.
\<close>

datatype location =
    Loop_head
  | Locking
  | Sleeping
  | Processing event
  | Exited

text \<open>Where the main thread is in \<open>stop\<close>.\<close>

datatype stop_phase = Idle | Flag_cleared | Queue_stopped | Joining

text \<open>
  The workers are their \<open>events_processed_\<close>. \<open>pl_notify\<close> counts the pushes that have left the critical
  section and not yet called \<open>notify_one\<close>. The last three fields are history: the events for which
  \<open>push\<close> returned true, those handed to a thread, and those whose handler has returned.
\<close>

record pool =
  pl_num_workers :: nat
  pl_workers :: "nat list"
  pl_running :: bool
  pl_queue :: event_queue
  pl_threads :: "location list"
  pl_phase :: stop_phase
  pl_notify :: nat
  pl_accepted :: "event list"
  pl_taken :: "event list"
  pl_handled :: "event list"

text \<open>The constructors create the workers before any thread exists.\<close>

definition new_pool :: "nat \<Rightarrow> event_queue \<Rightarrow> pool" where
  "new_pool n q = \<lparr>pl_num_workers = n, pl_workers = [], pl_running = False, pl_queue = q,
     pl_threads = [], pl_phase = Idle, pl_notify = 0, pl_accepted = eq_queue q, pl_taken = [], pl_handled = []\<rparr>"

definition new_pool_node :: "nat \<Rightarrow> event_queue \<Rightarrow> pool" where
  "new_pool_node n q = (new_pool n q)\<lparr>pl_workers := replicate n 0\<rparr>"

definition new_pool_orchestrator :: "nat \<Rightarrow> event_queue \<Rightarrow> pool" where
  "new_pool_orchestrator n q = (new_pool n q)\<lparr>pl_workers := replicate n 0\<rparr>"

section \<open>Steps\<close>

definition pool_start :: "pool \<Rightarrow> pool" where
  "pool_start p = (if pl_running p then p
     else p\<lparr>pl_running := True, pl_threads := replicate (pl_num_workers p) Loop_head\<rparr>)"

text \<open>\<open>stop\<close> returns at once on a pool that is not running; otherwise it clears the flag, stops the
  queue, notifies all, and joins the threads, which it then drops.\<close>

definition wake :: "location \<Rightarrow> location" where
  "wake l = (if l = Sleeping then Locking else l)"

definition pool_stop_step :: "pool \<Rightarrow> pool option" where
  "pool_stop_step p = (case pl_phase p of
     Idle \<Rightarrow> Some (if pl_running p then p\<lparr>pl_running := False, pl_phase := Flag_cleared\<rparr> else p)
   | Flag_cleared \<Rightarrow> Some (p\<lparr>pl_queue := eq_wake_all (pl_queue p), pl_phase := Queue_stopped\<rparr>)
   | Queue_stopped \<Rightarrow> Some (p\<lparr>pl_threads := List.map wake (pl_threads p), pl_phase := Joining\<rparr>)
   | Joining \<Rightarrow> if list_all (\<lambda>l. l = Exited) (pl_threads p)
       then Some (p\<lparr>pl_threads := [], pl_phase := Idle\<rparr>) else None)"

text \<open>What a thread does next; a sleeping or returned thread, and one in a handler that does not return, does nothing by itself.\<close>

definition at_thread :: "nat \<Rightarrow> location \<Rightarrow> pool \<Rightarrow> pool" where
  "at_thread i l p = p\<lparr>pl_threads := (pl_threads p)[i := l]\<rparr>"

definition pool_thread_step :: "(event \<Rightarrow> bool) \<Rightarrow> nat \<Rightarrow> pool \<Rightarrow> pool option" where
  "pool_thread_step h i p = (if length (pl_threads p) \<le> i then None else case pl_threads p ! i of
     Loop_head \<Rightarrow> Some (at_thread i (if pl_running p then Locking else Exited) p)
   | Locking \<Rightarrow> (case eq_wait_and_pop (pl_queue p) of
       Wait_blocked \<Rightarrow> Some (at_thread i Sleeping p)
     | Wait_stopped \<Rightarrow> Some (at_thread i Loop_head p)
     | Wait_got e q \<Rightarrow> Some (at_thread i (Processing e) (p\<lparr>pl_queue := q, pl_taken := pl_taken p @ [e]\<rparr>)))
   | Processing e \<Rightarrow> if h e then Some (at_thread i Loop_head (p\<lparr>pl_handled := pl_handled p @ [e],
       pl_workers := (pl_workers p)[i := Suc (pl_workers p ! i)]\<rparr>)) else None
   | Sleeping \<Rightarrow> None
   | Exited \<Rightarrow> None)"

text \<open>The epoll thread: a push that fits owes a notification, which it delivers after leaving the
  critical section; \<open>notify_one\<close> wakes one sleeper of the implementation's choice, if there is one.\<close>

definition pool_push :: "event \<Rightarrow> pool \<Rightarrow> pool" where
  "pool_push e p = (case eq_push (pl_queue p) e of (ok, q) \<Rightarrow>
     if ok then p\<lparr>pl_queue := q, pl_notify := Suc (pl_notify p), pl_accepted := pl_accepted p @ [e]\<rparr> else p)"

definition pool_notify_one :: "nat \<Rightarrow> pool \<Rightarrow> pool option" where
  "pool_notify_one i p =
     (if pl_notify p = 0 then None
      else if Sleeping \<in> set (pl_threads p)
      then if i < length (pl_threads p) \<and> pl_threads p ! i = Sleeping
           then Some (at_thread i Locking (p\<lparr>pl_notify := pl_notify p - 1\<rparr>)) else None
      else Some (p\<lparr>pl_notify := pl_notify p - 1\<rparr>))"

definition pool_spurious :: "nat \<Rightarrow> pool \<Rightarrow> pool option" where
  "pool_spurious i p = (if i < length (pl_threads p) \<and> pl_threads p ! i = Sleeping
     then Some (at_thread i Locking p) else None)"

datatype pool_action = Start | Stop | Thread nat | Push event | Notify nat | Spurious nat

text \<open>The main thread does not start the pool while it is stopping it.\<close>

fun pool_act :: "(event \<Rightarrow> bool) \<Rightarrow> pool_action \<Rightarrow> pool \<Rightarrow> pool option" where
  "pool_act h Start p = (if pl_phase p = Idle then Some (pool_start p) else None)"
| "pool_act h Stop p = pool_stop_step p"
| "pool_act h (Thread i) p = pool_thread_step h i p"
| "pool_act h (Push e) p = Some (pool_push e p)"
| "pool_act h (Notify i) p = pool_notify_one i p"
| "pool_act h (Spurious i) p = pool_spurious i p"

fun pool_run :: "(event \<Rightarrow> bool) \<Rightarrow> pool_action list \<Rightarrow> pool \<Rightarrow> pool option" where
  "pool_run h [] p = Some p"
| "pool_run h (a # as) p = (case pool_act h a p of None \<Rightarrow> None | Some p' \<Rightarrow> pool_run h as p')"

inductive pool_reach :: "(event \<Rightarrow> bool) \<Rightarrow> nat \<Rightarrow> event_queue \<Rightarrow> pool \<Rightarrow> bool" for h n q where
  pool_reach_init: "pool_reach h n q (new_pool_node n q)"
| pool_reach_act: "pool_reach h n q p \<Longrightarrow> pool_act h a p = Some p' \<Longrightarrow> pool_reach h n q p'"

lemma pool_run_append [simp]:
  "pool_run h (as @ bs) p = (case pool_run h as p of None \<Rightarrow> None | Some p' \<Rightarrow> pool_run h bs p')"
  by (induction as arbitrary: p) (auto split: option.splits)

lemma pool_reach_run: "pool_reach h n q p \<Longrightarrow> pool_run h as p = Some p' \<Longrightarrow> pool_reach h n q p'"
  by (induction as arbitrary: p) (auto split: option.splits intro: pool_reach_act)

lemma new_pool_orchestrator_eq: "new_pool_orchestrator = new_pool_node"
  by (simp add: fun_eq_iff new_pool_orchestrator_def new_pool_node_def)

lemmas pool_step_defs = pool_start_def pool_stop_step_def pool_thread_step_def pool_push_def
  pool_notify_one_def pool_spurious_def at_thread_def eq_push_def eq_wait_and_pop_def eq_wake_all_def

section \<open>The invariant of the pool\<close>

fun in_hand :: "location list \<Rightarrow> event list" where
  "in_hand [] = []"
| "in_hand (Processing e # ls) = e # in_hand ls"
| "in_hand (_ # ls) = in_hand ls"

abbreviation events_of :: "location \<Rightarrow> event multiset" where
  "events_of l \<equiv> mset (in_hand [l])"

text \<open>Every accepted event is waiting in the queue or was handed out, in order; what was handed out is in
  exactly one thread's hands or was handled once.\<close>

definition events_kept :: "pool \<Rightarrow> bool" where
  "events_kept p \<longleftrightarrow> pl_accepted p = pl_taken p @ eq_queue (pl_queue p)
     \<and> mset (pl_taken p) = mset (pl_handled p) + mset (in_hand (pl_threads p))"

definition threads_ok :: "pool \<Rightarrow> bool" where
  "threads_ok p \<longleftrightarrow>
     (pl_running p \<or> pl_phase p \<noteq> Idle \<longrightarrow> length (pl_threads p) = pl_num_workers p)
   \<and> (pl_phase p \<noteq> Idle \<longrightarrow> \<not> pl_running p)
   \<and> (\<not> pl_running p \<and> pl_phase p = Idle \<longrightarrow> pl_threads p = [])
   \<and> (pl_running p \<longrightarrow> Exited \<notin> set (pl_threads p))
   \<and> (pl_phase p \<in> {Queue_stopped, Joining} \<longrightarrow> eq_stopped (pl_queue p))
   \<and> (eq_stopped (pl_queue p) \<and> pl_phase p \<noteq> Queue_stopped \<longrightarrow> Sleeping \<notin> set (pl_threads p))"

text \<open>No wakeup is lost: as long as a thread of the running pool sleeps, there are for every event in the queue a notification under way
  or a thread on its way to look at the queue. A thread in a handler, which may not return, does not count.\<close>

definition looking :: "location \<Rightarrow> nat" where
  "looking l = (if l = Locking \<or> l = Loop_head then 1 else 0)"

definition no_lost_wakeup :: "pool \<Rightarrow> bool" where
  "no_lost_wakeup p \<longleftrightarrow> (pl_running p \<and> Sleeping \<in> set (pl_threads p) \<longrightarrow>
     length (eq_queue (pl_queue p)) \<le> pl_notify p + sum_list (List.map looking (pl_threads p)))"

lemma in_hand_append [simp]: "in_hand (ls @ ms) = in_hand ls @ in_hand ms"
  by (induction ls rule: in_hand.induct) simp_all

lemma in_hand_Cons: "in_hand (l # ls) = in_hand [l] @ in_hand ls"
  by (cases l) simp_all

lemma in_hand_replicate [simp]: "in_hand (replicate n Loop_head) = []"
  by (induction n) simp_all

lemma in_hand_wake [simp]: "in_hand (List.map wake ls) = in_hand ls"
  by (induction ls rule: in_hand.induct) (simp_all add: wake_def)

lemma in_hand_exited [simp]: "list_all (\<lambda>l. l = Exited) ls \<Longrightarrow> in_hand ls = []"
  by (induction ls) simp_all

lemma in_hand_mem: "Processing e \<in> set ls \<longleftrightarrow> e \<in> set (in_hand ls)"
  by (induction ls rule: in_hand.induct) auto

text \<open>Moving one thread changes what is in hand by what it gains and what it gives up.\<close>

lemma in_hand_update:
  assumes "i < length ls"
  shows "mset (in_hand (ls[i := l])) + events_of (ls ! i) = mset (in_hand ls) + events_of l"
  using assms
proof (induction ls arbitrary: i)
  case (Cons k ls)
  show ?case
  proof (cases i)
    case 0
    then show ?thesis
      unfolding in_hand_Cons [of k ls] by (simp add: in_hand_Cons [of l ls])
  next
    case (Suc j)
    with Cons.IH [of j] Cons.prems show ?thesis
      by (simp add: in_hand_Cons [of k ls] in_hand_Cons [of k "ls[j := l]"] add.assoc)
  qed
qed simp

text \<open>The moves of a thread, one by one.\<close>

lemma pool_thread_cases:
  assumes "pool_thread_step h i p = Some p'"
  obtains (enter) "i < length (pl_threads p)" "pl_threads p ! i = Loop_head" "pl_running p"
      "p' = at_thread i Locking p"
  | (exit) "i < length (pl_threads p)" "pl_threads p ! i = Loop_head" "\<not> pl_running p"
      "p' = at_thread i Exited p"
  | (sleep) "i < length (pl_threads p)" "pl_threads p ! i = Locking" "eq_queue (pl_queue p) = []"
      "\<not> eq_stopped (pl_queue p)" "p' = at_thread i Sleeping p"
  | (stopped) "i < length (pl_threads p)" "pl_threads p ! i = Locking" "eq_queue (pl_queue p) = []"
      "eq_stopped (pl_queue p)" "p' = at_thread i Loop_head p"
  | (got) e es where "i < length (pl_threads p)" "pl_threads p ! i = Locking" "eq_queue (pl_queue p) = e # es"
      "p' = at_thread i (Processing e) (p\<lparr>pl_queue := (pl_queue p)\<lparr>eq_queue := es\<rparr>, pl_taken := pl_taken p @ [e]\<rparr>)"
  | (handled) e where "i < length (pl_threads p)" "pl_threads p ! i = Processing e" "h e"
      "p' = at_thread i Loop_head (p\<lparr>pl_handled := pl_handled p @ [e],
        pl_workers := (pl_workers p)[i := Suc (pl_workers p ! i)]\<rparr>)"
proof (cases "i < length (pl_threads p)")
  case True
  note that = that [OF True]
  show ?thesis
  proof (cases "pl_threads p ! i")
    case Loop_head
    with assms True that(1,2) show ?thesis by (cases "pl_running p") (simp_all add: pool_thread_step_def)
  next
    case Locking
    with assms True that(3,4,5) show ?thesis
      by (cases "eq_queue (pl_queue p)"; cases "eq_stopped (pl_queue p)")
        (simp_all add: pool_thread_step_def eq_wait_and_pop_def)
  next
    case (Processing e)
    with assms True that(6) show ?thesis by (simp add: pool_thread_step_def split: if_splits)
  qed (use assms True in \<open>simp_all add: pool_thread_step_def\<close>)
qed (use assms in \<open>simp add: pool_thread_step_def\<close>)

lemma at_thread_simps [simp]:
  "pl_threads (at_thread i l p) = (pl_threads p)[i := l]" "pl_queue (at_thread i l p) = pl_queue p"
  "pl_accepted (at_thread i l p) = pl_accepted p" "pl_taken (at_thread i l p) = pl_taken p"
  "pl_handled (at_thread i l p) = pl_handled p" "pl_running (at_thread i l p) = pl_running p"
  "pl_phase (at_thread i l p) = pl_phase p" "pl_notify (at_thread i l p) = pl_notify p"
  "pl_num_workers (at_thread i l p) = pl_num_workers p" "pl_workers (at_thread i l p) = pl_workers p"
  by (simp_all add: at_thread_def)

text \<open>The wakeups, by a notification and without one.\<close>

lemma pool_notify_cases:
  assumes "pool_notify_one i p = Some p'"
  obtains (wakes) "0 < pl_notify p" "i < length (pl_threads p)" "pl_threads p ! i = Sleeping"
      "p' = at_thread i Locking (p\<lparr>pl_notify := pl_notify p - 1\<rparr>)"
  | (nobody) "0 < pl_notify p" "Sleeping \<notin> set (pl_threads p)" "p' = p\<lparr>pl_notify := pl_notify p - 1\<rparr>"
  using assms by (auto simp: pool_notify_one_def split: if_splits)

lemma pool_spurious_cases:
  assumes "pool_spurious i p = Some p'"
  obtains "i < length (pl_threads p)" "pl_threads p ! i = Sleeping" "p' = at_thread i Locking p"
  using assms by (auto simp: pool_spurious_def split: if_splits)

lemma pool_stop_cases:
  assumes "pool_stop_step p = Some p'"
  obtains (stop_already) "pl_phase p = Idle" "\<not> pl_running p" "p' = p"
  | (stop_flag) "pl_phase p = Idle" "pl_running p" "p' = p\<lparr>pl_running := False, pl_phase := Flag_cleared\<rparr>"
  | (stop_queue) "pl_phase p = Flag_cleared" "p' = p\<lparr>pl_queue := eq_wake_all (pl_queue p), pl_phase := Queue_stopped\<rparr>"
  | (stop_notify) "pl_phase p = Queue_stopped" "p' = p\<lparr>pl_threads := List.map wake (pl_threads p), pl_phase := Joining\<rparr>"
  | (stop_join) "pl_phase p = Joining" "list_all (\<lambda>l. l = Exited) (pl_threads p)"
      "p' = p\<lparr>pl_threads := [], pl_phase := Idle\<rparr>"
proof (cases "pl_phase p")
  case Idle
  show ?thesis
  proof (cases "pl_running p")
    case True
    with Idle assms show ?thesis by (intro that(2)) (simp_all add: pool_stop_step_def)
  next
    case False
    with Idle assms show ?thesis by (intro that(1)) (simp_all add: pool_stop_step_def)
  qed
next
  case Flag_cleared
  with assms show ?thesis by (intro that(3)) (simp_all add: pool_stop_step_def)
next
  case Queue_stopped
  with assms show ?thesis by (intro that(4)) (simp_all add: pool_stop_step_def)
next
  case Joining
  with assms show ?thesis
    by (intro that(5)) (simp_all add: pool_stop_step_def split: if_splits)
qed

lemma pool_push_cases:
  obtains (fits) "length (eq_queue (pl_queue p)) < eq_capacity (pl_queue p)"
      "pool_push e p = p\<lparr>pl_queue := (pl_queue p)\<lparr>eq_queue := eq_queue (pl_queue p) @ [e]\<rparr>,
         pl_notify := Suc (pl_notify p), pl_accepted := pl_accepted p @ [e]\<rparr>"
  | (full) "pool_push e p = p"
  by (cases "eq_capacity (pl_queue p) \<le> length (eq_queue (pl_queue p))")
    (simp_all add: pool_push_def eq_push_def)

lemma events_kept_move:
  assumes "events_kept p" and "i < length (pl_threads p)" and "in_hand [pl_threads p ! i] = []" and "in_hand [l] = []"
  shows "events_kept (at_thread i l p)"
  using in_hand_update [OF assms(2), of l] assms by (simp add: events_kept_def)

lemma events_kept_thread:
  assumes p: "events_kept p" and "pool_thread_step h i p = Some p'"
  shows "events_kept p'"
  using assms(2)
proof (cases rule: pool_thread_cases)
  case (got e es)
  with in_hand_update [OF got(1), of "Processing e"] p show ?thesis by (simp add: events_kept_def)
next
  case (handled e)
  with in_hand_update [OF handled(1), of Loop_head] p show ?thesis by (simp add: events_kept_def)
qed (use p in \<open>simp_all add: events_kept_move\<close>)

lemma events_kept_stop:
  assumes p: "events_kept p" and "pool_stop_step p = Some p'"
  shows "events_kept p'"
  using assms(2) by (cases rule: pool_stop_cases) (use p in \<open>simp_all add: events_kept_def eq_wake_all_def\<close>)

lemma events_kept_act:
  assumes p: "events_kept p" and ok: "threads_ok p" and act: "pool_act h a p = Some p'"
  shows "events_kept p'"
proof (cases a)
  case Start
  with p ok act show ?thesis
    by (cases "pl_running p") (auto simp: events_kept_def threads_ok_def pool_start_def split: if_splits)
next
  case Stop
  with p act show ?thesis by (simp add: events_kept_stop)
next
  case (Thread i)
  with p act show ?thesis by (simp add: events_kept_thread)
next
  case (Push e)
  with act have "p' = pool_push e p" by simp
  then show ?thesis by (cases rule: pool_push_cases [of p e]) (use p in \<open>simp_all add: events_kept_def\<close>)
next
  case (Notify i)
  with act have "pool_notify_one i p = Some p'" by simp
  then show ?thesis
    by (cases rule: pool_notify_cases)
      (use p events_kept_move [of "p\<lparr>pl_notify := pl_notify p - 1\<rparr>" i Locking] in \<open>simp_all add: events_kept_def\<close>)
next
  case (Spurious i)
  with act have "pool_spurious i p = Some p'" by simp
  then show ?thesis by (cases rule: pool_spurious_cases) (use p in \<open>simp add: events_kept_move\<close>)
qed

text \<open>A thread that moves, without falling asleep or returning.\<close>

lemma threads_ok_move:
  assumes "threads_ok p" and "l \<noteq> Sleeping" and "l = Exited \<longrightarrow> \<not> pl_running p"
  shows "threads_ok (at_thread i l p)"
  using assms set_update_subset_insert [of "pl_threads p" i l] by (auto simp: threads_ok_def)

lemma threads_ok_thread:
  assumes p: "threads_ok p" and "pool_thread_step h i p = Some p'"
  shows "threads_ok p'"
  using assms(2)
proof (cases rule: pool_thread_cases)
  case sleep
  with p set_update_subset_insert [of "pl_threads p" i Sleeping] show ?thesis by (auto simp: threads_ok_def)
next
  case (got e es)
  have "threads_ok (p\<lparr>pl_queue := (pl_queue p)\<lparr>eq_queue := es\<rparr>, pl_taken := pl_taken p @ [e]\<rparr>)"
    using p by (simp add: threads_ok_def)
  with got show ?thesis by (simp add: threads_ok_move)
next
  case (handled e)
  have "threads_ok (p\<lparr>pl_handled := pl_handled p @ [e],
        pl_workers := (pl_workers p)[i := Suc (pl_workers p ! i)]\<rparr>)"
    using p by (simp add: threads_ok_def)
  with handled show ?thesis by (simp add: threads_ok_move)
qed (use p in \<open>simp_all add: threads_ok_move\<close>)

lemma threads_ok_stop:
  assumes p: "threads_ok p" and "pool_stop_step p = Some p'"
  shows "threads_ok p'"
  using assms(2)
proof (cases rule: pool_stop_cases)
  case stop_notify
  with p show ?thesis by (auto simp: threads_ok_def wake_def)
qed (use p in \<open>auto simp: threads_ok_def eq_wake_all_def\<close>)

lemma threads_ok_act:
  assumes p: "threads_ok p" and act: "pool_act h a p = Some p'"
  shows "threads_ok p'"
proof (cases a)
  case Start
  with p act show ?thesis by (auto simp: threads_ok_def pool_start_def split: if_splits)
next
  case Stop
  with p act show ?thesis by (simp add: threads_ok_stop)
next
  case (Thread i)
  with p act show ?thesis by (simp add: threads_ok_thread)
next
  case (Push e)
  with act have "p' = pool_push e p" by simp
  then show ?thesis by (cases rule: pool_push_cases [of p e]) (use p in \<open>simp_all add: threads_ok_def\<close>)
next
  case (Notify i)
  have less: "threads_ok (p\<lparr>pl_notify := pl_notify p - 1\<rparr>)" using p by (simp add: threads_ok_def)
  from Notify act have "pool_notify_one i p = Some p'" by simp
  then show ?thesis by (cases rule: pool_notify_cases) (use less in \<open>simp_all add: threads_ok_move\<close>)
next
  case (Spurious i)
  with act have "pool_spurious i p = Some p'" by simp
  then show ?thesis by (cases rule: pool_spurious_cases) (use p in \<open>simp add: threads_ok_move\<close>)
qed

lemma work_at_thread:
  "i < length ls \<Longrightarrow> sum_list (List.map f (ls[i := l])) + f (ls ! i) = sum_list (List.map f ls) + (f l :: nat)"
proof (induction ls arbitrary: i)
  case (Cons k ls)
  show ?case
  proof (cases i)
    case (Suc j)
    with Cons.IH [of j] Cons.prems show ?thesis by simp
  qed simp
qed simp

lemma asleep_update: "l \<noteq> Sleeping \<Longrightarrow> Sleeping \<in> set (ls[i := l]) \<Longrightarrow> Sleeping \<in> set ls"
  using set_update_subset_insert [of ls i l] by auto

lemma no_lost_wakeup_thread:
  assumes p: "no_lost_wakeup p" and "pool_thread_step h i p = Some p'"
  shows "no_lost_wakeup p'"
  using assms(2)
proof (cases rule: pool_thread_cases)
  case enter
  with p work_at_thread [of i "pl_threads p" looking Locking] asleep_update [of Locking "pl_threads p" i]
  show ?thesis by (simp add: no_lost_wakeup_def looking_def)
next
  case (got e es)
  with p work_at_thread [of i "pl_threads p" looking "Processing e"] asleep_update [of "Processing e" "pl_threads p" i]
  show ?thesis by (auto simp: no_lost_wakeup_def looking_def)
next
  case (handled e)
  with p work_at_thread [of i "pl_threads p" looking Loop_head] asleep_update [of Loop_head "pl_threads p" i]
  show ?thesis by (auto simp: no_lost_wakeup_def looking_def)
qed (simp_all add: no_lost_wakeup_def)

lemma no_lost_wakeup_act:
  assumes p: "no_lost_wakeup p" and ok: "threads_ok p" and act: "pool_act h a p = Some p'"
  shows "no_lost_wakeup p'"
proof (cases a)
  case Start
  with p act show ?thesis by (auto simp: no_lost_wakeup_def pool_start_def split: if_splits)
next
  case Stop
  with act have "pool_stop_step p = Some p'" by simp
  then show ?thesis by (cases rule: pool_stop_cases) (use p ok in \<open>auto simp: no_lost_wakeup_def threads_ok_def\<close>)
next
  case (Thread i)
  with p act show ?thesis by (simp add: no_lost_wakeup_thread)
next
  case (Push e)
  with act have "p' = pool_push e p" by simp
  then show ?thesis by (cases rule: pool_push_cases [of p e]) (use p in \<open>auto simp: no_lost_wakeup_def\<close>)
next
  case (Notify i)
  with act have "pool_notify_one i p = Some p'" by simp
  then show ?thesis
  proof (cases rule: pool_notify_cases)
    case wakes
    with p work_at_thread [of i "pl_threads p" looking Locking] asleep_update [of Locking "pl_threads p" i]
    show ?thesis by (auto simp: no_lost_wakeup_def looking_def)
  qed (simp add: no_lost_wakeup_def)
next
  case (Spurious i)
  with act have "pool_spurious i p = Some p'" by simp
  then show ?thesis
  proof (cases rule: pool_spurious_cases)
    case 1
    with p work_at_thread [of i "pl_threads p" looking Locking] asleep_update [of Locking "pl_threads p" i]
    show ?thesis by (auto simp: no_lost_wakeup_def looking_def)
  qed
qed

lemma pool_reach_inv: "pool_reach h n q p \<Longrightarrow> events_kept p \<and> threads_ok p \<and> no_lost_wakeup p"
proof (induction rule: pool_reach.induct)
  case pool_reach_init
  show ?case
    by (simp add: events_kept_def threads_ok_def no_lost_wakeup_def new_pool_node_def new_pool_def)
next
  case (pool_reach_act p a p')
  then show ?case using events_kept_act [of p] threads_ok_act [of p] no_lost_wakeup_act [of p] by blast
qed

lemmas pool_reach_facts = pool_reach_inv [THEN conjunct1] pool_reach_inv [THEN conjunct2, THEN conjunct1]
  pool_reach_inv [THEN conjunct2, THEN conjunct2]

lemma pool_num_workers_act: "pool_act h a p = Some p' \<Longrightarrow> pl_num_workers p' = pl_num_workers p"
  by (cases a)
    (auto simp: pool_start_def pool_push_def eq_push_def elim!: pool_stop_cases pool_thread_cases
      pool_notify_cases pool_spurious_cases split: if_splits prod.splits)

lemma pool_reach_num_workers: "pool_reach h n q p \<Longrightarrow> pl_num_workers p = n"
  by (induction rule: pool_reach.induct)
    (simp_all add: pool_num_workers_act, simp add: new_pool_node_def new_pool_def)

section \<open>Every event is handled, whatever the schedule\<close>

text \<open>The pool's own steps are those of its threads and of the notifications under way.\<close>

fun own_action :: "pool_action \<Rightarrow> bool" where
  "own_action (Thread i) = True"
| "own_action (Notify i) = True"
| "own_action _ = False"

fun work_left :: "location \<Rightarrow> nat" where
  "work_left Sleeping = 0"
| "work_left Exited = 0"
| "work_left Locking = 1"
| "work_left Loop_head = 2"
| "work_left (Processing e) = 3"

definition pool_work :: "pool \<Rightarrow> nat" where
  "pool_work p = 4 * length (eq_queue (pl_queue p)) + 2 * pl_notify p + sum_list (List.map work_left (pl_threads p))"

lemma pool_work_act:
  assumes act: "pool_act h a p = Some p'" and "own_action a" and idle: "\<not> eq_stopped (pl_queue p)"
  shows "pool_work p' < pool_work p \<and> \<not> eq_stopped (pl_queue p')"
proof (cases a)
  case (Thread i)
  with act have "pool_thread_step h i p = Some p'" by simp
  then show ?thesis
    by (cases rule: pool_thread_cases;
        use idle work_at_thread [of i "pl_threads p" work_left "pl_threads p' ! i"] in \<open>simp add: pool_work_def\<close>)
next
  case (Notify i)
  with act have "pool_notify_one i p = Some p'" by simp
  then show ?thesis
    by (cases rule: pool_notify_cases;
        use idle work_at_thread [of i "pl_threads p" work_left Locking] in \<open>simp add: pool_work_def\<close>)
qed (use assms in simp_all)

lemma pool_own_run:
  assumes "pool_run h as p = Some p'" and "list_all own_action as" and "\<not> eq_stopped (pl_queue p)"
  shows "length as + pool_work p' \<le> pool_work p \<and> \<not> eq_stopped (pl_queue p')
    \<and> pl_running p' = pl_running p \<and> pl_accepted p' = pl_accepted p"
  using assms
proof (induction as arbitrary: p)
  case (Cons a as)
  then obtain p1 where p1: "pool_act h a p = Some p1" "pool_run h as p1 = Some p'"
    by (auto split: option.splits)
  have own: "own_action a" "list_all own_action as" using Cons.prems by simp_all
  from pool_work_act [OF p1(1) own(1) Cons.prems(3)]
  have less: "pool_work p1 < pool_work p" "\<not> eq_stopped (pl_queue p1)" by simp_all
  have "pl_running p1 = pl_running p \<and> pl_accepted p1 = pl_accepted p"
    using p1(1) own(1) by (cases a) (auto elim!: pool_thread_cases pool_notify_cases)
  with Cons.IH [OF p1(2) own(2) less(2)] less(1) show ?case by simp
qed simp

text \<open>Where none of these steps is possible, every thread sleeps or is in a handler that does not return, and the queue is empty
  unless all are in such handlers.\<close>

definition stuck_in :: "(event \<Rightarrow> bool) \<Rightarrow> location \<Rightarrow> bool" where
  "stuck_in h l \<longleftrightarrow> (case l of Processing e \<Rightarrow> \<not> h e | _ \<Rightarrow> False)"

lemma pool_quiet:
  assumes reach: "pool_reach h n q p" and run: "pl_running p" "\<not> eq_stopped (pl_queue p)"
    and stuck: "\<And>a. own_action a \<Longrightarrow> pool_act h a p = None"
  shows "list_all (\<lambda>l. l = Sleeping \<or> stuck_in h l) (pl_threads p)
    \<and> (eq_queue (pl_queue p) = [] \<or> list_all (stuck_in h) (pl_threads p))"
proof -
  note inv = pool_reach_facts [OF reach]
  have awake: "Exited \<notin> set (pl_threads p)" using inv(2) run by (simp add: threads_ok_def)
  have at: "pl_threads p ! i = Sleeping \<or> stuck_in h (pl_threads p ! i)" if "i < length (pl_threads p)" for i
  proof -
    have "pool_thread_step h i p = None" using stuck [of "Thread i"] by simp
    moreover have "pl_threads p ! i \<noteq> Exited" using awake nth_mem [OF that] by metis
    ultimately show ?thesis
      using that by (auto simp: pool_thread_step_def stuck_in_def eq_wait_and_pop_def split: location.splits if_splits)
  qed
  then have all: "list_all (\<lambda>l. l = Sleeping \<or> stuck_in h l) (pl_threads p)" by (simp add: list_all_length)
  show ?thesis
  proof (cases "Sleeping \<in> set (pl_threads p)")
    case True
    then obtain i where i: "i < length (pl_threads p)" "pl_threads p ! i = Sleeping" by (auto simp: in_set_conv_nth)
    then have "pl_notify p = 0" using stuck [of "Notify i"] True by (simp add: pool_notify_one_def split: if_splits)
    moreover have "\<forall>l\<in>set (pl_threads p). looking l = 0"
      using all by (auto simp: list_all_iff looking_def stuck_in_def)
    ultimately show ?thesis using all inv(3) run(1) True by (simp add: no_lost_wakeup_def cong: map_cong)
  next
    case False
    then have "list_all (stuck_in h) (pl_threads p)" using all by (auto simp: list_all_iff)
    with all show ?thesis by simp
  qed
qed

lemma in_hand_stuck: "list_all (\<lambda>l. l = Sleeping \<or> stuck_in h l) ls \<Longrightarrow> e \<in> set (in_hand ls) \<Longrightarrow> \<not> h e"
  by (induction ls rule: in_hand.induct) (auto simp: stuck_in_def)

lemma in_hand_asleep: "list_all (\<lambda>l. l = Sleeping) ls \<Longrightarrow> in_hand ls = []"
  by (induction ls) simp_all

text \<open>C12 The pool handles every accepted event exactly once under every schedule, as far as handlers return: from any reachable state
  of a running pool every sequence of steps of its threads and notifications is bounded, and when no step is left every thread sleeps or
  is in a handler that does not return, and every accepted event has been handled once, is in such a handler, or waits because all threads are in such
  handlers. In particular, if the handlers of the accepted events return and there is a worker, every accepted event has been handled once, none is
  in the queue and all threads sleep.\<close>

theorem pool_handles_everything:
  assumes "pool_reach h n q p" and "pl_running p" and "\<not> eq_stopped (pl_queue p)"
    and "pool_run h as p = Some p'" and "list_all own_action as"
  shows "length as \<le> pool_work p
    \<and> ((\<forall>a. own_action a \<longrightarrow> pool_act h a p' = None) \<longrightarrow>
        list_all (\<lambda>l. l = Sleeping \<or> stuck_in h l) (pl_threads p')
      \<and> mset (pl_accepted p) = mset (pl_handled p') + mset (in_hand (pl_threads p')) + mset (eq_queue (pl_queue p'))
      \<and> (eq_queue (pl_queue p') = [] \<or> list_all (stuck_in h) (pl_threads p'))
      \<and> ((\<forall>e \<in> set (pl_accepted p). h e) \<and> 0 < n \<longrightarrow>
          mset (pl_handled p') = mset (pl_accepted p) \<and> eq_queue (pl_queue p') = []
          \<and> list_all (\<lambda>l. l = Sleeping) (pl_threads p')))"
proof (intro conjI impI)
  from pool_own_run [OF assms(4,5,3)]
  have run: "length as \<le> pool_work p" "\<not> eq_stopped (pl_queue p')" "pl_running p'" "pl_accepted p' = pl_accepted p"
    using assms(2) by simp_all
  show "length as \<le> pool_work p" by (fact run(1))
  have reach: "pool_reach h n q p'" by (rule pool_reach_run [OF assms(1,4)])
  note inv = pool_reach_facts [OF reach]
  assume stuck: "\<forall>a. own_action a \<longrightarrow> pool_act h a p' = None"
  from pool_quiet [OF reach run(3,2)] stuck
  show quiet: "list_all (\<lambda>l. l = Sleeping \<or> stuck_in h l) (pl_threads p')"
    and queue: "eq_queue (pl_queue p') = [] \<or> list_all (stuck_in h) (pl_threads p')" by simp_all
  show kept: "mset (pl_accepted p) = mset (pl_handled p') + mset (in_hand (pl_threads p')) + mset (eq_queue (pl_queue p'))"
    using inv(1) run(4) by (simp add: events_kept_def)
  assume ret: "(\<forall>e \<in> set (pl_accepted p). h e) \<and> 0 < n"
  have "set (in_hand (pl_threads p')) \<subseteq> set (pl_accepted p)"
    using arg_cong [OF kept, of set_mset] by auto
  then have "in_hand (pl_threads p') = []"
    using in_hand_stuck [OF quiet] ret by (metis last_in_set subsetD)
  then have "\<not> stuck_in h l" if "l \<in> set (pl_threads p')" for l
    using that in_hand_mem [of _ "pl_threads p'"] by (cases l) (auto simp: stuck_in_def)
  with quiet show asleep: "list_all (\<lambda>l. l = Sleeping) (pl_threads p')" by (simp add: list_all_iff)
  have "pl_threads p' \<noteq> []"
    using inv(2) run(3) ret pool_reach_num_workers [OF reach] by (auto simp: threads_ok_def)
  then have "\<not> list_all (stuck_in h) (pl_threads p')"
    using asleep by (cases "pl_threads p'") (auto simp: stuck_in_def)
  with queue show "eq_queue (pl_queue p') = []" by simp
  with kept show "mset (pl_handled p') = mset (pl_accepted p)" by (simp add: in_hand_asleep [OF asleep])
qed

text \<open>Handlers that all return.\<close>

abbreviation all_return :: "event \<Rightarrow> bool" where
  "all_return \<equiv> \<lambda>_. True"

text \<open>Three workers, two events: one schedule without a step left.\<close>

definition sample_queue :: "event list \<Rightarrow> event_queue" where
  "sample_queue es = eq_push_all (new_event_queue 8) es"

definition two_events :: "event list" where
  "two_events = [(4, sample_message), (5, sample_message)]"

definition sample_schedule :: "pool_action list" where
  "sample_schedule = [Thread 0, Thread 0, Thread 1, Thread 1, Thread 2, Thread 1, Thread 1, Thread 0, Thread 0,
     Thread 0, Thread 1, Thread 2]"

definition running_pool :: "nat \<Rightarrow> event list \<Rightarrow> pool" where
  "running_pool n es = pool_start (new_pool_node n (sample_queue es))"

lemma running_pool_reach: "pool_reach h n (sample_queue es) (running_pool n es)"
  unfolding running_pool_def
  by (rule pool_reach_act [OF pool_reach_init, where a = Start])
    (simp add: new_pool_node_def new_pool_def)

theorem pool_handles_everything_witness:
  "length sample_schedule \<le> pool_work (running_pool 3 two_events)
   \<and> (\<exists>p. pool_run all_return sample_schedule (running_pool 3 two_events) = Some p \<and> mset (pl_handled p) = mset two_events)"
proof -
  obtain p where p: "pool_run all_return sample_schedule (running_pool 3 two_events) = Some p"
      "pl_threads p = [Sleeping, Sleeping, Sleeping]" "pl_notify p = 0"
    by (simp add: running_pool_def pool_start_def new_pool_node_def new_pool_def sample_schedule_def sample_queue_def two_events_def
        new_event_queue_def eq_push_def numeral_3_eq_3 pool_thread_step_def at_thread_def eq_wait_and_pop_def)
  have stuck: "pool_act all_return a p = None" if "own_action a" for a
    using that p by (cases a) (auto simp: pool_thread_step_def pool_notify_one_def nth_Cons' numeral_2_eq_2)
  have acc: "pl_accepted (running_pool 3 two_events) = two_events" "pl_running (running_pool 3 two_events)"
      "\<not> eq_stopped (pl_queue (running_pool 3 two_events))"
    by (simp_all add: running_pool_def pool_start_def new_pool_node_def new_pool_def sample_queue_def two_events_def
        new_event_queue_def eq_push_def)
  have own: "list_all own_action sample_schedule" by (simp add: sample_schedule_def)
  note all = pool_handles_everything [OF running_pool_reach acc(2,3) p(1) own]
  have "\<forall>a. own_action a \<longrightarrow> pool_act all_return a p = None" using stuck by blast
  with all [THEN conjunct2] have "mset (pl_handled p) = mset two_events" unfolding acc(1) by (elim impE conjE) simp_all
  with all [THEN conjunct1] p(1) show ?thesis by blast
qed

section \<open>Stopping\<close>

text \<open>The work of a thread that will return: once the queue is stopped nothing puts it to sleep again.\<close>

fun way_out :: "location \<Rightarrow> nat" where
  "way_out Exited = 0"
| "way_out Loop_head = 1"
| "way_out (Processing e) = 2"
| "way_out Locking = 3"
| "way_out Sleeping = 4"

definition stop_work :: "pool \<Rightarrow> nat" where
  "stop_work p = sum_list (List.map way_out (pl_threads p))
     + (case pl_phase p of Queue_stopped \<Rightarrow> 2 | Joining \<Rightarrow> 1 | _ \<Rightarrow> 0)"

fun stop_action :: "pool_action \<Rightarrow> bool" where
  "stop_action Stop = True"
| "stop_action (Thread i) = True"
| "stop_action _ = False"

lemma way_out_le: "way_out l \<le> 4"
  by (cases l) simp_all

lemma stop_work_le: "stop_work p \<le> 4 * length (pl_threads p) + 2"
proof -
  have "sum_list (List.map way_out ls) \<le> 4 * length ls" for ls
    by (induction ls) (simp_all, metis add_le_mono way_out_le)
  then show ?thesis by (simp add: stop_work_def add_le_mono le_SucI split: stop_phase.split)
qed

lemma way_out_wake: "sum_list (List.map way_out (List.map wake ls)) \<le> sum_list (List.map way_out ls)"
  by (induction ls) (auto simp: wake_def)

text \<open>The first two steps of \<open>stop\<close> never block; from then on every step of a thread or of \<open>stop\<close> is
  progress, and no push, notification or spurious wakeup undoes it.\<close>

lemma stop_work_act:
  assumes act: "pool_act h a p = Some p'" and ok: "threads_ok p"
    and phase: "pl_phase p = Queue_stopped \<or> pl_phase p = Joining"
  shows "stop_work p' + (if stop_action a then 1 else 0) \<le> stop_work p
    \<and> (pl_phase p' = Queue_stopped \<or> pl_phase p' = Joining \<or> pl_phase p' = Idle \<and> pl_threads p' = [])"
proof (cases a)
  case Start
  with act phase show ?thesis by auto
next
  case Stop
  with act have "pool_stop_step p = Some p'" by simp
  then show ?thesis
  proof (cases rule: pool_stop_cases)
    case stop_notify
    with Stop way_out_wake [of "pl_threads p"] show ?thesis by (simp add: stop_work_def)
  next
    case stop_join
    with Stop show ?thesis by (simp add: stop_work_def)
  qed (use phase in simp_all)
next
  case (Thread i)
  have stopped: "\<not> pl_running p" "eq_stopped (pl_queue p)" using ok phase by (auto simp: threads_ok_def)
  from Thread act have "pool_thread_step h i p = Some p'" by simp
  then show ?thesis
    by (cases rule: pool_thread_cases;
        use Thread stopped phase work_at_thread [of i "pl_threads p" way_out "pl_threads p' ! i"]
        in \<open>auto simp: stop_work_def\<close>)
next
  case (Push e)
  with act have "p' = pool_push e p" by simp
  then show ?thesis
    by (cases rule: pool_push_cases [of p e]) (use phase Push in \<open>auto simp: stop_work_def\<close>)
next
  case (Notify i)
  with act have "pool_notify_one i p = Some p'" by simp
  then show ?thesis
    by (cases rule: pool_notify_cases;
        use phase Notify work_at_thread [of i "pl_threads p" way_out Locking] in \<open>auto simp: stop_work_def\<close>)
next
  case (Spurious i)
  with act have "pool_spurious i p = Some p'" by simp
  then show ?thesis
    by (cases rule: pool_spurious_cases;
        use phase Spurious work_at_thread [of i "pl_threads p" way_out Locking] in \<open>auto simp: stop_work_def\<close>)
qed

lemma in_hand_nth: "i < length ls \<Longrightarrow> ls ! i = Processing e \<Longrightarrow> e \<in> set (in_hand ls)"
  by (metis in_hand_mem nth_mem)

text \<open>While \<open>stop\<close> has not returned and the handlers the threads are in return, \<open>stop\<close> itself or a thread has a step.\<close>

lemma stop_never_stuck:
  assumes reach: "pool_reach h n q p" and phase: "pl_phase p \<noteq> Idle" and returns: "\<forall>e \<in> set (in_hand (pl_threads p)). h e"
  shows "\<exists>a. stop_action a \<and> pool_act h a p \<noteq> None"
proof (cases "pool_stop_step p")
  case None
  with phase have joining: "pl_phase p = Joining" "\<not> list_all (\<lambda>l. l = Exited) (pl_threads p)"
    by (auto simp: pool_stop_step_def split: stop_phase.splits if_splits)
  then obtain i where i: "i < length (pl_threads p)" "pl_threads p ! i \<noteq> Exited"
    by (auto simp: list_all_length)
  have "eq_stopped (pl_queue p)" "Sleeping \<notin> set (pl_threads p)"
    using pool_reach_facts(2) [OF reach] joining(1) by (simp_all add: threads_ok_def)
  then have "pl_threads p ! i \<noteq> Sleeping" "eq_wait_and_pop (pl_queue p) \<noteq> Wait_blocked"
    using nth_mem [OF i(1)] by (metis, simp add: eq_wait_and_pop_def)
  with i have "pool_act h (Thread i) p \<noteq> None"
    using returns in_hand_nth [OF i(1)] by (auto simp: pool_thread_step_def split: location.split wait_result.split)
  then show ?thesis by (intro exI [of _ "Thread i"]) simp
next
  case (Some p')
  then show ?thesis by (intro exI [of _ Stop]) simp
qed

definition stop_steps :: "pool_action list \<Rightarrow> nat" where
  "stop_steps as = length (filter stop_action as)"

lemma stop_run:
  assumes "pool_reach h n q p" and "pl_phase p = Queue_stopped \<or> pl_phase p = Joining"
    and "pool_run h as p = Some p'" and "stop_work p < stop_steps as"
  shows "\<exists>k p''. k \<le> length as \<and> pool_run h (take k as) p = Some p'' \<and> pl_phase p'' = Idle \<and> pl_threads p'' = []"
  using assms
proof (induction as arbitrary: p)
  case (Cons a as)
  then obtain p1 where p1: "pool_act h a p = Some p1" "pool_run h as p1 = Some p'"
    by (auto split: option.splits)
  note act = stop_work_act [OF p1(1) pool_reach_facts(2) [OF Cons.prems(1)] Cons.prems(2)]
  show ?case
  proof (cases "pl_phase p1 = Idle")
    case True
    with act p1(1) show ?thesis by (intro exI [of _ 1] exI [of _ p1]) auto
  next
    case False
    with act have "pl_phase p1 = Queue_stopped \<or> pl_phase p1 = Joining" by blast
    moreover have "stop_work p1 < stop_steps as"
      using act Cons.prems(4) by (simp add: stop_steps_def split: if_splits)
    ultimately obtain k p'' where
      "k \<le> length as" "pool_run h (take k as) p1 = Some p''" "pl_phase p'' = Idle" "pl_threads p'' = []"
      using Cons.IH [OF pool_reach_act [OF Cons.prems(1) p1(1)] _ p1(2)] by blast
    with p1(1) show ?thesis by (intro exI [of _ "Suc k"] exI [of _ p'']) simp
  qed
qed (simp add: stop_steps_def)

text \<open>A thread in a handler that does not return stays there, and \<open>stop\<close> waits for it.\<close>

lemma stuck_thread_stays:
  assumes "pool_act h a p = Some p'" and "i < length (pl_threads p)" and "pl_threads p ! i = Processing e" and "\<not> h e"
    and "pl_phase p = Queue_stopped \<or> pl_phase p = Joining"
  shows "i < length (pl_threads p') \<and> pl_threads p' ! i = Processing e \<and> (pl_phase p' = Queue_stopped \<or> pl_phase p' = Joining)"
proof -
  have other: "j \<noteq> i" if "pl_threads p ! j \<noteq> Processing e" for j using that assms(3) by metis
  show ?thesis
  proof (cases a)
    case (Thread j)
    with assms(1) have "pool_thread_step h j p = Some p'" by simp
    then show ?thesis
    proof (cases rule: pool_thread_cases)
      case (handled e')
      then have "j \<noteq> i" using assms(3,4) by auto
      with handled assms(2,3,5) show ?thesis by simp
    qed (use other [of j] assms(2,3,5) in simp_all)
  next
    case Stop
    with assms(1) have "pool_stop_step p = Some p'" by simp
    then show ?thesis
    proof (cases rule: pool_stop_cases)
      case stop_join
      then show ?thesis using assms(2,3) by (auto simp: list_all_length)
    qed (use assms(2,3,5) in \<open>simp_all add: wake_def\<close>)
  next
    case (Push e')
    with assms(1) have "p' = pool_push e' p" by simp
    then show ?thesis by (cases rule: pool_push_cases [of p e']) (use assms(2,3,5) in simp_all)
  next
    case (Notify j)
    with assms(1) have "pool_notify_one j p = Some p'" by simp
    then show ?thesis by (cases rule: pool_notify_cases) (use other [of j] assms(2,3,5) in simp_all)
  next
    case (Spurious j)
    with assms(1) have "pool_spurious j p = Some p'" by simp
    then show ?thesis by (cases rule: pool_spurious_cases) (use other [of j] assms(2,3,5) in simp_all)
  qed (use assms in auto)
qed

lemma stuck_thread_run:
  "pool_run h as p = Some p' \<Longrightarrow> i < length (pl_threads p) \<Longrightarrow> pl_threads p ! i = Processing e \<Longrightarrow> \<not> h e
    \<Longrightarrow> pl_phase p = Queue_stopped \<or> pl_phase p = Joining \<Longrightarrow> pl_phase p' \<noteq> Idle"
proof (induction as arbitrary: p)
  case (Cons a as)
  then obtain p1 where p1: "pool_act h a p = Some p1" "pool_run h as p1 = Some p'" by (auto split: option.splits)
  from stuck_thread_stays [OF p1(1) Cons.prems(2-5)] Cons.IH [OF p1(2)] Cons.prems(4) show ?case by blast
qed auto

text \<open>C13 When \<open>stop\<close> returns. Once it has stopped the queue: as long as the handlers that threads are in return, \<open>stop\<close> or a thread has
  a step; any schedule that gives them more than \<open>4n + 2\<close> steps, whatever is pushed, notified or woken in between,
  contains the point where every thread of the \<open>n\<close> is joined; and when a thread is in a handler that does not return,
  no schedule ever gets there.\<close>

theorem pool_stop_returns:
  assumes "pool_reach h n q p" and "pl_phase p = Queue_stopped \<or> pl_phase p = Joining"
  shows "((\<forall>e \<in> set (in_hand (pl_threads p)). h e) \<longrightarrow> (\<exists>a. stop_action a \<and> pool_act h a p \<noteq> None))
    \<and> (pool_run h as p = Some p' \<and> 4 * n + 2 < stop_steps as \<longrightarrow>
        (\<exists>k p''. k \<le> length as \<and> pool_run h (take k as) p = Some p'' \<and> pl_phase p'' = Idle \<and> pl_threads p'' = []))
    \<and> (pool_run h as p = Some p' \<and> (\<exists>e \<in> set (in_hand (pl_threads p)). \<not> h e) \<longrightarrow> pl_phase p' \<noteq> Idle)"
proof (intro conjI impI)
  show "\<exists>a. stop_action a \<and> pool_act h a p \<noteq> None" if "\<forall>e \<in> set (in_hand (pl_threads p)). h e"
    using assms(2) by (intro stop_never_stuck [OF assms(1) _ that]) auto
  have "length (pl_threads p) = n"
    using pool_reach_facts(2) [OF assms(1)] pool_reach_num_workers [OF assms(1)] assms(2)
    by (auto simp: threads_ok_def)
  then have "stop_work p \<le> 4 * n + 2" using stop_work_le [of p] by simp
  then show "\<exists>k p''. k \<le> length as \<and> pool_run h (take k as) p = Some p'' \<and> pl_phase p'' = Idle \<and> pl_threads p'' = []"
    if "pool_run h as p = Some p' \<and> 4 * n + 2 < stop_steps as"
    using that by (intro stop_run [OF assms]) simp_all
  show "pl_phase p' \<noteq> Idle" if "pool_run h as p = Some p' \<and> (\<exists>e \<in> set (in_hand (pl_threads p)). \<not> h e)"
    using that stuck_thread_run [OF _ _ _ _ assms(2)] by (metis in_hand_mem in_set_conv_nth)
qed

text \<open>One worker that sleeps, the queue stopped while an event arrives.\<close>

definition stop_schedule :: "pool_action list" where
  "stop_schedule = [Thread 0, Thread 0, Stop, Stop, Push (4, sample_message), Stop, Thread 0, Thread 0, Thread 0, Stop, Stop, Stop]"

definition stopping_pool :: pool where
  "stopping_pool = (case pool_run all_return (take 4 stop_schedule) (running_pool 1 []) of Some p \<Rightarrow> p | None \<Rightarrow> running_pool 1 [])"

lemmas pool_eval = running_pool_def pool_start_def new_pool_node_def new_pool_def sample_queue_def
  new_event_queue_def eq_push_def pool_thread_step_def at_thread_def eq_wait_and_pop_def eq_wake_all_def
  pool_stop_step_def pool_push_def wake_def

theorem pool_stop_returns_witness:
  "(\<exists>a. stop_action a \<and> pool_act all_return a stopping_pool \<noteq> None)
   \<and> (\<exists>k p. k \<le> length (drop 4 stop_schedule) \<and> pool_run all_return (take k (drop 4 stop_schedule)) stopping_pool = Some p \<and> pl_threads p = [])"
proof -
  have run: "pool_run all_return (take 4 stop_schedule) (running_pool 1 []) = Some stopping_pool"
    by (simp add: stopping_pool_def stop_schedule_def pool_eval)
  have phase: "pl_phase stopping_pool = Queue_stopped \<or> pl_phase stopping_pool = Joining"
    by (simp add: stopping_pool_def stop_schedule_def pool_eval)
  obtain p where p: "pool_run all_return (drop 4 stop_schedule) stopping_pool = Some p"
    by (simp add: stopping_pool_def stop_schedule_def pool_eval)
  have "4 * 1 + 2 < stop_steps (drop 4 stop_schedule)" by (simp add: stop_steps_def stop_schedule_def)
  with pool_stop_returns [OF pool_reach_run [OF running_pool_reach run] phase, of "drop 4 stop_schedule" p] p
  show ?thesis by blast
qed

section \<open>After a stop\<close>

text \<open>\<open>stop\<close> does not wait for the queue: the worker that handles an event when the flag is cleared
  returns after it, whatever is still queued.\<close>

theorem stop_leaves_events:
  "\<exists>as p. pool_run all_return as (running_pool 1 two_events) = Some p \<and> pl_phase p = Idle \<and> pl_threads p = []
     \<and> \<not> pl_running p \<and> pl_handled p = [hd two_events] \<and> eq_queue (pl_queue p) = tl two_events"
  by (rule exI [of _ "[Thread 0, Thread 0, Stop, Thread 0, Thread 0, Stop, Stop, Stop]"])
    (simp add: pool_eval two_events_def)

text \<open>Two workers may finish two events of one connection in the opposite order.\<close>

theorem events_handled_out_of_order:
  "\<exists>as p. pool_run all_return as (running_pool 2 two_events) = Some p \<and> pl_taken p = two_events
     \<and> pl_handled p = rev two_events"
  by (rule exI [of _ "[Thread 0, Thread 0, Thread 1, Thread 1, Thread 1, Thread 0]"])
    (simp add: pool_eval two_events_def)

text \<open>The queue stays stopped once \<open>wake_all\<close> was called, and an event in hand or a started pool does not
  change that.\<close>

lemma stopped_for_good:
  assumes "pool_act h a p = Some p'" and "eq_stopped (pl_queue p)"
  shows "eq_stopped (pl_queue p')"
  using assms
  by (cases a)
    (auto simp: pool_start_def pool_push_def eq_push_def eq_wake_all_def elim!: pool_stop_cases pool_thread_cases
      pool_notify_cases pool_spurious_cases split: if_splits)

lemma stopped_run: "pool_run h as p = Some p' \<Longrightarrow> eq_stopped (pl_queue p) \<Longrightarrow> eq_stopped (pl_queue p')"
  by (induction as arbitrary: p) (auto split: option.splits dest: stopped_for_good)

text \<open>A pool that is started again after a stop burns its processors: the queue's stop flag is never
  taken back, so no thread ever sleeps again, and with the queue empty every thread goes from the loop's
  head into \<open>wait_and_pop\<close> and straight back without any progress, for as long as the pool runs.\<close>

theorem restarted_pool_spins:
  assumes "pool_reach h n q p" and "eq_stopped (pl_queue p)" and "pl_phase p = Idle"
    and "pool_run h (Start # as) p = Some p'" and "pl_running p'" and "eq_queue (pl_queue p') = []"
    and "i < n" and "pl_threads p' ! i = Loop_head"
  shows "Sleeping \<notin> set (pl_threads p') \<and> pool_run h [Thread i, Thread i] p' = Some p'"
proof -
  have reach: "pool_reach h n q p'" by (rule pool_reach_run [OF assms(1,4)])
  note inv = pool_reach_facts(2) [OF reach]
  have stopped: "eq_stopped (pl_queue p')" by (rule stopped_run [OF assms(4,2)])
  have len: "length (pl_threads p') = n"
    using inv assms(5) pool_reach_num_workers [OF reach] by (simp add: threads_ok_def)
  have "Sleeping \<notin> set (pl_threads p')" using inv stopped assms(5) by (auto simp: threads_ok_def)
  moreover have "pool_run h [Thread i, Thread i] p' = Some p'"
    using assms(5-8) len stopped list_update_id [of "pl_threads p'" i]
    by (simp add: pool_thread_step_def at_thread_def eq_wait_and_pop_def)
  ultimately show ?thesis by simp
qed

definition stopped_pool :: pool where
  "stopped_pool = (case pool_run all_return (take 10 stop_schedule) (running_pool 1 []) of Some p \<Rightarrow> p | None \<Rightarrow> running_pool 1 [])"

theorem restarted_pool_spins_witness:
  "\<exists>p. pool_run all_return [Start] stopped_pool = Some p \<and> pool_run all_return [Thread 0, Thread 0] p = Some p"
proof -
  have run: "pool_run all_return (take 10 stop_schedule) (running_pool 1 []) = Some stopped_pool"
    by (simp add: stopped_pool_def stop_schedule_def pool_eval)
  have facts: "eq_stopped (pl_queue stopped_pool)" "pl_phase stopped_pool = Idle" "\<not> pl_running stopped_pool"
      "eq_queue (pl_queue stopped_pool) = []" "pl_num_workers stopped_pool = 1"
    by (simp_all add: stopped_pool_def stop_schedule_def pool_eval)
  have start: "pool_run all_return [Start] stopped_pool = Some (pool_start stopped_pool)" using facts by simp
  from restarted_pool_spins [OF pool_reach_run [OF running_pool_reach run] facts(1,2) start, of 0] facts start
  show ?thesis by (simp add: pool_start_def)
qed

end
