(* ===== verification/RouterThreads.thy ===== *)
theory RouterThreads
  imports Router
begin

text \<open>
  \<open>select_nodes_and_allocate_slot\<close> is not one critical section: it reads the registry twice, the loads
  node by node, and takes the slot mutex three times, and the orchestrator's workers run it concurrently.
  Here a call is a sequence of steps, one per critical section or atomic access of
  \<open>src/cpp/apps/orchestrator/request_router.cpp\<close>, and the system interleaves any number of calls with
  releases, load updates and changes of the registry. A call that is not disturbed computes the function
  of the router's theory; disturbed ones still never share a slot, but may be refused for no reason.
\<close>

section \<open>One call, step by step\<close>

text \<open>
  Where a call is: about to read the prefill nodes; about to pick one of them; scanning their loads
  with the best node so far and its load; about to read the decode nodes, the prefill node chosen; about
  to filter them under the slot mutex; about to pick a candidate; scanning; about to allocate on the
  chosen node; about to record the request's node; returned.
\<close>

datatype route_pc =
    At_start
  | At_prefill "node_info list"
  | Prefill_scan "node_info option" int "node_info list"
  | At_decode node_info
  | At_filter node_info "node_info list"
  | At_pick node_info "node_info list"
  | Decode_scan node_info "node_info option" int "node_info list"
  | At_alloc node_info node_info
  | At_record node_info node_info int
  | Returned "routing_result option"

definition chosen_prefill :: "node_info option \<Rightarrow> route_pc" where
  "chosen_prefill sel = (case sel of None \<Rightarrow> Returned None | Some p \<Rightarrow> At_decode p)"

definition chosen_decode :: "node_info \<Rightarrow> node_info option \<Rightarrow> route_pc" where
  "chosen_decode p sel = (case sel of None \<Rightarrow> Returned None | Some d \<Rightarrow> At_alloc p d)"

text \<open>\<open>reg\<close> is the registry as the step finds it.\<close>

fun route_step :: "(nat \<Rightarrow> nat \<Rightarrow> nat) \<Rightarrow> node_registry \<Rightarrow> string \<Rightarrow> route_pc \<Rightarrow> router \<Rightarrow> route_pc \<times> router" where
  "route_step draw reg rid At_start rt =
     (let ns = get_healthy_nodes PREFILL reg in (if ns = [] then Returned None else At_prefill ns, rt))"
| "route_step draw reg rid (At_prefill ns) rt =
     (if rt_policy rt = LEAST_LOADED then (Prefill_scan None INT_MAX ns, rt)
      else let (sel, i) = select_by_policy (draw 0) rt ns (rt_prefill_rr_index rt)
           in (chosen_prefill sel, rt\<lparr>rt_prefill_rr_index := i\<rparr>))"
| "route_step draw reg rid (Prefill_scan best m []) rt = (chosen_prefill best, rt)"
| "route_step draw reg rid (Prefill_scan best m (n # ns)) rt =
     (let load = get_node_load (ni_node_id n) rt in
      (if load < m then Prefill_scan (Some n) load ns else Prefill_scan best m ns, rt))"
| "route_step draw reg rid (At_decode p) rt =
     (let ns = get_healthy_nodes DECODE reg in (if ns = [] then Returned None else At_filter p ns, rt))"
| "route_step draw reg rid (At_filter p ns) rt =
     (let rt = init_all ns rt; cand = nodes_with_slots ns rt in
      (if cand = [] then Returned None else At_pick p cand, rt))"
| "route_step draw reg rid (At_pick p cand) rt =
     (if rt_policy rt = LEAST_LOADED then (Decode_scan p None INT_MAX cand, rt)
      else let (sel, i) = select_by_policy (draw 1) rt cand (rt_decode_rr_index rt)
           in (chosen_decode p sel, rt\<lparr>rt_decode_rr_index := i\<rparr>))"
| "route_step draw reg rid (Decode_scan p best m []) rt = (chosen_decode p best, rt)"
| "route_step draw reg rid (Decode_scan p best m (n # ns)) rt =
     (let load = get_node_load (ni_node_id n) rt in
      (if load < m then Decode_scan p (Some n) load ns else Decode_scan p best m ns, rt))"
| "route_step draw reg rid (At_alloc p d) rt =
     (case allocate_slot_for_node (ni_node_id d) rid rt of
        (None, rt) \<Rightarrow> (Returned None, rt)
      | (Some s, rt) \<Rightarrow> (At_record p d s, rt))"
| "route_step draw reg rid (At_record p d s) rt =
     (Returned (Some \<lparr>rr_prefill_node = p, rr_decode_node = d, rr_slot_id = s,
        rr_slot_base_offset = slot_offset (rt_slot_config rt) s\<rparr>),
      rt\<lparr>rt_request_to_decode_node := put rid (ni_node_id d) (rt_request_to_decode_node rt)\<rparr>)"
| "route_step draw reg rid (Returned r) rt = (Returned r, rt)"

fun route_steps :: "nat \<Rightarrow> (nat \<Rightarrow> nat \<Rightarrow> nat) \<Rightarrow> node_registry \<Rightarrow> string \<Rightarrow> route_pc \<Rightarrow> router \<Rightarrow> route_pc \<times> router" where
  "route_steps 0 draw reg rid pc rt = (pc, rt)"
| "route_steps (Suc n) draw reg rid pc rt =
     (case route_step draw reg rid pc rt of (pc, rt) \<Rightarrow> route_steps n draw reg rid pc rt)"

lemma route_steps_returned [simp]: "route_steps n draw reg rid (Returned r) rt = (Returned r, rt)"
  by (induction n) simp_all

lemma route_steps_add:
  "route_steps m draw reg rid pc rt = (pc', rt') \<Longrightarrow>
   route_steps (m + n) draw reg rid pc rt = route_steps n draw reg rid pc' rt'"
  by (induction m arbitrary: pc rt) (simp_all split: prod.splits)

text \<open>The scans compute the least loaded node.\<close>

lemma prefill_scan_steps:
  "route_steps (Suc (length ns)) draw reg rid (Prefill_scan best m ns) rt
   = (chosen_prefill (least_loaded_from rt best m ns), rt)"
  by (induction ns arbitrary: best m) (simp_all add: Let_def)

lemma decode_scan_steps:
  "route_steps (Suc (length ns)) draw reg rid (Decode_scan p best m ns) rt
   = (chosen_decode p (least_loaded_from rt best m ns), rt)"
  by (induction ns arbitrary: best m) (simp_all add: Let_def)

definition goes_to :: "nat \<Rightarrow> (nat \<Rightarrow> nat \<Rightarrow> nat) \<Rightarrow> node_registry \<Rightarrow> string \<Rightarrow> route_pc \<times> router \<Rightarrow> route_pc \<times> router \<Rightarrow> bool" where
  "goes_to k draw reg rid x y \<longleftrightarrow> (\<exists>m\<le>k. route_steps m draw reg rid (fst x) (snd x) = y)"

lemma goes_to_trans: "goes_to k draw reg rid x y \<Longrightarrow> goes_to l draw reg rid y z \<Longrightarrow> goes_to (k + l) draw reg rid x z"
  unfolding goes_to_def by (metis add_mono prod.collapse route_steps_add)

lemma goes_to_step: "goes_to 1 draw reg rid (pc, rt) (route_step draw reg rid pc rt)"
  unfolding goes_to_def by (rule exI [of _ 1]) (simp split: prod.split)

lemma goes_to_steps: "route_steps k draw reg rid pc rt = y \<Longrightarrow> goes_to k draw reg rid (pc, rt) y"
  by (auto simp: goes_to_def)

lemma goes_to_mono: "goes_to k draw reg rid x y \<Longrightarrow> k \<le> l \<Longrightarrow> goes_to l draw reg rid x y"
  unfolding goes_to_def using le_trans by blast

lemma goes_to_prefill:
  "goes_to (3 + length (get_healthy_nodes PREFILL reg)) draw reg rid (At_start, rt)
     (map_prod chosen_prefill (\<lambda>r. r) (select_prefill_node (draw 0) reg rt))"
proof (cases "get_healthy_nodes PREFILL reg = []")
  case True
  then have "goes_to 1 draw reg rid (At_start, rt) (Returned None, rt)"
    using goes_to_step [of draw reg rid At_start rt] by simp
  from goes_to_mono [OF this] True show ?thesis by (simp add: select_prefill_node_def chosen_prefill_def)
next
  case False
  let ?ns = "get_healthy_nodes PREFILL reg"
  have 1: "goes_to 1 draw reg rid (At_start, rt) (At_prefill ?ns, rt)"
    using False goes_to_step [of draw reg rid At_start rt] by simp
  have 2: "goes_to (2 + length ?ns) draw reg rid (At_prefill ?ns, rt)
      (map_prod chosen_prefill (\<lambda>r. r) (select_prefill_node (draw 0) reg rt))"
  proof (cases "rt_policy rt = LEAST_LOADED")
    case True
    then have "goes_to 1 draw reg rid (At_prefill ?ns, rt) (Prefill_scan None INT_MAX ?ns, rt)"
      using goes_to_step [of draw reg rid "At_prefill ?ns" rt] by simp
    from goes_to_trans [OF this goes_to_steps [OF prefill_scan_steps]] show ?thesis
      using True False by (simp add: select_prefill_node_def select_by_policy_def select_least_loaded_def)
  next
    case False
    then have "goes_to 1 draw reg rid (At_prefill ?ns, rt)
        (map_prod chosen_prefill (\<lambda>r. r) (select_prefill_node (draw 0) reg rt))"
      using goes_to_step [of draw reg rid "At_prefill ?ns" rt] \<open>?ns \<noteq> []\<close>
      by (simp add: select_prefill_node_def Let_def split: prod.splits)
    then show ?thesis by (rule goes_to_mono) simp
  qed
  from goes_to_trans [OF 1 2] show ?thesis by (simp add: numeral_3_eq_3)
qed

lemma goes_to_decode:
  "goes_to (4 + length (get_healthy_nodes DECODE reg)) draw reg rid (At_decode p, rt)
     (map_prod (chosen_decode p) (\<lambda>r. r) (select_decode_node_with_slot (draw 1) reg rt))"
proof (cases "get_healthy_nodes DECODE reg = []")
  case True
  then have "goes_to 1 draw reg rid (At_decode p, rt) (Returned None, rt)"
    using goes_to_step [of draw reg rid "At_decode p" rt] by simp
  from goes_to_mono [OF this] True show ?thesis by (simp add: select_decode_node_with_slot_def chosen_decode_def)
next
  case False
  let ?ns = "get_healthy_nodes DECODE reg"
  let ?rt = "init_all ?ns rt"
  let ?c = "nodes_with_slots ?ns ?rt"
  have len: "length ?c \<le> length ?ns" by (simp add: nodes_with_slots_def)
  have "goes_to 1 draw reg rid (At_decode p, rt) (At_filter p ?ns, rt)"
    using False goes_to_step [of draw reg rid "At_decode p" rt] by simp
  from goes_to_trans [OF this goes_to_step]
  have 1: "goes_to 2 draw reg rid (At_decode p, rt) (if ?c = [] then Returned None else At_pick p ?c, ?rt)"
    by (simp add: Let_def numeral_2_eq_2)
  have 2: "goes_to (2 + length ?ns) draw reg rid (if ?c = [] then Returned None else At_pick p ?c, ?rt)
      (map_prod (chosen_decode p) (\<lambda>r. r) (select_decode_node_with_slot (draw 1) reg rt))"
  proof (cases "?c = []")
    case True
    have "goes_to 0 draw reg rid (Returned None, ?rt) (Returned None, ?rt)" by (simp add: goes_to_def)
    from goes_to_mono [OF this] True False show ?thesis
      by (simp add: select_decode_node_with_slot_def Let_def chosen_decode_def)
  next
    case cand: False
    show ?thesis
    proof (cases "rt_policy ?rt = LEAST_LOADED")
      case True
      then have "goes_to 1 draw reg rid (At_pick p ?c, ?rt) (Decode_scan p None INT_MAX ?c, ?rt)"
        using goes_to_step [of draw reg rid "At_pick p ?c" ?rt] by simp
      from goes_to_trans [OF this goes_to_steps [OF decode_scan_steps]]
      have "goes_to (2 + length ?c) draw reg rid (At_pick p ?c, ?rt)
          (map_prod (chosen_decode p) (\<lambda>r. r) (select_decode_node_with_slot (draw 1) reg rt))"
        using True False cand
        by (simp add: select_decode_node_with_slot_def select_by_policy_def select_least_loaded_def Let_def)
      from goes_to_mono [OF this] cand len show ?thesis by simp
    next
      case policy: False
      then have "goes_to 1 draw reg rid (At_pick p ?c, ?rt)
          (map_prod (chosen_decode p) (\<lambda>r. r) (select_decode_node_with_slot (draw 1) reg rt))"
        using goes_to_step [of draw reg rid "At_pick p ?c" ?rt] False cand
        by (simp add: select_decode_node_with_slot_def Let_def split: prod.splits)
      from goes_to_mono [OF this] cand show ?thesis by simp
    qed
  qed
  from goes_to_trans [OF 1 2] show ?thesis by (simp add: numeral_eq_Suc)
qed

lemma goes_to_allocate:
  "allocate_slot_for_node (ni_node_id d) rid rt = (a, rt') \<Longrightarrow>
   goes_to 2 draw reg rid (At_alloc p d, rt) (case a of None \<Rightarrow> (Returned None, rt')
     | Some s \<Rightarrow> (Returned (Some \<lparr>rr_prefill_node = p, rr_decode_node = d, rr_slot_id = s,
           rr_slot_base_offset = slot_offset (rt_slot_config rt') s\<rparr>),
         rt'\<lparr>rt_request_to_decode_node := put rid (ni_node_id d) (rt_request_to_decode_node rt')\<rparr>))"
  by (rule goes_to_steps) (simp add: numeral_2_eq_2 split: option.split)

text \<open>A routing call that no other thread disturbs computes the selection of the router's theory: its
  critical sections, run one after the other on an unchanging registry, return what
  \<open>select_nodes_and_allocate_slot\<close> returns and leave the router it leaves, within \<open>9\<close> steps and one more
  for every healthy node.\<close>

theorem undisturbed_call:
  "\<exists>n \<le> 9 + length (get_healthy_nodes PREFILL reg) + length (get_healthy_nodes DECODE reg).
     route_steps n draw reg rid At_start rt
     = map_prod Returned (\<lambda>r. r) (select_nodes_and_allocate_slot draw reg rid rt)"
proof -
  let ?P = "length (get_healthy_nodes PREFILL reg)" and ?D = "length (get_healthy_nodes DECODE reg)"
  let ?goal = "goes_to (9 + ?P + ?D) draw reg rid (At_start, rt)
    (map_prod Returned (\<lambda>r. r) (select_nodes_and_allocate_slot draw reg rid rt))"
  obtain sp rt1 where 1: "select_prefill_node (draw 0) reg rt = (sp, rt1)" by fastforce
  obtain sd rt2 where 2: "select_decode_node_with_slot (draw 1) reg rt1 = (sd, rt2)" by fastforce
  have p: "goes_to (3 + ?P) draw reg rid (At_start, rt) (chosen_prefill sp, rt1)"
    using goes_to_prefill [of reg draw rid rt] 1 by simp
  have ?goal
  proof (cases sp)
    case None
    with goes_to_mono [OF p] 1 show ?thesis by (simp add: select_nodes_and_allocate_slot_def chosen_prefill_def)
  next
    case (Some pn)
    have d: "goes_to (7 + ?P + ?D) draw reg rid (At_start, rt) (chosen_decode pn sd, rt2)"
      using goes_to_trans [OF p, of "4 + ?D"] goes_to_decode [of reg draw rid pn rt1] 2 Some
      by (simp add: chosen_prefill_def numeral_eq_Suc ac_simps)
    show ?thesis
    proof (cases sd)
      case None
      with goes_to_mono [OF d] 1 2 \<open>sp = Some pn\<close> show ?thesis
        by (simp add: select_nodes_and_allocate_slot_def chosen_decode_def)
    next
      case (Some dn)
      obtain a rt3 where 3: "allocate_slot_for_node (ni_node_id dn) rid rt2 = (a, rt3)" by fastforce
      from d Some have "goes_to (7 + ?P + ?D) draw reg rid (At_start, rt) (At_alloc pn dn, rt2)"
        by (simp add: chosen_decode_def)
      from goes_to_trans [OF this goes_to_allocate [OF 3]] 1 2 3 Some \<open>sp = Some pn\<close> show ?thesis
        by (cases a) (simp_all add: select_nodes_and_allocate_slot_def numeral_eq_Suc ac_simps)
    qed
  qed
  then show ?thesis by (simp add: goes_to_def)
qed

section \<open>Concurrent calls\<close>

text \<open>
  The threads are the calls made so far, each with its request and where it is; the requests freed so far
  are history. Any thread may take its next step at any time, with any registry content and any draws.
\<close>

record routing_system =
  rs_router :: router
  rs_calls :: "(string \<times> route_pc) list"
  rs_freed :: "string set"

definition new_routing :: "routing_policy \<Rightarrow> slot_config \<Rightarrow> routing_system" where
  "new_routing pol c = \<lparr>rs_router = new_router pol c, rs_calls = [], rs_freed = {}\<rparr>"

definition call_step :: "(nat \<Rightarrow> nat \<Rightarrow> nat) \<Rightarrow> node_registry \<Rightarrow> nat \<Rightarrow> routing_system \<Rightarrow> routing_system" where
  "call_step draw reg i s = (case rs_calls s ! i of (rid, pc) \<Rightarrow>
     (case route_step draw reg rid pc (rs_router s) of (pc', rt') \<Rightarrow>
        s\<lparr>rs_router := rt', rs_calls := (rs_calls s)[i := (rid, pc')]\<rparr>))"

definition call_begin :: "string \<Rightarrow> routing_system \<Rightarrow> routing_system" where
  "call_begin rid s = s\<lparr>rs_calls := rs_calls s @ [(rid, At_start)]\<rparr>"

definition call_free :: "string \<Rightarrow> routing_system \<Rightarrow> routing_system" where
  "call_free rid s = s\<lparr>rs_router := free_slot rid (rs_router s), rs_freed := insert rid (rs_freed s)\<rparr>"

text \<open>Request ids are not reused; loads and policy may change at any time.\<close>

inductive rs_reach :: "slot_config \<Rightarrow> routing_system \<Rightarrow> bool" for c where
  rs_new: "rs_reach c (new_routing pol c)"
| rs_begin: "rs_reach c s \<Longrightarrow> rid \<notin> fst ` set (rs_calls s) \<Longrightarrow> rs_reach c (call_begin rid s)"
| rs_step: "rs_reach c s \<Longrightarrow> i < length (rs_calls s) \<Longrightarrow> rs_reach c (call_step draw reg i s)"
| rs_free: "rs_reach c s \<Longrightarrow> rs_reach c (call_free rid s)"
| rs_inc: "rs_reach c s \<Longrightarrow> rs_reach c (s\<lparr>rs_router := increment_node_load nid (rs_router s)\<rparr>)"
| rs_dec: "rs_reach c s \<Longrightarrow> rs_reach c (s\<lparr>rs_router := decrement_node_load nid (rs_router s)\<rparr>)"
| rs_set: "rs_reach c s \<Longrightarrow> rs_reach c (s\<lparr>rs_router := set_policy pol (rs_router s)\<rparr>)"

text \<open>The node and slot a call has been given.\<close>

fun given :: "route_pc \<Rightarrow> (string \<times> int) option" where
  "given (At_record p d s) = Some (ni_node_id d, s)"
| "given (Returned (Some r)) = Some (ni_node_id (rr_decode_node r), rr_slot_id r)"
| "given _ = None"

definition slot_at :: "string \<Rightarrow> string \<Rightarrow> router \<Rightarrow> int option" where
  "slot_at nid rid rt = (case find_allocator rt nid of None \<Rightarrow> None | Some a \<Rightarrow> map_of (sa_request_to_slot a) rid)"

definition calls_ok :: "slot_config \<Rightarrow> routing_system \<Rightarrow> bool" where
  "calls_ok c s \<longleftrightarrow> rt_inv (rs_router s) \<and> rt_slot_config (rs_router s) = c \<and> distinct (map fst (rs_calls s))
     \<and> (\<forall>rid pc nid k. (rid, pc) \<in> set (rs_calls s) \<longrightarrow> given pc = Some (nid, k) \<longrightarrow> rid \<notin> rs_freed s
          \<longrightarrow> slot_at nid rid (rs_router s) = Some k)"

subsection \<open>What a step leaves alone\<close>

lemma slot_at_init_all [simp]: "slot_at nid rid (init_all ns rt) = slot_at nid rid rt"
  by (auto simp: slot_at_def init_all_facts new_slot_allocator_def split: option.splits)

lemma slot_at_cong: "find_allocator rt' nid = find_allocator rt nid \<Longrightarrow> slot_at nid rid rt' = slot_at nid rid rt"
  by (simp add: slot_at_def)

lemma slot_at_put [simp]:
  "slot_at n rid (put_allocator nid a rt) = (if n = nid then map_of (sa_request_to_slot a) rid else slot_at n rid rt)"
  by (simp add: slot_at_def)

lemma slot_at_init [simp]: "slot_at n rid (initialize_node_slots nid rt) = slot_at n rid rt"
  by (auto simp: slot_at_def new_slot_allocator_def split: option.splits)

lemma alloc_in_requests:
  "alloc_in rid a = Some (s, a') \<Longrightarrow>
   map_of (sa_request_to_slot a') rid' = (if rid' = rid then Some s else map_of (sa_request_to_slot a) rid')"
  by (auto simp: alloc_in_def split: list.splits)

lemma allocate_slot_at:
  assumes "allocate_slot_for_node nid rid rt = (a, rt')"
  shows "rt_slot_config rt' = rt_slot_config rt"
    and "rid' \<noteq> rid \<Longrightarrow> slot_at n rid' rt' = slot_at n rid' rt"
    and "a = Some s \<Longrightarrow> slot_at nid rid rt' = Some s"
proof -
  let ?rt = "initialize_node_slots nid rt"
  have "rt_slot_config rt' = rt_slot_config ?rt \<and> (rid' \<noteq> rid \<longrightarrow> slot_at n rid' rt' = slot_at n rid' ?rt)
    \<and> (a = Some s \<longrightarrow> slot_at nid rid rt' = Some s)"
  proof (cases "find_allocator ?rt nid")
    case None
    with assms show ?thesis by (auto simp: allocate_slot_for_node_def simp del: find_initialize(1) slot_at_init)
  next
    case (Some al)
    then have al: "slot_at nid rid' ?rt = map_of (sa_request_to_slot al) rid'"
      by (simp add: slot_at_def del: find_initialize(1) slot_at_init)
    show ?thesis
    proof (cases "alloc_in rid al")
      case None
      with assms Some show ?thesis
        by (auto simp: allocate_slot_for_node_def simp del: find_initialize(1) slot_at_init)
    next
      case (Some sa)
      obtain k al' where k: "sa = (k, al')" by fastforce
      have "a = Some k" "rt' = put_allocator nid al' ?rt"
        using assms Some k \<open>find_allocator ?rt nid = Some al\<close>
        by (simp_all add: allocate_slot_for_node_def del: find_initialize(1) slot_at_init)
      then show ?thesis using alloc_in_requests [of rid al k al'] Some k al by simp
    qed
  qed
  then show "rt_slot_config rt' = rt_slot_config rt"
    "rid' \<noteq> rid \<Longrightarrow> slot_at n rid' rt' = slot_at n rid' rt"
    "a = Some s \<Longrightarrow> slot_at nid rid rt' = Some s" by simp_all
qed

lemma free_slot_at: "rid' \<noteq> rid \<Longrightarrow> slot_at n rid' (free_slot rid rt) = slot_at n rid' rt"
  by (auto simp: slot_at_def free_slot_def free_slot_for_node_def free_in_def split: option.splits prod.splits)

lemma given_chosen [simp]: "given (chosen_prefill sel) = None" "given (chosen_decode p sel) = None"
  by (simp_all add: chosen_prefill_def chosen_decode_def split: option.split)

text \<open>A step of a call keeps the router's invariant and every other request's slot, and what it is given
  afterwards it holds.\<close>

lemma route_step_facts:
  assumes "route_step draw reg rid pc rt = (pc', rt')"
  shows "rt_inv rt \<Longrightarrow> rt_inv rt'" and "rt_slot_config rt' = rt_slot_config rt"
    and "rid' \<noteq> rid \<Longrightarrow> slot_at n rid' rt' = slot_at n rid' rt"
    and "given pc' = Some (nid, k) \<Longrightarrow> (given pc = Some (nid, k) \<Longrightarrow> slot_at nid rid rt = Some k)
      \<Longrightarrow> slot_at nid rid rt' = Some k"
proof -
  have "(rt_inv rt \<longrightarrow> rt_inv rt') \<and> rt_slot_config rt' = rt_slot_config rt
    \<and> (rid' \<noteq> rid \<longrightarrow> slot_at n rid' rt' = slot_at n rid' rt)
    \<and> (given pc' = Some (nid, k) \<longrightarrow> (given pc = Some (nid, k) \<longrightarrow> slot_at nid rid rt = Some k)
        \<longrightarrow> slot_at nid rid rt' = Some k)"
  proof (cases pc)
    case (At_filter p ns)
    with assms show ?thesis by (auto simp: Let_def rt_inv_init_all init_all_facts(2) split: if_splits)
  next
    case (Prefill_scan best m ns)
    with assms show ?thesis by (cases ns) (auto simp: Let_def split: if_splits)
  next
    case (Decode_scan p best m ns)
    with assms show ?thesis by (cases ns) (auto simp: Let_def split: if_splits)
  next
    case (At_alloc p d)
    obtain a rt1 where a: "allocate_slot_for_node (ni_node_id d) rid rt = (a, rt1)" by fastforce
    with assms At_alloc have "rt' = rt1" "pc' = (case a of None \<Rightarrow> Returned None | Some s \<Rightarrow> At_record p d s)"
      by (simp_all split: option.splits)
    with allocate_slot_at [OF a] rt_inv_allocate [of rt "ni_node_id d" rid] a At_alloc show ?thesis
      by (cases a) auto
  next
    case (At_record p d s)
    with assms show ?thesis by (auto simp: slot_at_def)
  qed (use assms in \<open>auto simp: Let_def slot_at_def split: if_splits prod.splits\<close>)
  then show "rt_inv rt \<Longrightarrow> rt_inv rt'" "rt_slot_config rt' = rt_slot_config rt"
    "rid' \<noteq> rid \<Longrightarrow> slot_at n rid' rt' = slot_at n rid' rt"
    "given pc' = Some (nid, k) \<Longrightarrow> (given pc = Some (nid, k) \<Longrightarrow> slot_at nid rid rt = Some k)
      \<Longrightarrow> slot_at nid rid rt' = Some k" by blast+
qed

lemma calls_ok_step:
  assumes ok: "calls_ok c s" and i: "i < length (rs_calls s)"
  shows "calls_ok c (call_step draw reg i s)"
proof -
  obtain rid pc where at: "rs_calls s ! i = (rid, pc)" by fastforce
  obtain pc' rt' where step: "route_step draw reg rid pc (rs_router s) = (pc', rt')" by fastforce
  note f = route_step_facts [OF step]
  have mem: "(rid, pc) \<in> set (rs_calls s)" using at i by (metis nth_mem)
  have dist: "distinct (map fst (rs_calls s))" using ok by (simp add: calls_ok_def)
  have fst: "map fst ((rs_calls s)[i := (rid, pc')]) = map fst (rs_calls s)"
    using at i by (metis fst_conv list_update_id map_update)
  have s': "call_step draw reg i s = s\<lparr>rs_router := rt', rs_calls := (rs_calls s)[i := (rid, pc')]\<rparr>"
    by (simp add: call_step_def at step)
  have held: "slot_at nid rid2 rt' = Some k"
    if "(rid2, pc2) \<in> set ((rs_calls s)[i := (rid, pc')])" "given pc2 = Some (nid, k)" "rid2 \<notin> rs_freed s"
    for rid2 pc2 nid k
  proof (cases "rid2 = rid")
    case True
    have "pc2 = pc'"
      using that(1) True dist fst i set_update_memI [of i "rs_calls s" "(rid, pc')"]
      by (metis eq_key_imp_eq_value)
    moreover have "given pc = Some (nid, k) \<Longrightarrow> slot_at nid rid (rs_router s) = Some k"
      using ok mem that(3) True by (auto simp: calls_ok_def)
    ultimately show ?thesis using f(4) [of nid k] that(2) True by simp
  next
    case False
    then have "(rid2, pc2) \<in> set (rs_calls s)"
      using that(1) set_update_subset_insert [of "rs_calls s" i "(rid, pc')"] by auto
    with ok that(2,3) f(3) [OF False] show ?thesis by (auto simp: calls_ok_def)
  qed
  show ?thesis
    using ok f(1,2) dist held unfolding calls_ok_def s' by (simp add: fst)
qed

lemma calls_ok_reach: "rs_reach c s \<Longrightarrow> calls_ok c s"
proof (induction rule: rs_reach.induct)
  case (rs_new pol)
  show ?case by (simp add: calls_ok_def new_routing_def rt_inv_new) (simp add: new_router_def)
next
  case (rs_begin s rid)
  then show ?case by (auto simp: calls_ok_def call_begin_def)
next
  case (rs_step s i draw reg)
  then show ?case by (simp add: calls_ok_step)
next
  case (rs_free s rid)
  then show ?case by (auto simp: calls_ok_def call_free_def rt_inv_free free_slot_at)
next
  case (rs_inc s nid)
  then show ?case by (auto simp: calls_ok_def rt_inv_loads slot_at_def)
next
  case (rs_dec s nid)
  then show ?case by (auto simp: calls_ok_def rt_inv_loads slot_at_def)
next
  case (rs_set s pol)
  then show ?case by (auto simp: calls_ok_def set_policy_def slot_at_def)
qed

text \<open>C22 Concurrent calls never share a slot: however the critical sections of any number of routing
  calls, each for a request id not used before, releases and load updates interleave, and whatever happens to the registry meanwhile, two calls
  for different requests that were given slots on one node, and whose requests were not released, were
  given different slots, each within the configured number.\<close>

theorem concurrent_slots_distinct:
  assumes "rs_reach c s" and "(rid, pc) \<in> set (rs_calls s)" and "(rid', pc') \<in> set (rs_calls s)" and "rid \<noteq> rid'"
    and "given pc = Some (nid, k)" and "given pc' = Some (nid, k')" and "rid \<notin> rs_freed s" and "rid' \<notin> rs_freed s"
  shows "k \<noteq> k' \<and> 0 \<le> k \<and> k < sc_max_slots_per_node c"
proof -
  have ok: "calls_ok c s" by (rule calls_ok_reach [OF assms(1)])
  have slots: "slot_at nid rid (rs_router s) = Some k" "slot_at nid rid' (rs_router s) = Some k'"
    using ok assms by (auto simp: calls_ok_def)
  then obtain a where a: "find_allocator (rs_router s) nid = Some a" "map_of (sa_request_to_slot a) rid = Some k"
      "map_of (sa_request_to_slot a) rid' = Some k'"
    by (auto simp: slot_at_def split: option.splits)
  have inv: "pool.inv (sc_max_slots_per_node c) a"
    using ok rt_inv_D [OF _ a(1)] by (auto simp: calls_ok_def allocator_inv_def)
  have "k \<noteq> k'" using pool.exclusive [OF inv a(2)] a(3) assms(4) by auto
  moreover have "map_of (sa_slot_to_request a) k = Some rid" using inv a(2) by (simp add: pool.inv_def)
  with inv have "k \<in> {0..<sc_max_slots_per_node c}" unfolding pool.inv_def by blast
  ultimately show ?thesis by simp
qed

section \<open>Two calls that disturb each other\<close>

definition one_slot_config :: slot_config where
  "one_slot_config = default_slot_config\<lparr>sc_max_slots_per_node := 1\<rparr>"

definition zero_draw :: "nat \<Rightarrow> nat \<Rightarrow> nat" where
  "zero_draw = (\<lambda>_ _. 0)"

text \<open>The first \<open>n\<close> steps of call \<open>i\<close> on the sample registry: one prefill node and two decode nodes.\<close>

fun call_steps :: "nat \<Rightarrow> nat \<Rightarrow> routing_system \<Rightarrow> routing_system" where
  "call_steps 0 i s = s"
| "call_steps (Suc n) i s = call_steps n i (call_step zero_draw sample_registry i s)"

definition two_calls :: "slot_config \<Rightarrow> routing_system" where
  "two_calls c = call_begin ''r2'' (call_begin ''r1'' (new_routing LEAST_LOADED c))"

lemma call_steps_reach: "rs_reach c s \<Longrightarrow> i < length (rs_calls s) \<Longrightarrow> rs_reach c (call_steps n i s)"
proof (induction n arbitrary: s)
  case (Suc n)
  have "length (rs_calls (call_step zero_draw sample_registry i s)) = length (rs_calls s)"
    by (simp add: call_step_def split: prod.split)
  with Suc show ?case by (simp add: rs_step)
qed simp

lemma two_calls_reach: "rs_reach c (two_calls c)" "length (rs_calls (two_calls c)) = 2"
proof -
  have "rs_reach c (call_begin ''r1'' (new_routing LEAST_LOADED c))"
    by (rule rs_begin [OF rs_new]) (simp add: new_routing_def)
  then show "rs_reach c (two_calls c)"
    unfolding two_calls_def by (rule rs_begin) (simp add: call_begin_def new_routing_def)
qed (simp add: two_calls_def call_begin_def new_routing_def)

lemma call_steps_length [simp]: "length (rs_calls (call_steps n i s)) = length (rs_calls s)"
  by (induction n arbitrary: s) (simp_all add: call_step_def split: prod.split)

text \<open>Both calls choose their node before either allocates.\<close>

definition raced_calls :: "slot_config \<Rightarrow> routing_system" where
  "raced_calls c = call_steps 2 1 (call_steps 2 0 (call_steps 10 1 (call_steps 10 0 (two_calls c))))"

lemma raced_calls_reach: "rs_reach c (raced_calls c)"
  unfolding raced_calls_def by (intro call_steps_reach two_calls_reach(1)) (simp_all add: two_calls_reach(2))

lemma raced_default:
  "map (map_prod (\<lambda>r. r) given) (rs_calls (raced_calls default_slot_config))
    = [(''r1'', Some (''d0'', 0)), (''r2'', Some (''d0'', 1))]
   \<and> rs_freed (raced_calls default_slot_config) = {}"
  by code_simp

theorem concurrent_slots_distinct_witness:
  "\<exists>pc pc' k k'. rs_calls (raced_calls default_slot_config) = [(''r1'', pc), (''r2'', pc')]
     \<and> given pc = Some (''d0'', k) \<and> given pc' = Some (''d0'', k') \<and> k \<noteq> k'"
proof -
  obtain pc pc' where calls: "rs_calls (raced_calls default_slot_config) = [(''r1'', pc), (''r2'', pc')]"
    and pcs: "given pc = Some (''d0'', 0)" "given pc' = Some (''d0'', 1)"
    using raced_default by (auto simp: map_eq_Cons_conv)
  have "(0::int) \<noteq> 1"
    using concurrent_slots_distinct [OF raced_calls_reach, of "''r1''" pc default_slot_config "''r2''" pc' "''d0''" 0 1]
      calls pcs raced_default by simp
  with calls pcs show ?thesis by blast
qed

text \<open>A request can be refused although a healthy decode node has a free slot: with one slot per node,
  two calls that both see the same node free both choose it, the second finds it full and gives up instead
  of choosing again, while the other node is empty; alone, after the first, the same call is served.\<close>

theorem race_refuses_request:
  "rs_reach one_slot_config (raced_calls one_slot_config)
   \<and> map snd (drop 1 (rs_calls (raced_calls one_slot_config))) = [Returned None]
   \<and> (\<exists>n \<in> set (get_healthy_nodes DECODE sample_registry).
        get_available_slots (ni_node_id n) (rs_router (raced_calls one_slot_config)) = 1)
   \<and> fst (select_nodes_and_allocate_slot zero_draw sample_registry ''r2''
        (snd (select_nodes_and_allocate_slot zero_draw sample_registry ''r1'' (new_router LEAST_LOADED one_slot_config))))
      \<noteq> None"
proof (intro conjI)
  show "rs_reach one_slot_config (raced_calls one_slot_config)" by (rule raced_calls_reach)
qed (code_simp)+

end
