(* ===== verification/RegistrationThreads.thy ===== *)
theory RegistrationThreads
  imports OrchestratorProps
begin

text \<open>
  The start-up of the cluster as the worker threads of the orchestrator really run it: the registration
  handler of \<open>src/cpp/nodes/worker_orchestrator.cpp\<close> takes the registry's mutex, the exchange tracker's
  mutex and the I/O worker's mutex many times, and two workers can be between two of these sections at once. A
  call is a sequence of steps, one per critical section; any number of calls are interleaved with each
  other, with the reports that a node is ready and with whatever the other handlers and the I/O
  thread do. Run alone, a call is the handler of \<open>Orchestrator\<close>.
\<close>

section \<open>One registration, step by step\<close>

text \<open>
  Where a call is: about to store the node, to store its descriptor, to register it with the tracker, to
  read the number of nodes, to copy the list of nodes; about to look up the descriptor of the next
  receiver of the broadcast; about to queue the message for a descriptor; returned; having asked for a
  mutex that it holds itself.
\<close>

datatype reg_pc =
    At_add
  | At_fd
  | At_register
  | At_count
  | At_list
  | At_lookup message "node_info list"
  | At_send int message "node_info list"
  | Reg_done
  | Reg_stuck

fun reg_step :: "env \<Rightarrow> int \<Rightarrow> message \<Rightarrow> reg_pc \<Rightarrow> orch \<Rightarrow> reg_pc \<times> orch" where
  "reg_step e fd m At_add s = (At_fd, s\<lparr>oc_registry := add_node (msg_node_info m) (oc_registry s)\<rparr>)"
| "reg_step e fd m At_fd s =
     (At_register, s\<lparr>oc_registry := add_node_fd (ni_node_id (msg_node_info m)) fd (oc_registry s)\<rparr>)"
| "reg_step e fd m At_register s =
     (case xt_register_node (ni_node_id (msg_node_info m)) (ni_role (msg_node_info m)) (oc_exchange s) of
        Relocked \<Rightarrow> (Reg_stuck, s)
      | Done (_, x) \<Rightarrow> (At_count, s\<lparr>oc_exchange := x\<rparr>))"
| "reg_step e fd m At_count s =
     (if int (get_total_registered_nodes (oc_registry s))
           = cf_expected_prefill_nodes (oc_config s) + cf_expected_decode_nodes (oc_config s)
      then At_list else Reg_done, s)"
| "reg_step e fd m At_list s =
     (let all = get_all_nodes (oc_registry s) in
      (At_lookup (create_broadcast_member_info (en_ns e 0) (en_message e) (oc_node_id s) all) all, s))"
| "reg_step e fd m (At_lookup b []) s = (Reg_done, s)"
| "reg_step e fd m (At_lookup b (n # ns)) s =
     (case get_node_fd (ni_node_id n) (oc_registry s) of
        None \<Rightarrow> (At_lookup b ns, s)
      | Some to \<Rightarrow> (At_send to b ns, s))"
| "reg_step e fd m (At_send to b ns) s = (At_lookup b ns, send_to to b s)"
| "reg_step e fd m Reg_done s = (Reg_done, s)"
| "reg_step e fd m Reg_stuck s = (Reg_stuck, s)"

fun reg_steps :: "nat \<Rightarrow> env \<Rightarrow> int \<Rightarrow> message \<Rightarrow> reg_pc \<times> orch \<Rightarrow> reg_pc \<times> orch" where
  "reg_steps 0 e fd m x = x"
| "reg_steps (Suc k) e fd m x = reg_steps k e fd m (reg_step e fd m (fst x) (snd x))"

lemma reg_steps_add: "reg_steps (j + k) e fd m x = reg_steps k e fd m (reg_steps j e fd m x)"
  by (induction j arbitrary: x) simp_all

lemma length_put: "length (put k v xs) \<le> Suc (length xs)"
  by (induction xs) auto

lemma broadcast_steps:
  "\<exists>k \<le> 1 + 2 * length ns. reg_steps k e fd m (At_lookup b ns, s) = (Reg_done, broadcast b ns s)"
proof (induction ns arbitrary: s)
  case Nil
  show ?case by (rule exI [of _ 1]) (simp add: broadcast_def)
next
  case (Cons n ns)
  show ?case
  proof (cases "get_node_fd (ni_node_id n) (oc_registry s)")
    case None
    with Cons.IH [of s] obtain k where "k \<le> 1 + 2 * length ns"
      "reg_steps (Suc k) e fd m (At_lookup b (n # ns), s) = (Reg_done, broadcast b (n # ns) s)"
      by (auto simp: broadcast_def)
    then show ?thesis by (intro exI [of _ "Suc k"]) simp
  next
    case (Some to)
    with Cons.IH [of "send_to to b s"] obtain k where "k \<le> 1 + 2 * length ns"
      "reg_steps (Suc (Suc k)) e fd m (At_lookup b (n # ns), s) = (Reg_done, broadcast b (n # ns) s)"
      by (auto simp: broadcast_def)
    then show ?thesis by (intro exI [of _ "Suc (Suc k)"]) simp
  qed
qed

text \<open>A registration that no other thread disturbs is the handler of the orchestrator's model: its critical sections,
  run one after the other, end in the state the handler returns, or in the request for the mutex the thread
  holds, within \<open>8\<close> steps and two more for every node known before.\<close>

theorem undisturbed_registration:
  "\<exists>k \<le> 8 + 2 * length (nr_nodes (oc_registry s)).
     case handle_process_rdma_registration e fd m s of
       Done s' \<Rightarrow> reg_steps k e fd m (At_add, s) = (Reg_done, s')
     | Relocked \<Rightarrow> fst (reg_steps k e fd m (At_add, s)) = Reg_stuck"
proof -
  let ?n = "msg_node_info m"
  let ?r = "add_node_fd (ni_node_id ?n) fd (add_node ?n (oc_registry s))"
  let ?s = "s\<lparr>oc_registry := ?r\<rparr>"
  have two: "reg_steps 2 e fd m (At_add, s) = (At_register, ?s)" by (simp add: numeral_2_eq_2)
  show ?thesis
  proof (cases "xt_register_node (ni_node_id ?n) (ni_role ?n) (oc_exchange s)")
    case Relocked
    then have "fst (reg_steps (2 + 1) e fd m (At_add, s)) = Reg_stuck" unfolding reg_steps_add two by simp
    then show ?thesis using Relocked
      by (intro exI [of _ 3]) (simp add: handle_process_rdma_registration_def Let_def)
  next
    case (Done bx)
    obtain b x where bx: "bx = (b, x)" by fastforce
    let ?t = "?s\<lparr>oc_exchange := x\<rparr>"
    have three: "reg_steps (2 + 1) e fd m (At_add, s) = (At_count, ?t)"
      unfolding reg_steps_add two using Done bx by simp
    show ?thesis
    proof (cases "int (get_total_registered_nodes ?r)
        = cf_expected_prefill_nodes (oc_config s) + cf_expected_decode_nodes (oc_config s)")
      case False
      have "reg_steps (2 + 1 + 1) e fd m (At_add, s) = (Reg_done, ?t)"
        unfolding reg_steps_add [of "2 + 1"] three using False by simp
      then show ?thesis using Done bx False
        by (intro exI [of _ 4]) (simp add: handle_process_rdma_registration_def Let_def)
    next
      case True
      let ?all = "get_all_nodes ?r"
      let ?b = "create_broadcast_member_info (en_ns e 0) (en_message e) (oc_node_id s) ?all"
      have "reg_steps (2 + 1 + 2) e fd m (At_add, s) = (At_lookup ?b ?all, ?t)"
        unfolding reg_steps_add [of "2 + 1"] three using True by (simp add: numeral_2_eq_2 Let_def)
      moreover obtain k where k: "k \<le> 1 + 2 * length ?all"
        "reg_steps k e fd m (At_lookup ?b ?all, ?t) = (Reg_done, broadcast ?b ?all ?t)"
        using broadcast_steps by blast
      ultimately have "reg_steps (2 + 1 + 2 + k) e fd m (At_add, s) = (Reg_done, broadcast ?b ?all ?t)"
        by (simp only: reg_steps_add [of "2 + 1 + 2"])
      moreover have "length ?all \<le> Suc (length (nr_nodes (oc_registry s)))"
        by (simp add: get_all_nodes_def add_node_fd_def add_node_def length_put)
      ultimately show ?thesis using Done bx True k(1)
        by (intro exI [of _ "5 + k"]) (simp add: handle_process_rdma_registration_def Let_def)
    qed
  qed
qed

section \<open>Concurrent registrations\<close>

text \<open>
  A call with what it was called with and where it is. The system keeps the calls made so far; whether a
  thread has asked for the tracker's mutex while it holds it; and, as history, what the calls have
  queued for whom.
\<close>

record reg_call =
  rc_env :: env
  rc_fd :: int
  rc_message :: message
  rc_pc :: reg_pc

record registrations =
  rg_orch :: orch
  rg_calls :: "reg_call list"
  rg_locked :: bool
  rg_sent :: "(int \<times> message) list"

definition no_registrations :: "orch \<Rightarrow> registrations" where
  "no_registrations s = \<lparr>rg_orch = s, rg_calls = [], rg_locked = False, rg_sent = []\<rparr>"

definition reg_begin :: "env \<Rightarrow> int \<Rightarrow> message \<Rightarrow> registrations \<Rightarrow> registrations" where
  "reg_begin e fd m g =
     g\<lparr>rg_calls := rg_calls g @ [\<lparr>rc_env = e, rc_fd = fd, rc_message = m, rc_pc = At_add\<rparr>]\<rparr>"

definition reg_call_step :: "nat \<Rightarrow> registrations \<Rightarrow> registrations" where
  "reg_call_step i g = (let c = rg_calls g ! i in
     case reg_step (rc_env c) (rc_fd c) (rc_message c) (rc_pc c) (rg_orch g) of (pc', s') \<Rightarrow>
        g\<lparr>rg_orch := s', rg_calls := (rg_calls g)[i := c\<lparr>rc_pc := pc'\<rparr>],
          rg_locked := (rg_locked g \<or> pc' = Reg_stuck),
          rg_sent := rg_sent g @ (case rc_pc c of At_send to b _ \<Rightarrow> [(to, b)] | _ \<Rightarrow> [])\<rparr>)"

definition reg_ready :: "env \<Rightarrow> int \<Rightarrow> message \<Rightarrow> registrations \<Rightarrow> registrations" where
  "reg_ready e fd m g = (case handle_ready e fd m (rg_orch g) of
     Relocked \<Rightarrow> g\<lparr>rg_locked := True\<rparr>
   | Done s' \<Rightarrow> g\<lparr>rg_orch := s'\<rparr>)"

abbreviation call_node :: "reg_call \<Rightarrow> node_info" where
  "call_node c \<equiv> msg_node_info (rc_message c)"

abbreviation call_id :: "reg_call \<Rightarrow> string" where
  "call_id c \<equiv> ni_node_id (call_node c)"

text \<open>Every node registers once. A thread cannot enter the tracker while it is locked. The other handlers and the
  I/O thread leave the registry, the tracker, the configuration and the orchestrator's own id alone.\<close>

inductive reg_reach :: "orch \<Rightarrow> registrations \<Rightarrow> bool" for s0 where
  reg_new: "reg_reach s0 (no_registrations s0)"
| reg_call: "reg_reach s0 g \<Longrightarrow> ni_node_id (msg_node_info m) \<notin> call_id ` set (rg_calls g)
    \<Longrightarrow> reg_reach s0 (reg_begin e fd m g)"
| reg_move: "reg_reach s0 g \<Longrightarrow> i < length (rg_calls g)
    \<Longrightarrow> rc_pc (rg_calls g ! i) = At_register \<longrightarrow> \<not> rg_locked g \<Longrightarrow> reg_reach s0 (reg_call_step i g)"
| reg_report: "reg_reach s0 g \<Longrightarrow> \<not> rg_locked g \<Longrightarrow> reg_reach s0 (reg_ready e fd m g)"
| reg_other: "reg_reach s0 g \<Longrightarrow> oc_registry s = oc_registry (rg_orch g) \<Longrightarrow> oc_exchange s = oc_exchange (rg_orch g)
    \<Longrightarrow> oc_config s = oc_config (rg_orch g) \<Longrightarrow> oc_node_id s = oc_node_id (rg_orch g)
    \<Longrightarrow> reg_reach s0 (g\<lparr>rg_orch := s\<rparr>)"

section \<open>Every node hears of all others\<close>

text \<open>What a call has already put into the tables: its node, its descriptor, its entry in the tracker.\<close>

definition added :: "reg_pc \<Rightarrow> bool" where "added pc \<longleftrightarrow> pc \<noteq> At_add"

definition fd_added :: "reg_pc \<Rightarrow> bool" where "fd_added pc \<longleftrightarrow> pc \<notin> {At_add, At_fd}"

definition in_tracker :: "reg_pc \<Rightarrow> bool" where "in_tracker pc \<longleftrightarrow> pc \<notin> {At_add, At_fd, At_register}"

lemmas progress_defs = added_def fd_added_def in_tracker_def

text \<open>The tables hold exactly what the calls have put there.\<close>

definition tables_ok :: "registrations \<Rightarrow> bool" where
  "tables_ok g \<longleftrightarrow> distinct (map call_id (rg_calls g))
     \<and> keys_distinct (nr_nodes (oc_registry (rg_orch g)))
     \<and> set (nr_nodes (oc_registry (rg_orch g))) = (\<lambda>c. (call_id c, call_node c)) ` {c \<in> set (rg_calls g). added (rc_pc c)}
     \<and> (\<forall>c \<in> set (rg_calls g). fd_added (rc_pc c) \<longrightarrow> get_node_fd (call_id c) (oc_registry (rg_orch g)) = Some (rc_fd c))
     \<and> (\<forall>c \<in> set (rg_calls g). call_id c \<in> set (xt_registered (oc_exchange (rg_orch g))) \<longrightarrow> in_tracker (rc_pc c))
     \<and> set (xt_registered (oc_exchange (rg_orch g))) \<subseteq> call_id ` set (rg_calls g)"

text \<open>A broadcast that lists every call's node.\<close>

definition full :: "registrations \<Rightarrow> message \<Rightarrow> bool" where
  "full g b \<longleftrightarrow> msg_type b = BROADCAST_MEMBER_INFO \<and> set (msg_membership_list_info b) = call_node ` set (rg_calls g)"

text \<open>The call brings a full broadcast to every node; \<open>ns\<close> are those it still has to serve.\<close>

definition serves :: "registrations \<Rightarrow> message \<Rightarrow> node_info list \<Rightarrow> bool" where
  "serves g b ns \<longleftrightarrow> full g b \<and> (\<forall>c \<in> set (rg_calls g). call_node c \<in> set ns \<or> (rc_fd c, b) \<in> set (rg_sent g))"

fun reaching :: "registrations \<Rightarrow> reg_pc \<Rightarrow> bool" where
  "reaching g (At_lookup b ns) = serves g b ns"
| "reaching g (At_send to b ns) = (full g b
     \<and> (\<forall>c \<in> set (rg_calls g). rc_fd c = to \<or> call_node c \<in> set ns \<or> (rc_fd c, b) \<in> set (rg_sent g)))"
| "reaching g Reg_done = (\<exists>b. serves g b [])"
| "reaching g pc = (pc \<in> {At_register, At_count, At_list})"

text \<open>Once as many calls as nodes are expected have stored their descriptors, the one that did so last reaches everybody.\<close>

definition everyone_in :: "registrations \<Rightarrow> bool" where
  "everyone_in g \<longleftrightarrow> rg_calls g \<noteq> [] \<and> (\<forall>c \<in> set (rg_calls g). fd_added (rc_pc c))
     \<and> int (length (rg_calls g))
         = cf_expected_prefill_nodes (oc_config (rg_orch g)) + cf_expected_decode_nodes (oc_config (rg_orch g))"

definition announced :: "registrations \<Rightarrow> bool" where
  "announced g \<longleftrightarrow> (everyone_in g \<longrightarrow> (\<exists>c \<in> set (rg_calls g). reaching g (rc_pc c)))"

subsection \<open>One call moves\<close>

lemma in_set_update_call:
  assumes "distinct (map f cs)" and "i < length cs" and "f c' = f (cs ! i)"
  shows "x \<in> set (cs[i := c']) \<longleftrightarrow> x = c' \<or> x \<in> set cs \<and> f x \<noteq> f c'"
proof
  assume "x \<in> set (cs[i := c'])"
  then obtain j where j: "j < length cs" "x = cs[i := c'] ! j" by (auto simp: in_set_conv_nth)
  show "x = c' \<or> x \<in> set cs \<and> f x \<noteq> f c'"
  proof (cases "j = i")
    case False
    with j assms have "x = cs ! j" "f (cs ! j) \<noteq> f (cs ! i)" by (simp_all add: distinct_conv_nth)
    with j assms(3) show ?thesis by (metis nth_mem)
  qed (use j assms(2) in simp)
next
  assume x: "x = c' \<or> x \<in> set cs \<and> f x \<noteq> f c'"
  show "x \<in> set (cs[i := c'])"
  proof (cases "x = c'")
    case False
    with x obtain j where j: "j < length cs" "x = cs ! j" "f x \<noteq> f c'" by (auto simp: in_set_conv_nth)
    then have "j \<noteq> i" using assms(3) by auto
    with j have "cs[i := c'] ! j = x" by simp
    with j(1) show ?thesis by (metis length_list_update nth_mem)
  qed (use assms(2) set_update_memI in fast)
qed

text \<open>The state after a step, seen as a set of calls: one is replaced by itself at its new place.\<close>

lemma reg_call_step_cases:
  assumes "tables_ok g" and "i < length (rg_calls g)"
  obtains c pc' s' where "rg_calls g ! i = c" "c \<in> set (rg_calls g)"
    "reg_step (rc_env c) (rc_fd c) (rc_message c) (rc_pc c) (rg_orch g) = (pc', s')"
    "\<And>x. x \<in> set (rg_calls (reg_call_step i g)) \<longleftrightarrow> x = c\<lparr>rc_pc := pc'\<rparr> \<or> x \<in> set (rg_calls g) \<and> call_id x \<noteq> call_id c"
    "map call_id (rg_calls (reg_call_step i g)) = map call_id (rg_calls g)"
    "\<And>x. x \<in> set (rg_calls g) \<Longrightarrow> call_id x = call_id c \<Longrightarrow> x = c"
    "rg_orch (reg_call_step i g) = s'" "set (rg_sent g) \<subseteq> set (rg_sent (reg_call_step i g))"
    "\<And>to b ns. rc_pc c = At_send to b ns \<Longrightarrow> (to, b) \<in> set (rg_sent (reg_call_step i g))"
proof -
  let ?c = "rg_calls g ! i"
  obtain pc' s' where st: "reg_step (rc_env ?c) (rc_fd ?c) (rc_message ?c) (rc_pc ?c) (rg_orch g) = (pc', s')" by fastforce
  have d: "distinct (map call_id (rg_calls g))" using assms(1) by (simp add: tables_ok_def)
  have calls: "rg_calls (reg_call_step i g) = (rg_calls g)[i := ?c\<lparr>rc_pc := pc'\<rparr>]"
    using st by (simp add: reg_call_step_def Let_def)
  have "x \<in> set (rg_calls (reg_call_step i g)) \<longleftrightarrow> x = ?c\<lparr>rc_pc := pc'\<rparr> \<or> x \<in> set (rg_calls g) \<and> call_id x \<noteq> call_id ?c" for x
    unfolding calls using in_set_update_call [OF d assms(2), of "?c\<lparr>rc_pc := pc'\<rparr>" x] by simp
  moreover have "map call_id (rg_calls (reg_call_step i g)) = map call_id (rg_calls g)"
    using assms(2) unfolding calls by (intro nth_equalityI) (auto simp: nth_list_update)
  moreover have "x = ?c" if "x \<in> set (rg_calls g)" "call_id x = call_id ?c" for x
    using d assms(2) that by (auto simp: distinct_map dest: inj_onD)
  ultimately show ?thesis using st assms(2) by (intro that [of ?c pc' s']) (auto simp: reg_call_step_def Let_def)
qed

lemma reg_step_keeps:
  "reg_step e fd m pc s = (pc', s') \<Longrightarrow> oc_config s' = oc_config s \<and> oc_node_id s' = oc_node_id s"
  by (cases "(e, fd, m, pc, s)" rule: reg_step.cases) (auto simp: send_to_def Let_def split: option.splits lock_outcome.splits)

lemma reg_step_marks:
  assumes "reg_step e fd m pc s = (pc', s')"
  shows "fd_added pc' \<longleftrightarrow> fd_added pc \<or> pc = At_fd" and "added pc'"
    and "in_tracker pc' \<longleftrightarrow> fd_added pc"
    and "oc_registry s' = (if pc = At_add then add_node (msg_node_info m) (oc_registry s)
      else if pc = At_fd then add_node_fd (ni_node_id (msg_node_info m)) fd (oc_registry s) else oc_registry s)"
    and "pc \<noteq> At_register \<Longrightarrow> oc_exchange s' = oc_exchange s"
    and "pc = At_register \<Longrightarrow> ni_node_id (msg_node_info m) \<notin> set (xt_registered (oc_exchange s)) \<Longrightarrow> pc' = At_count
      \<and> set (xt_registered (oc_exchange s')) = insert (ni_node_id (msg_node_info m)) (set (xt_registered (oc_exchange s)))"
  using assms
  by (cases "(e, fd, m, pc, s)" rule: reg_step.cases;
      auto simp: progress_defs send_to_def xt_register_node_def all_nodes_registered_def lock_section_def Let_def
        split: option.splits lock_outcome.splits if_splits)+

lemma set_put_new: "k \<notin> fst ` set xs \<Longrightarrow> set (put k v xs) = insert (k, v) (set xs)"
  by (induction xs) auto

lemma tables_step:
  assumes "tables_ok g" and "i < length (rg_calls g)"
  shows "tables_ok (reg_call_step i g)"
proof -
  obtain c pc' s' where c: "rg_calls g ! i = c" "c \<in> set (rg_calls g)"
    and st: "reg_step (rc_env c) (rc_fd c) (rc_message c) (rc_pc c) (rg_orch g) = (pc', s')"
    and mem: "\<And>x. x \<in> set (rg_calls (reg_call_step i g)) \<longleftrightarrow> x = c\<lparr>rc_pc := pc'\<rparr> \<or> x \<in> set (rg_calls g) \<and> call_id x \<noteq> call_id c"
    and ids: "map call_id (rg_calls (reg_call_step i g)) = map call_id (rg_calls g)"
    and uniq: "\<And>x. x \<in> set (rg_calls g) \<Longrightarrow> call_id x = call_id c \<Longrightarrow> x = c"
    and orch: "rg_orch (reg_call_step i g) = s'"
    by (rule reg_call_step_cases [OF assms]) blast
  note marks = reg_step_marks [OF st]
  let ?nodes = "nr_nodes (oc_registry (rg_orch g))"
  have nodes: "set ?nodes = (\<lambda>c. (call_id c, call_node c)) ` {c \<in> set (rg_calls g). added (rc_pc c)}"
    and fds: "\<And>x. x \<in> set (rg_calls g) \<Longrightarrow> fd_added (rc_pc x) \<Longrightarrow> get_node_fd (call_id x) (oc_registry (rg_orch g)) = Some (rc_fd x)"
    and tr: "\<And>x. x \<in> set (rg_calls g) \<Longrightarrow> call_id x \<in> set (xt_registered (oc_exchange (rg_orch g))) \<Longrightarrow> in_tracker (rc_pc x)"
    and kd: "keys_distinct ?nodes" and d: "distinct (map call_id (rg_calls g))"
    using assms(1) by (simp_all add: tables_ok_def)
  have 1: "keys_distinct (nr_nodes (oc_registry s'))"
    using kd by (simp add: marks(4) add_node_def add_node_fd_def)
  have 2: "set (nr_nodes (oc_registry s'))
      = (\<lambda>c. (call_id c, call_node c)) ` {x \<in> set (rg_calls (reg_call_step i g)). added (rc_pc x)}"
  proof -
    let ?e = "\<lambda>c. (call_id c, call_node c)"
    let ?rest = "?e ` {x \<in> set (rg_calls g). call_id x \<noteq> call_id c \<and> added (rc_pc x)}"
    have "{x \<in> set (rg_calls (reg_call_step i g)). added (rc_pc x)}
        = insert (c\<lparr>rc_pc := pc'\<rparr>) {x \<in> set (rg_calls g). call_id x \<noteq> call_id c \<and> added (rc_pc x)}"
      using marks(2) mem by auto
    then have new: "?e ` {x \<in> set (rg_calls (reg_call_step i g)). added (rc_pc x)} = insert (?e c) ?rest" by simp
    have "{x \<in> set (rg_calls g). added (rc_pc x)}
        = (if added (rc_pc c) then {c} else {}) \<union> {x \<in> set (rg_calls g). call_id x \<noteq> call_id c \<and> added (rc_pc x)}"
      using uniq c(2) by auto
    then have old: "set ?nodes = (if added (rc_pc c) then {?e c} else {}) \<union> ?rest" unfolding nodes by auto
    show ?thesis
    proof (cases "rc_pc c = At_add")
      case True
      then have "set ?nodes = ?rest" by (simp add: old added_def)
      then have "call_id c \<notin> fst ` set ?nodes" by auto
      then show ?thesis unfolding new using True \<open>set ?nodes = ?rest\<close> by (simp add: marks(4) add_node_def set_put_new)
    next
      case False
      then show ?thesis unfolding new using old by (simp add: marks(4) add_node_fd_def added_def)
    qed
  qed
  have 3: "get_node_fd (call_id x) (oc_registry s') = Some (rc_fd x)"
    if "x \<in> set (rg_calls (reg_call_step i g))" "fd_added (rc_pc x)" for x
    using that fds c(2) marks(1) by (auto simp: mem marks(4))
  have 4: "in_tracker (rc_pc x)"
    if "x \<in> set (rg_calls (reg_call_step i g))" "call_id x \<in> set (xt_registered (oc_exchange s'))" for x
  proof (cases "rc_pc c = At_register")
    case True
    then have "call_id c \<notin> set (xt_registered (oc_exchange (rg_orch g)))"
      using tr [OF c(2)] by (auto simp: in_tracker_def)
    then show ?thesis using marks(6) [OF True] that tr by (auto simp: mem in_tracker_def)
  next
    case False
    have "in_tracker (rc_pc c) \<Longrightarrow> in_tracker pc'" unfolding marks(3) by (auto simp: progress_defs)
    then show ?thesis using that tr c(2) by (auto simp: mem marks(5) [OF False])
  qed
  have "set (map call_id (rg_calls (reg_call_step i g))) = set (map call_id (rg_calls g))" by (simp only: ids)
  moreover have "set (xt_registered (oc_exchange s')) \<subseteq> insert (call_id c) (set (xt_registered (oc_exchange (rg_orch g))))"
    using marks(5,6) tr [OF c(2)] by (cases "rc_pc c = At_register") (auto simp: in_tracker_def)
  ultimately have "set (xt_registered (oc_exchange s')) \<subseteq> call_id ` set (rg_calls (reg_call_step i g))"
    using assms(1) c(2) by (auto simp: tables_ok_def)
  then show ?thesis using 1 2 3 4 d by (simp add: tables_ok_def orch ids)
qed

lemma count_nodes:
  assumes "tables_ok g" and "\<forall>c \<in> set (rg_calls g). added (rc_pc c)"
  shows "get_total_registered_nodes (oc_registry (rg_orch g)) = length (rg_calls g)"
    and "set (get_all_nodes (oc_registry (rg_orch g))) = call_node ` set (rg_calls g)"
proof -
  let ?nodes = "nr_nodes (oc_registry (rg_orch g))"
  have nodes: "set ?nodes = (\<lambda>c. (call_id c, call_node c)) ` set (rg_calls g)"
    using assms by (auto simp: tables_ok_def)
  have "length ?nodes = card (fst ` set ?nodes)"
    using assms(1) distinct_card [of "map fst ?nodes"] by (simp add: tables_ok_def)
  also have "fst ` set ?nodes = call_id ` set (rg_calls g)" unfolding nodes by force
  also have "card \<dots> = length (rg_calls g)"
    using assms(1) distinct_card [of "map call_id (rg_calls g)"] by (simp add: tables_ok_def)
  finally show "get_total_registered_nodes (oc_registry (rg_orch g)) = length (rg_calls g)"
    by (simp add: get_total_registered_nodes_def)
  show "set (get_all_nodes (oc_registry (rg_orch g))) = call_node ` set (rg_calls g)"
    by (simp add: get_all_nodes_def nodes image_comp comp_def)
qed

text \<open>What reaches everybody in one state does so in the next, when another call moves.\<close>

lemma reaching_mono:
  assumes "reaching g pc" and "\<And>x. x \<in> set (rg_calls g') \<Longrightarrow> \<exists>y \<in> set (rg_calls g). call_node y = call_node x \<and> rc_fd y = rc_fd x"
    and "call_node ` set (rg_calls g') = call_node ` set (rg_calls g)" and "set (rg_sent g) \<subseteq> set (rg_sent g')"
  shows "reaching g' pc"
proof -
  have full: "full g' b = full g b" for b by (simp add: full_def assms(3))
  have serves: "serves g' b ns" if s: "serves g b ns" for b ns
  proof -
    have "call_node x \<in> set ns \<or> (rc_fd x, b) \<in> set (rg_sent g')" if "x \<in> set (rg_calls g')" for x
      using assms(2) [OF that] s assms(4) by (force simp: serves_def)
    with s show ?thesis by (simp add: serves_def full)
  qed
  show ?thesis
  proof (cases pc)
    case (At_send to b ns)
    have "rc_fd x = to \<or> call_node x \<in> set ns \<or> (rc_fd x, b) \<in> set (rg_sent g')" if "x \<in> set (rg_calls g')" for x
      using assms(2) [OF that] assms(1,4) At_send by force
    with assms(1) At_send show ?thesis by (simp add: full)
  qed (use assms(1) serves in auto)
qed

text \<open>The call that reaches everybody keeps doing so when it moves itself.\<close>

lemma reaching_moves:
  assumes "tables_ok g" and "everyone_in g" and "c \<in> set (rg_calls g)" and "reaching g (rc_pc c)"
    and "reg_step (rc_env c) (rc_fd c) (rc_message c) (rc_pc c) (rg_orch g) = (pc', s')"
    and "\<And>x. x \<in> set (rg_calls g') \<Longrightarrow> \<exists>y \<in> set (rg_calls g). call_node y = call_node x \<and> rc_fd y = rc_fd x"
    and "call_node ` set (rg_calls g') = call_node ` set (rg_calls g)" and "set (rg_sent g) \<subseteq> set (rg_sent g')"
    and "\<And>to b ns. rc_pc c = At_send to b ns \<Longrightarrow> (to, b) \<in> set (rg_sent g')"
  shows "reaching g' pc'"
proof (cases "rc_pc c")
  case At_register
  then have "call_id c \<notin> set (xt_registered (oc_exchange (rg_orch g)))"
    using assms(1,3) by (auto simp: tables_ok_def in_tracker_def)
  then show ?thesis using reg_step_marks(6) [OF assms(5)] At_register by simp
next
  case At_count
  have all: "\<forall>x \<in> set (rg_calls g). added (rc_pc x)" using assms(2) by (auto simp: everyone_in_def progress_defs)
  show ?thesis using assms(2,5) At_count by (auto simp: count_nodes(1) [OF assms(1) all] everyone_in_def)
next
  case At_list
  have all: "\<forall>x \<in> set (rg_calls g). added (rc_pc x)" using assms(2) by (auto simp: everyone_in_def progress_defs)
  have "call_node x \<in> call_node ` set (rg_calls g)" if "x \<in> set (rg_calls g')" for x
    using imageI [OF that, of call_node] assms(7) by simp
  then show ?thesis using assms(5,7) At_list count_nodes(2) [OF assms(1) all]
    by (auto simp: Let_def serves_def full_def create_broadcast_member_info_def)
next
  case (At_lookup b ns)
  then have sv: "serves g b ns" using assms(4) by simp
  have fds: "get_node_fd (call_id x) (oc_registry (rg_orch g)) = Some (rc_fd x)" if "x \<in> set (rg_calls g)" for x
    using assms(1,2) that by (simp add: tables_ok_def everyone_in_def)
  have "reaching g pc'"
  proof (cases ns)
    case Nil
    then show ?thesis using assms(5) At_lookup sv by auto
  next
    case (Cons n ms)
    show ?thesis
    proof (cases "get_node_fd (ni_node_id n) (oc_registry (rg_orch g))")
      case None
      then have "\<forall>x \<in> set (rg_calls g). call_node x \<noteq> n" using fds by force
      then show ?thesis using assms(5) At_lookup Cons None sv by (auto simp: serves_def)
    next
      case (Some to)
      then have "\<forall>x \<in> set (rg_calls g). call_node x = n \<longrightarrow> rc_fd x = to" using fds by force
      moreover have "pc' = At_send to b ms" using assms(5) At_lookup Cons Some by simp
      ultimately show ?thesis using sv Cons by (simp add: serves_def) blast
    qed
  qed
  then show ?thesis by (rule reaching_mono) (use assms(6-8) in auto)
next
  case (At_send to b ns)
  have "reaching g' (At_send to b ns)"
    by (rule reaching_mono [OF _ assms(6-8)]) (use assms(4) At_send in simp_all)
  then show ?thesis using assms(5,9) At_send by (auto simp: serves_def)
next
  case Reg_done
  then show ?thesis using assms(5) reaching_mono [OF assms(4,6-8)] by auto
qed (use assms(4) in auto)

lemma announced_step:
  assumes "tables_ok g" and "announced g" and "i < length (rg_calls g)"
  shows "announced (reg_call_step i g)"
proof -
  let ?g = "reg_call_step i g"
  obtain c pc' s' where c: "c \<in> set (rg_calls g)"
    and st: "reg_step (rc_env c) (rc_fd c) (rc_message c) (rc_pc c) (rg_orch g) = (pc', s')"
    and mem: "\<And>x. x \<in> set (rg_calls ?g) \<longleftrightarrow> x = c\<lparr>rc_pc := pc'\<rparr> \<or> x \<in> set (rg_calls g) \<and> call_id x \<noteq> call_id c"
    and ids: "map call_id (rg_calls ?g) = map call_id (rg_calls g)"
    and uniq: "\<And>x. x \<in> set (rg_calls g) \<Longrightarrow> call_id x = call_id c \<Longrightarrow> x = c"
    and orch: "rg_orch ?g = s'" and sent: "set (rg_sent g) \<subseteq> set (rg_sent ?g)"
    and sends: "\<And>to b ns. rc_pc c = At_send to b ns \<Longrightarrow> (to, b) \<in> set (rg_sent ?g)"
    by (rule reg_call_step_cases [OF assms(1,3)]) blast
  note marks = reg_step_marks [OF st]
  have cfg: "oc_config s' = oc_config (rg_orch g)" using reg_step_keeps [OF st] by simp
  have same: "\<exists>y \<in> set (rg_calls g). call_node y = call_node x \<and> rc_fd y = rc_fd x" if "x \<in> set (rg_calls ?g)" for x
    using that c by (auto simp: mem)
  have sub: "call_node x \<in> call_node ` set (rg_calls ?g)" if "x \<in> set (rg_calls g)" for x
  proof (cases "call_id x = call_id c")
    case True
    then have "call_node x = call_node (c\<lparr>rc_pc := pc'\<rparr>)" using uniq [OF that] by simp
    then show ?thesis using mem by blast
  qed (use that mem in blast)
  have "call_node x \<in> call_node ` set (rg_calls g)" if "x \<in> set (rg_calls ?g)" for x
    using same [OF that] by (metis imageI)
  with sub have nodes: "call_node ` set (rg_calls ?g) = call_node ` set (rg_calls g)" by blast
  have c': "c\<lparr>rc_pc := pc'\<rparr> \<in> set (rg_calls ?g)" by (simp add: mem)
  have "\<exists>x \<in> set (rg_calls ?g). reaching ?g (rc_pc x)" if every: "everyone_in ?g"
  proof (cases "rc_pc c = At_fd")
    case True
    then have "pc' = At_register" using st by auto
    then have "reaching ?g (rc_pc (c\<lparr>rc_pc := pc'\<rparr>))" by simp
    with c' show ?thesis by blast
  next
    case False
    have "fd_added (rc_pc x)" if "x \<in> set (rg_calls g)" for x
    proof (cases "x = c")
      case True
      then show ?thesis using every c' False marks(1) by (auto simp: everyone_in_def)
    next
      case False
      then have "x \<in> set (rg_calls ?g)" using that uniq mem by blast
      then show ?thesis using every by (simp add: everyone_in_def)
    qed
    moreover have "length (rg_calls ?g) = length (rg_calls g)" using ids by (metis length_map)
    ultimately have "everyone_in g" using every c by (auto simp: everyone_in_def orch cfg)
    with assms(2) obtain d where d: "d \<in> set (rg_calls g)" "reaching g (rc_pc d)" by (auto simp: announced_def)
    show ?thesis
    proof (cases "d = c")
      case True
      have "reaching ?g pc'"
        by (rule reaching_moves [OF assms(1) \<open>everyone_in g\<close> c _ st same nodes sent sends]) (use d True in simp_all)
      with c' show ?thesis by force
    next
      case False
      then have "d \<in> set (rg_calls ?g)" using d(1) uniq mem by blast
      with reaching_mono [OF d(2) same nodes sent] show ?thesis by blast
    qed
  qed
  then show ?thesis by (simp add: announced_def)
qed

lemma reg_ready_keeps:
  "oc_registry (rg_orch (reg_ready e fd m g)) = oc_registry (rg_orch g)"
  "oc_config (rg_orch (reg_ready e fd m g)) = oc_config (rg_orch g)"
  "xt_registered (oc_exchange (rg_orch (reg_ready e fd m g))) = xt_registered (oc_exchange (rg_orch g))"
  "rg_calls (reg_ready e fd m g) = rg_calls g" "rg_sent (reg_ready e fd m g) = rg_sent g"
  by (auto simp: reg_ready_def handle_ready_def mark_node_ready_def Let_def split: lock_outcome.splits)

text \<open>Both invariants mention the state only through these parts.\<close>

lemma registrations_cong:
  assumes "oc_registry (rg_orch g') = oc_registry (rg_orch g)" "oc_config (rg_orch g') = oc_config (rg_orch g)"
    "xt_registered (oc_exchange (rg_orch g')) = xt_registered (oc_exchange (rg_orch g))"
    "rg_calls g' = rg_calls g" "rg_sent g' = rg_sent g"
  shows "tables_ok g' = tables_ok g" and "announced g' = announced g"
proof -
  have "reaching g' pc = reaching g pc" for pc
    using reaching_mono [of g pc g'] reaching_mono [of g' pc g] assms(4,5) by auto
  then show "announced g' = announced g" by (simp add: announced_def everyone_in_def assms)
qed (simp add: tables_ok_def assms)

lemma reg_reach_inv:
  assumes "reg_reach s0 g" and "oc_registry s0 = new_registry" and "xt_registered (oc_exchange s0) = []"
  shows "tables_ok g \<and> announced g \<and> oc_config (rg_orch g) = oc_config s0"
  using assms(1)
proof induction
  case reg_new
  show ?case using assms(2,3)
    by (simp add: tables_ok_def announced_def everyone_in_def no_registrations_def new_registry_def)
next
  case (reg_call g m e fd)
  let ?g = "reg_begin e fd m g"
  have "tables_ok ?g" using reg_call.IH reg_call.hyps(2) by (auto simp: tables_ok_def reg_begin_def progress_defs)
  moreover have "announced ?g" by (simp add: announced_def everyone_in_def reg_begin_def fd_added_def)
  ultimately show ?case using reg_call.IH by (simp add: reg_begin_def)
next
  case (reg_move g i)
  have "oc_config (rg_orch (reg_call_step i g)) = oc_config (rg_orch g)"
    by (auto simp: reg_call_step_def Let_def dest: reg_step_keeps split: prod.split)
  then show ?case using tables_step announced_step reg_move.IH reg_move.hyps(2) by simp
next
  case (reg_report g e fd m)
  then show ?case
    using registrations_cong [OF reg_ready_keeps(1,2,3,4,5) [of e fd m g]] by (simp add: reg_ready_keeps)
next
  case (reg_other g s)
  let ?g = "g\<lparr>rg_orch := s\<rparr>"
  have "tables_ok ?g = tables_ok g" "announced ?g = announced g"
    by (rule registrations_cong; simp add: reg_other.hyps)+
  then show ?case using reg_other by simp
qed

text \<open>C23 Under every interleaving of the registrations of the expected nodes, with each other, with ready reports and with the
  rest of the orchestrator, once all of them have returned some broadcast that lists every node has been
  queued on every node's connection: no node is left out, whichever worker counted first.\<close>

theorem registrations_reach_everyone:
  assumes "reg_reach s0 g" and "oc_registry s0 = new_registry" and "xt_registered (oc_exchange s0) = []"
    and "int (length (rg_calls g)) = cf_expected_prefill_nodes (oc_config s0) + cf_expected_decode_nodes (oc_config s0)"
    and "rg_calls g \<noteq> []" and "\<forall>c \<in> set (rg_calls g). rc_pc c = Reg_done"
  shows "\<exists>b. msg_type b = BROADCAST_MEMBER_INFO \<and> set (msg_membership_list_info b) = call_node ` set (rg_calls g)
    \<and> (\<forall>c \<in> set (rg_calls g). (rc_fd c, b) \<in> set (rg_sent g))"
proof -
  have inv: "announced g" "oc_config (rg_orch g) = oc_config s0" using reg_reach_inv [OF assms(1-3)] by simp_all
  have "everyone_in g" using assms(4-6) by (simp add: everyone_in_def inv(2) fd_added_def)
  with inv(1) assms(6) have "reaching g Reg_done" by (auto simp: announced_def)
  then show ?thesis by (auto simp: serves_def full_def)
qed

section \<open>Two registrations at once\<close>

definition run_calls :: "nat list \<Rightarrow> registrations \<Rightarrow> registrations" where
  "run_calls is g = foldl (\<lambda>g i. reg_call_step i g) g is"

lemma run_calls_simps [simp]:
  "run_calls [] g = g" "run_calls (i # is) g = run_calls is (reg_call_step i g)"
  by (simp_all add: run_calls_def)

lemma reg_call_step_keeps:
  "length (rg_calls (reg_call_step i g)) = length (rg_calls g)" "rg_locked g \<Longrightarrow> rg_locked (reg_call_step i g)"
  by (simp_all add: reg_call_step_def Let_def split: prod.split)

lemma run_calls_locked: "rg_locked g \<Longrightarrow> rg_locked (run_calls is g)"
  by (induction "is" arbitrary: g) (simp_all add: reg_call_step_keeps)

lemma reg_reach_run:
  "reg_reach s g \<Longrightarrow> \<forall>i \<in> set is. i < length (rg_calls g) \<Longrightarrow> \<not> rg_locked (run_calls is g) \<Longrightarrow> reg_reach s (run_calls is g)"
proof (induction "is" arbitrary: g)
  case (Cons i "is")
  then have "\<not> rg_locked g" using run_calls_locked [of g "i # is"] by auto
  then have "reg_reach s (reg_call_step i g)" using Cons.prems by (intro reg_move) simp_all
  then show ?case using Cons by (simp add: reg_call_step_keeps)
qed simp

text \<open>The first call returns before the second begins; or the two take turns until both have counted.\<close>

definition one_by_one :: "nat list" where
  "one_by_one = replicate 4 0 @ replicate 10 1"

definition taking_turns :: "nat list" where
  "taking_turns = [0, 1, 0, 1, 0, 1, 0, 1] @ replicate 6 0 @ replicate 6 1"

definition broadcasts_to :: "int \<Rightarrow> registrations \<Rightarrow> nat" where
  "broadcasts_to fd g = length (filter (\<lambda>(to, b). to = fd \<and> msg_type b = BROADCAST_MEMBER_INFO) (rg_sent g))"

text \<open>A step of either of two calls.\<close>

abbreviation two_calls :: "orch \<Rightarrow> reg_call \<Rightarrow> reg_call \<Rightarrow> (int \<times> message) list \<Rightarrow> registrations" where
  "two_calls s c0 c1 sent \<equiv> \<lparr>rg_orch = s, rg_calls = [c0, c1], rg_locked = False, rg_sent = sent\<rparr>"

lemma step_of_two:
  "reg_step e fd m pc s = (pc', s') \<Longrightarrow> pc' \<noteq> Reg_stuck \<Longrightarrow> reg_call_step 0 (two_calls s \<lparr>rc_env = e, rc_fd = fd, rc_message = m, rc_pc = pc\<rparr> c1 sent)
     = two_calls s' \<lparr>rc_env = e, rc_fd = fd, rc_message = m, rc_pc = pc'\<rparr> c1 (sent @ (case pc of At_send to b _ \<Rightarrow> [(to, b)] | _ \<Rightarrow> []))"
  "reg_step e fd m pc s = (pc', s') \<Longrightarrow> pc' \<noteq> Reg_stuck \<Longrightarrow> reg_call_step (Suc 0) (two_calls s c0 \<lparr>rc_env = e, rc_fd = fd, rc_message = m, rc_pc = pc\<rparr> sent)
     = two_calls s' c0 \<lparr>rc_env = e, rc_fd = fd, rc_message = m, rc_pc = pc'\<rparr> (sent @ (case pc of At_send to b _ \<Rightarrow> [(to, b)] | _ \<Rightarrow> []))"
  by (simp_all add: reg_call_step_def)

text \<open>The broadcast of a call that knows two nodes.\<close>

definition knows_two :: "node_info \<Rightarrow> int \<Rightarrow> node_info \<Rightarrow> int \<Rightarrow> orch \<Rightarrow> bool" where
  "knows_two n0 fd0 n1 fd1 s \<longleftrightarrow> get_all_nodes (oc_registry s) = [n0, n1]
     \<and> get_node_fd (ni_node_id n0) (oc_registry s) = Some fd0 \<and> get_node_fd (ni_node_id n1) (oc_registry s) = Some fd1"

lemma knows_two_send [simp]: "knows_two n0 fd0 n1 fd1 (send_to fd b s) = knows_two n0 fd0 n1 fd1 s"
  by (simp add: knows_two_def)

lemma broadcast_of_two:
  fixes e :: env and s :: orch and n0 n1 :: node_info
  assumes "knows_two n0 fd0 n1 fd1 s"
  defines "b \<equiv> create_broadcast_member_info (en_ns e 0) (en_message e) (oc_node_id s) [n0, n1]"
  defines "t \<equiv> send_to fd1 b (send_to fd0 b s)"
  shows "run_calls (replicate 6 0) (two_calls s \<lparr>rc_env = e, rc_fd = fd, rc_message = m, rc_pc = At_list\<rparr> c sent)
      = two_calls t \<lparr>rc_env = e, rc_fd = fd, rc_message = m, rc_pc = Reg_done\<rparr> c (sent @ [(fd0, b), (fd1, b)])"
    and "run_calls (replicate 6 1) (two_calls s c \<lparr>rc_env = e, rc_fd = fd, rc_message = m, rc_pc = At_list\<rparr> sent)
      = two_calls t c \<lparr>rc_env = e, rc_fd = fd, rc_message = m, rc_pc = Reg_done\<rparr> (sent @ [(fd0, b), (fd1, b)])"
proof -
  have list: "reg_step e fd m At_list s = (At_lookup b [n0, n1], s)"
    using assms(1) by (simp add: knows_two_def b_def Let_def)
  have look0: "reg_step e fd m (At_lookup b [n0, n1]) s = (At_send fd0 b [n1], s)"
    and look1: "reg_step e fd m (At_lookup b [n1]) (send_to fd0 b s) = (At_send fd1 b [], send_to fd0 b s)"
    using assms(1) by (simp_all add: knows_two_def)
  have six: "replicate 6 i = [i, i, i, i, i, i]" for i :: nat by (simp add: numeral_eq_Suc)
  show "run_calls (replicate 6 0) (two_calls s \<lparr>rc_env = e, rc_fd = fd, rc_message = m, rc_pc = At_list\<rparr> c sent)
      = two_calls t \<lparr>rc_env = e, rc_fd = fd, rc_message = m, rc_pc = Reg_done\<rparr> c (sent @ [(fd0, b), (fd1, b)])"
    by (simp add: six step_of_two(1) [OF list] step_of_two(1) [OF look0] step_of_two(1) [OF look1]
        step_of_two(1) [OF reg_step.simps(8)] step_of_two(1) [OF reg_step.simps(6)] t_def)
  show "run_calls (replicate 6 1) (two_calls s c \<lparr>rc_env = e, rc_fd = fd, rc_message = m, rc_pc = At_list\<rparr> sent)
      = two_calls t c \<lparr>rc_env = e, rc_fd = fd, rc_message = m, rc_pc = Reg_done\<rparr> (sent @ [(fd0, b), (fd1, b)])"
    by (simp add: six step_of_two(2) [OF list] step_of_two(2) [OF look0] step_of_two(2) [OF look1]
        step_of_two(2) [OF reg_step.simps(8)] step_of_two(2) [OF reg_step.simps(6)] t_def)
qed

text \<open>The tables after one and after both registrations.\<close>

abbreviation at_step :: "env \<Rightarrow> int \<Rightarrow> message \<Rightarrow> reg_pc \<Rightarrow> reg_call" where
  "at_step e fd m pc \<equiv> \<lparr>rc_env = e, rc_fd = fd, rc_message = m, rc_pc = pc\<rparr>"

lemma register_fresh:
  assumes "nid \<notin> set (xt_registered t)"
  obtains b t' where "xt_register_node nid role t = Done (b, t')" "xt_ready t' = xt_ready t"
    "set (xt_registered t') = insert nid (set (xt_registered t))"
  using assms by (auto simp: xt_register_node_def Let_def)

lemma table_steps:
  fixes m0 m1 :: message and s :: orch
  assumes "oc_registry s = new_registry" and "oc_exchange s = new_exchange p d"
    and "cf_expected_prefill_nodes (oc_config s) + cf_expected_decode_nodes (oc_config s) = 2"
    and "ni_node_id (msg_node_info m0) \<noteq> ni_node_id (msg_node_info m1)"
  obtains t where "knows_two (msg_node_info m0) fd0 (msg_node_info m1) fd1 t" "xt_ready (oc_exchange t) = []"
    "set (xt_registered (oc_exchange t)) = {ni_node_id (msg_node_info m0), ni_node_id (msg_node_info m1)}"
    "run_calls [0, 0, 0, 0, 1, 1, 1, 1] (two_calls s (at_step e0 fd0 m0 At_add) (at_step e1 fd1 m1 At_add) [])
      = two_calls t (at_step e0 fd0 m0 Reg_done) (at_step e1 fd1 m1 At_list) []"
    "run_calls [0, 1, 0, 1, 0, 1, 0, 1] (two_calls s (at_step e0 fd0 m0 At_add) (at_step e1 fd1 m1 At_add) [])
      = two_calls t (at_step e0 fd0 m0 At_list) (at_step e1 fd1 m1 At_list) []"
proof -
  let ?n0 = "msg_node_info m0" and ?n1 = "msg_node_info m1"
  let ?id0 = "ni_node_id ?n0" and ?id1 = "ni_node_id ?n1"
  let ?R = "\<lparr>nr_nodes = [(?id0, ?n0), (?id1, ?n1)], nr_fds = [(?id0, fd0), (?id1, fd1)]\<rparr>"
  have "?id0 \<notin> set (xt_registered (new_exchange p d))" by (simp add: new_exchange_def)
  from register_fresh [OF this] obtain b0 x0 where x0:
    "xt_register_node ?id0 (ni_role ?n0) (new_exchange p d) = Done (b0, x0)" "xt_ready x0 = []" "set (xt_registered x0) = {?id0}"
    by (auto simp: new_exchange_def)
  then have "?id1 \<notin> set (xt_registered x0)" using assms(4) by simp
  from register_fresh [OF this, of "ni_role ?n1"] obtain b1 x1 where
    "xt_register_node ?id1 (ni_role ?n1) x0 = Done (b1, x1)" "xt_ready x1 = []"
    "set (xt_registered x1) = insert ?id1 {?id0}" unfolding x0(2,3) by blast
  then have "xt_register_node ?id1 (ni_role ?n1) x0 = Done (b1, x1)" "xt_ready x1 = []"
    "set (xt_registered x1) = {?id0, ?id1}" by (simp_all add: insert_commute)
  note x = x0(1) this
  let ?t = "s\<lparr>oc_registry := ?R, oc_exchange := x1\<rparr>"
  note run = reg_call_step_def Let_def add_node_def add_node_fd_def new_registry_def get_total_registered_nodes_def
  show ?thesis
  proof (rule that [of ?t])
    show "knows_two ?n0 fd0 ?n1 fd1 ?t"
      using assms(4) by (simp add: knows_two_def get_all_nodes_def get_node_fd_def)
    show "run_calls [0, 0, 0, 0, 1, 1, 1, 1] (two_calls s (at_step e0 fd0 m0 At_add) (at_step e1 fd1 m1 At_add) [])
      = two_calls ?t (at_step e0 fd0 m0 Reg_done) (at_step e1 fd1 m1 At_list) []"
      using assms x by (simp add: run)
    show "run_calls [0, 1, 0, 1, 0, 1, 0, 1] (two_calls s (at_step e0 fd0 m0 At_add) (at_step e1 fd1 m1 At_add) [])
      = two_calls ?t (at_step e0 fd0 m0 At_list) (at_step e1 fd1 m1 At_list) []"
      using assms x by (simp add: run)
  qed (use x in simp_all)
qed

lemma broadcast_type: "msg_type (create_broadcast_member_info now gm src ns) = BROADCAST_MEMBER_INFO"
  by (simp add: create_broadcast_member_info_def)

lemma run_calls_append: "run_calls (is @ js) g = run_calls js (run_calls is g)"
  by (simp add: run_calls_def)

text \<open>A node that is registered and reports ready twice stops the worker that handles the second report.\<close>

lemma two_reports_relock:
  assumes "msg_source_node_id r \<in> set (xt_registered (oc_exchange s))" and "msg_source_node_id r \<notin> set (xt_ready (oc_exchange s))"
    and "msg_type r = RDMA_READY" and "msg_type r' = RDMA_READY" and "msg_source_node_id r' = msg_source_node_id r"
  shows "worker_loop es [(fd, r), (fd, r')] s = Relocked"
  using assms by (simp add: orch_process_event_def handle_ready_def mark_node_ready_def all_nodes_ready_def lock_section_def Let_def)

text \<open>Both ways to run two registrations, to the end.\<close>

lemma two_runs:
  fixes m0 m1 :: message and s :: orch
  assumes "oc_registry s = new_registry" and "oc_exchange s = new_exchange p d"
    and "cf_expected_prefill_nodes (oc_config s) + cf_expected_decode_nodes (oc_config s) = 2"
    and "ni_node_id (msg_node_info m0) \<noteq> ni_node_id (msg_node_info m1)"
  obtains b t1 b0 b1 t2 where
    "run_calls one_by_one (reg_begin e1 fd1 m1 (reg_begin e0 fd0 m0 (no_registrations s)))
      = two_calls t1 (at_step e0 fd0 m0 Reg_done) (at_step e1 fd1 m1 Reg_done) [(fd0, b), (fd1, b)]"
    "run_calls taking_turns (reg_begin e1 fd1 m1 (reg_begin e0 fd0 m0 (no_registrations s)))
      = two_calls t2 (at_step e0 fd0 m0 Reg_done) (at_step e1 fd1 m1 Reg_done) [(fd0, b0), (fd1, b0), (fd0, b1), (fd1, b1)]"
    "reg_reach s (two_calls t2 (at_step e0 fd0 m0 Reg_done) (at_step e1 fd1 m1 Reg_done) [(fd0, b0), (fd1, b0), (fd0, b1), (fd1, b1)])"
    "\<forall>x \<in> {b, b0, b1}. msg_type x = BROADCAST_MEMBER_INFO" "xt_ready (oc_exchange t2) = []"
    "set (xt_registered (oc_exchange t2)) = {ni_node_id (msg_node_info m0), ni_node_id (msg_node_info m1)}"
proof -
  let ?c0 = "at_step e0 fd0 m0" and ?c1 = "at_step e1 fd1 m1"
  let ?n0 = "msg_node_info m0" and ?n1 = "msg_node_info m1"
  let ?g = "reg_begin e1 fd1 m1 (reg_begin e0 fd0 m0 (no_registrations s))"
  have g: "?g = two_calls s (?c0 At_add) (?c1 At_add) []" by (simp add: reg_begin_def no_registrations_def)
  obtain t where t: "knows_two ?n0 fd0 ?n1 fd1 t" "xt_ready (oc_exchange t) = []"
    "set (xt_registered (oc_exchange t)) = {ni_node_id ?n0, ni_node_id ?n1}"
    and alone: "run_calls [0, 0, 0, 0, 1, 1, 1, 1] ?g = two_calls t (?c0 Reg_done) (?c1 At_list) []"
    and turns: "run_calls [0, 1, 0, 1, 0, 1, 0, 1] ?g = two_calls t (?c0 At_list) (?c1 At_list) []"
    unfolding g by (rule table_steps [OF assms(1-4)])
  have is_alone: "one_by_one = [0, 0, 0, 0, 1, 1, 1, 1] @ replicate 6 1"
    by (simp add: one_by_one_def numeral_eq_Suc)
  obtain b0 t0 where b0: "msg_type b0 = BROADCAST_MEMBER_INFO" "knows_two ?n0 fd0 ?n1 fd1 t0" "oc_exchange t0 = oc_exchange t"
    "run_calls (replicate 6 0) (two_calls t (?c0 At_list) (?c1 At_list) [])
       = two_calls t0 (?c0 Reg_done) (?c1 At_list) [(fd0, b0), (fd1, b0)]"
    using broadcast_of_two(1) [OF t(1), of e0 fd0 m0 "?c1 At_list" "[]"] t(1)
    by (metis append_Nil broadcast_type knows_two_send orch_sel(3))
  have second: "\<exists>b1 t1. msg_type b1 = BROADCAST_MEMBER_INFO \<and> oc_exchange t1 = oc_exchange u
      \<and> run_calls (replicate 6 1) (two_calls u c (?c1 At_list) sent) = two_calls t1 c (?c1 Reg_done) (sent @ [(fd0, b1), (fd1, b1)])"
    if "knows_two ?n0 fd0 ?n1 fd1 u" for u c sent
    using broadcast_of_two(2) [OF that, of c e1 fd1 m1 sent] by (metis broadcast_type orch_sel(3))
  obtain b t1 where alone': "msg_type b = BROADCAST_MEMBER_INFO"
    "run_calls one_by_one ?g = two_calls t1 (?c0 Reg_done) (?c1 Reg_done) [(fd0, b), (fd1, b)]"
    using second [OF t(1), of "?c0 Reg_done" "[]"] unfolding is_alone run_calls_append alone append_Nil by blast
  obtain b1 t2 where second': "msg_type b1 = BROADCAST_MEMBER_INFO" "oc_exchange t2 = oc_exchange t0"
    "run_calls (replicate 6 1) (two_calls t0 (?c0 Reg_done) (?c1 At_list) [(fd0, b0), (fd1, b0)])
      = two_calls t2 (?c0 Reg_done) (?c1 Reg_done) ([(fd0, b0), (fd1, b0)] @ [(fd0, b1), (fd1, b1)])"
    using second [OF b0(2), of "?c0 Reg_done" "[(fd0, b0), (fd1, b0)]"] by blast
  have "run_calls taking_turns ?g
      = run_calls (replicate 6 1) (two_calls t0 (?c0 Reg_done) (?c1 At_list) [(fd0, b0), (fd1, b0)])"
    by (simp only: taking_turns_def run_calls_append turns b0(4))
  then have turns': "msg_type b1 = BROADCAST_MEMBER_INFO" "oc_exchange t2 = oc_exchange t"
    "run_calls taking_turns ?g = two_calls t2 (?c0 Reg_done) (?c1 Reg_done) [(fd0, b0), (fd1, b0), (fd0, b1), (fd1, b1)]"
    using second' b0(3) by simp_all
  have "reg_reach s (reg_begin e0 fd0 m0 (no_registrations s))"
    by (rule reg_call [OF reg_new]) (simp add: no_registrations_def)
  then have "reg_reach s ?g" by (rule reg_call) (use assms(4) in \<open>simp add: no_registrations_def reg_begin_def\<close>)
  then have reach: "reg_reach s (run_calls taking_turns ?g)"
    by (rule reg_reach_run) (simp_all only: turns'(3), auto simp: g taking_turns_def)
  show ?thesis
    by (rule that [OF alone'(2) turns'(3) reach [unfolded turns'(3)]]) (use alone'(1) b0(1) turns'(1,2) t in simp_all)
qed

text \<open>C24 Two registrations handled by two workers at once can stop the cluster. Handled one after the other they make the
  orchestrator announce the members once to each node; when both workers have stored their node before either counts,
  each finds the cluster complete and each node is sent the announcement twice. A node answers every announcement with
  a ready report, and the second report of a node makes the worker that handles it lock a mutex that it holds.\<close>

theorem concurrent_registrations_relock:
  fixes m0 m1 :: message and s :: orch
  assumes "oc_registry s = new_registry" and "oc_exchange s = new_exchange p d"
    and "cf_expected_prefill_nodes (oc_config s) + cf_expected_decode_nodes (oc_config s) = 2"
    and "ni_node_id (msg_node_info m0) \<noteq> ni_node_id (msg_node_info m1)" and "fd0 \<noteq> fd1"
  shows "let g = reg_begin e1 fd1 m1 (reg_begin e0 fd0 m0 (no_registrations s));
      alone = run_calls one_by_one g; turns = run_calls taking_turns g in
    reg_reach s turns \<and> map rc_pc (rg_calls turns) = [Reg_done, Reg_done]
    \<and> (\<forall>fd \<in> {fd0, fd1}. broadcasts_to fd alone = 1 \<and> broadcasts_to fd turns = 2)
    \<and> (\<forall>es r r'. msg_type r = RDMA_READY \<and> msg_type r' = RDMA_READY \<and> msg_source_node_id r = ni_node_id (msg_node_info m0)
         \<and> msg_source_node_id r' = msg_source_node_id r
         \<longrightarrow> worker_loop es [(fd0, r), (fd0, r')] (rg_orch turns) = Relocked)"
proof -
  obtain b t1 b0 b1 t2 where runs:
    "run_calls one_by_one (reg_begin e1 fd1 m1 (reg_begin e0 fd0 m0 (no_registrations s)))
      = two_calls t1 (at_step e0 fd0 m0 Reg_done) (at_step e1 fd1 m1 Reg_done) [(fd0, b), (fd1, b)]"
    "run_calls taking_turns (reg_begin e1 fd1 m1 (reg_begin e0 fd0 m0 (no_registrations s)))
      = two_calls t2 (at_step e0 fd0 m0 Reg_done) (at_step e1 fd1 m1 Reg_done) [(fd0, b0), (fd1, b0), (fd0, b1), (fd1, b1)]"
    and reach: "reg_reach s (two_calls t2 (at_step e0 fd0 m0 Reg_done) (at_step e1 fd1 m1 Reg_done)
      [(fd0, b0), (fd1, b0), (fd0, b1), (fd1, b1)])"
    and b: "\<forall>x \<in> {b, b0, b1}. msg_type x = BROADCAST_MEMBER_INFO" "xt_ready (oc_exchange t2) = []"
      "set (xt_registered (oc_exchange t2)) = {ni_node_id (msg_node_info m0), ni_node_id (msg_node_info m1)}"
    by (rule two_runs [OF assms(1-4)])
  have stuck: "worker_loop es [(fd0, r), (fd0, r')] t2 = Relocked"
    if "msg_type r = RDMA_READY" "msg_type r' = RDMA_READY" "msg_source_node_id r = ni_node_id (msg_node_info m0)"
      "msg_source_node_id r' = msg_source_node_id r" for es r r'
    by (rule two_reports_relock) (use that b(2,3) in simp_all)
  show ?thesis
    unfolding Let_def runs using reach stuck assms(5) b(1) by (simp add: broadcasts_to_def del: worker_loop.simps)
qed

text \<open>An orchestrator that expects one prefill and one decode node, and their registrations.\<close>

definition pair_orch :: orch where
  "pair_orch = new_orch (sample_config\<lparr>cf_expected_decode_nodes := 1\<rparr>) 3"

definition pair_registration :: "string \<Rightarrow> message" where
  "pair_registration nid = sample_message\<lparr>msg_type := RDMA_PROCESS_REGISTRATION, msg_node_info := sample_node\<lparr>ni_node_id := nid\<rparr>\<rparr>"

lemma pair_orch_facts:
  "oc_registry pair_orch = new_registry" "oc_exchange pair_orch = new_exchange 1 1"
  "cf_expected_prefill_nodes (oc_config pair_orch) + cf_expected_decode_nodes (oc_config pair_orch) = 2"
  "xt_registered (oc_exchange pair_orch) = []" "ni_node_id (msg_node_info (pair_registration nid)) = nid"
  by (simp_all add: pair_orch_def new_orch_def sample_config_def new_exchange_def pair_registration_def)

theorem registrations_reach_everyone_witness:
  "\<exists>g b. reg_reach pair_orch g \<and> length (rg_calls g) = 2 \<and> msg_type b = BROADCAST_MEMBER_INFO
     \<and> (21, b) \<in> set (rg_sent g) \<and> (22, b) \<in> set (rg_sent g)"
proof -
  obtain t b0 b1 where reach: "reg_reach pair_orch (two_calls t (at_step sample_env 21 (pair_registration ''p0'') Reg_done)
      (at_step sample_env 22 (pair_registration ''d0'') Reg_done) [(21, b0), (22, b0), (21, b1), (22, b1)])" (is "reg_reach _ ?g")
    by (rule two_runs [OF pair_orch_facts(1-3), of "pair_registration ''p0''" "pair_registration ''d0''" sample_env 22 sample_env 21])
      (simp_all add: pair_orch_facts(5))
  from registrations_reach_everyone [OF this pair_orch_facts(1,4)] pair_orch_facts(3)
  obtain b where "msg_type b = BROADCAST_MEMBER_INFO" "(21, b) \<in> set (rg_sent ?g)" "(22, b) \<in> set (rg_sent ?g)" by auto
  then show ?thesis using reach by (intro exI [of _ ?g] exI [of _ b]) simp
qed

theorem concurrent_registrations_relock_witness:
  "\<exists>g. reg_reach pair_orch g \<and> broadcasts_to 21 g = 2 \<and> broadcasts_to 22 g = 2"
  using concurrent_registrations_relock [OF pair_orch_facts(1-3), of "pair_registration ''p0''" "pair_registration ''d0''" 21 22
      sample_env sample_env] by (auto simp: Let_def pair_orch_facts(5))

end
