(* ===== verification/Relock.thy ===== *)
theory Relock
  imports OrchestratorProps
begin

text \<open>
  When the orchestrator's handlers relock the mutex of the exchange tracker
  (\<open>src/cpp/apps/orchestrator/rdma_exchange_tracker.cpp\<close>), seen from the events it is sent: over whole runs of a worker from
  the start of the orchestrator.
\<close>

definition registration_ids :: "event list \<Rightarrow> string list" where
  "registration_ids evs = map (\<lambda>(fd, m). ni_node_id (msg_node_info m)) (filter (\<lambda>(fd, m). msg_type m = RDMA_PROCESS_REGISTRATION) evs)"

text \<open>The reports of nodes that are registered at that point: those of \<open>R\<close> and those that have registered since.\<close>

fun reports_in :: "string set \<Rightarrow> event list \<Rightarrow> string list" where
  "reports_in R [] = []"
| "reports_in R ((fd, m) # evs) =
     (if msg_type m = RDMA_PROCESS_REGISTRATION then reports_in (insert (ni_node_id (msg_node_info m)) R) evs
      else if msg_type m = RDMA_READY \<and> msg_source_node_id m \<in> R then msg_source_node_id m # reports_in R evs
      else reports_in R evs)"

lemma exchange_kept [simp]:
  "oc_exchange (handle_client_request e fd m s) = oc_exchange s"
  "oc_exchange (handle_request_failed e fd m s) = oc_exchange s"
  "oc_exchange (handle_prefill_complete_orchestrator e fd m s) = oc_exchange s"
  "oc_exchange (broadcast b ns s) = oc_exchange s"
proof -
  show "oc_exchange (handle_client_request e fd m s) = oc_exchange s"
    "oc_exchange (handle_request_failed e fd m s) = oc_exchange s"
    "oc_exchange (handle_prefill_complete_orchestrator e fd m s) = oc_exchange s"
    by (simp_all add: handle_client_request_def handle_request_failed_def handle_prefill_complete_orchestrator_def
        Let_def split: option.split prod.split)
qed simp

lemma registration_step:
  assumes "msg_type m = RDMA_PROCESS_REGISTRATION"
  shows "orch_process_event e (fd, m) s = Relocked \<longleftrightarrow> ni_node_id (msg_node_info m) \<in> set (xt_registered (oc_exchange s))"
    and "orch_process_event e (fd, m) s = Done s' \<Longrightarrow>
      set (xt_registered (oc_exchange s')) = insert (ni_node_id (msg_node_info m)) (set (xt_registered (oc_exchange s)))
      \<and> xt_ready (oc_exchange s') = xt_ready (oc_exchange s)"
  using assms
  by (auto simp: orch_process_event_def handle_process_rdma_registration_def xt_register_node_def all_nodes_registered_def
      lock_section_def Let_def split: if_splits)

lemma report_step:
  assumes "msg_type m = RDMA_READY"
  shows "orch_process_event e (fd, m) s = Relocked \<longleftrightarrow>
      msg_source_node_id m \<in> set (xt_registered (oc_exchange s)) \<inter> set (xt_ready (oc_exchange s))"
    and "orch_process_event e (fd, m) s = Done s' \<Longrightarrow>
      xt_registered (oc_exchange s') = xt_registered (oc_exchange s)
      \<and> set (xt_ready (oc_exchange s')) = set (xt_ready (oc_exchange s))
          \<union> (if msg_source_node_id m \<in> set (xt_registered (oc_exchange s)) then {msg_source_node_id m} else {})"
  using assms
  by (auto simp: orch_process_event_def handle_ready_def mark_node_ready_def all_nodes_ready_def lock_section_def Let_def
      split: if_splits)

lemma other_step:
  assumes "msg_type m \<noteq> RDMA_PROCESS_REGISTRATION" and "msg_type m \<noteq> RDMA_READY"
  obtains s' where "orch_process_event e (fd, m) s = Done s'" "oc_exchange s' = oc_exchange s"
proof -
  have "\<exists>s'. orch_process_event e (fd, m) s = Done s' \<and> oc_exchange s' = oc_exchange s"
    using assms by (cases "msg_type m") (simp_all add: orch_process_event_def Let_def)
  then show ?thesis using that by blast
qed

lemma worker_loop_survives:
  "worker_loop es evs s \<noteq> Relocked \<longleftrightarrow>
     distinct (registration_ids evs) \<and> set (registration_ids evs) \<inter> set (xt_registered (oc_exchange s)) = {}
     \<and> distinct (reports_in (set (xt_registered (oc_exchange s))) evs)
     \<and> set (reports_in (set (xt_registered (oc_exchange s))) evs) \<inter> set (xt_ready (oc_exchange s)) = {}"
proof (induction evs arbitrary: es s)
  case (Cons ev evs)
  obtain fd m where ev: "ev = (fd, m)" by fastforce
  consider "msg_type m = RDMA_PROCESS_REGISTRATION" | "msg_type m = RDMA_READY"
    | "msg_type m \<noteq> RDMA_PROCESS_REGISTRATION" "msg_type m \<noteq> RDMA_READY" by blast
  then show ?case
  proof cases
    case 1
    show ?thesis
    proof (cases "orch_process_event (es 0) (fd, m) s")
      case (Done s')
      with registration_step [OF 1, of "es 0" fd s] 1 show ?thesis
        by (auto simp: ev Cons.IH registration_ids_def)
    next
      case Relocked
      with registration_step(1) [OF 1, of "es 0" fd s] 1 show ?thesis by (simp add: ev registration_ids_def)
    qed
  next
    case 2
    show ?thesis
    proof (cases "orch_process_event (es 0) (fd, m) s")
      case (Done s')
      with report_step [OF 2, of "es 0" fd s] 2 show ?thesis
        by (auto simp: ev Cons.IH registration_ids_def)
    next
      case Relocked
      with report_step(1) [OF 2, of "es 0" fd s] 2 show ?thesis by (simp add: ev registration_ids_def)
    qed
  next
    case 3
    obtain s' where "orch_process_event (es 0) (fd, m) s = Done s'" "oc_exchange s' = oc_exchange s"
      by (rule other_step [OF 3])
    with 3 show ?thesis by (simp add: ev Cons.IH registration_ids_def)
  qed
qed (simp add: registration_ids_def)

text \<open>C26 Which runs the orchestrator survives. Whatever events a worker handles from the start of the orchestrator, whatever the clocks and
  the random draws, none of its handlers asks for a mutex its thread holds exactly if no node registers twice and no node reports ready twice
  after it has registered. A node that is restarted, or that announces itself again, ends the orchestrator or its worker.\<close>

theorem orchestrator_survives_iff:
  "worker_loop es evs (new_orch c epoll_fd) \<noteq> Relocked \<longleftrightarrow> distinct (registration_ids evs) \<and> distinct (reports_in {} evs)"
  by (simp add: worker_loop_survives new_orch_def new_exchange_def)

end
