(* ===== verification/Serving.thy ===== *)
theory Serving
  imports OrchestratorProps NodeProps
begin

text \<open>
  One request on its way through three processes. What one process has queued for a connection is what the
  other end reads: the client's frame reaches the orchestrator, whose messages reach the prefill node and
  the decode node, whose answer reaches the orchestrator again. Each process is its I/O thread, which
  reads the bytes and queues the event, and a worker, which takes the event and handles it; the models
  are those of \<open>EpollLoop\<close>, \<open>EventQueue\<close>, \<open>Orchestrator\<close> and \<open>NodeWorker\<close>.
\<close>

section \<open>Bytes in, handler run\<close>

text \<open>The I/O thread reads what has arrived on a connection; a worker takes the oldest event.\<close>

definition take_in :: "int \<Rightarrow> bytes \<Rightarrow> epoll_worker \<Rightarrow> (event \<times> epoll_worker) option" where
  "take_in fd bs w = (case handle_read [Recv_data bs, Recv_again] fd w of
     None \<Rightarrow> None
   | Some w' \<Rightarrow> (case eq_wait_and_pop (ew_queue w') of
       Wait_got ev q \<Rightarrow> Some (ev, w'\<lparr>ew_queue := q\<rparr>)
     | _ \<Rightarrow> None))"

definition orch_serves :: "env \<Rightarrow> int \<Rightarrow> bytes \<Rightarrow> orch \<Rightarrow> orch option" where
  "orch_serves e fd bs s = (case take_in fd bs (oc_epoll s) of
     None \<Rightarrow> None
   | Some (ev, w) \<Rightarrow> (case orch_process_event e ev (s\<lparr>oc_epoll := w\<rparr>) of
       Done s' \<Rightarrow> Some s' | Relocked \<Rightarrow> None))"

definition node_serves :: "node_env \<Rightarrow> int \<Rightarrow> bytes \<Rightarrow> node \<Rightarrow> node option" where
  "node_serves e fd bs n = (case take_in fd bs (nd_epoll n) of
     None \<Rightarrow> None
   | Some (ev, w) \<Rightarrow> (case node_process_event e ev (n\<lparr>nd_epoll := w\<rparr>) of
       Returns n' \<Rightarrow> Some n' | Terminated \<Rightarrow> None))"

text \<open>A worker with room for an event, and a connection that waits for a header.\<close>

definition has_room :: "epoll_worker \<Rightarrow> bool" where
  "has_room w \<longleftrightarrow> eq_queue (ew_queue w) = [] \<and> 0 < eq_capacity (ew_queue w)"

definition awaits_frame :: "int \<Rightarrow> epoll_worker \<Rightarrow> bool" where
  "awaits_frame fd w \<longleftrightarrow> (\<exists>st. find_conn w fd = Some st \<and> fresh_conn st \<and> cs_input_buffer st = [])"

lemma take_in_frame:
  assumes "has_room w" and "awaits_frame fd w" and "sendable m"
  obtains w' where "take_in fd (frame m) w = Some ((fd, message_on_wire m), w')" "has_room w'"
    "\<And>c. find_conn w' c = find_conn w c"
proof -
  obtain st where st: "find_conn w fd = Some st" "fresh_conn st" "cs_input_buffer st = []"
    using assms(2) by (auto simp: awaits_frame_def)
  have same: "st\<lparr>cs_input_buffer := []\<rparr> = st" using st(3) by (cases st) simp
  have "handle_read [Recv_data (frame m), Recv_again] fd w
      = Some ((put_conn fd st w)\<lparr>ew_queue := eq_push_all (ew_queue w) [(fd, message_on_wire m)]\<rparr>)"
    using parse_frames [of "[serialize_message m]" st fd "ew_queue w"] st assms(3)
    by (simp add: handle_read_def frame_def deliver_sendable payload_ok_def sendable_def Let_def same)
  moreover have "eq_push_all (ew_queue w) [(fd, message_on_wire m)] = (ew_queue w)\<lparr>eq_queue := [(fd, message_on_wire m)]\<rparr>"
    using assms(1) by (simp add: has_room_def eq_push_def)
  ultimately have "take_in fd (frame m) w = Some ((fd, message_on_wire m),
      (put_conn fd st w)\<lparr>ew_queue := (ew_queue w)\<lparr>eq_queue := []\<rparr>\<rparr>)"
    by (simp add: take_in_def eq_wait_and_pop_def)
  then show ?thesis
    by (rule that) (use assms(1) st(1) in \<open>auto simp: has_room_def find_conn_def put_conn_def\<close>)
qed

lemma take_in_output:
  assumes "\<And>c. find_conn w' c = find_conn w c"
  shows "pending_for fd w' = pending_for fd w" and "awaits_frame fd w' = awaits_frame fd w"
  by (simp_all add: pending_for_def awaits_frame_def assms)

text \<open>Queueing a response touches neither the event queue nor what a connection has received.\<close>

lemma enqueue_keeps [simp]:
  "has_room (enqueue_response fd m w) = has_room w" "awaits_frame c (enqueue_response fd m w) = awaits_frame c w"
proof -
  show "has_room (enqueue_response fd m w) = has_room w"
    by (auto simp: enqueue_response_def has_room_def put_conn_def modify_epoll_def record_call_def Let_def split: option.split)
  show "awaits_frame c (enqueue_response fd m w) = awaits_frame c w"
    by (auto simp: enqueue_response_def awaits_frame_def modify_epoll_def Let_def split: option.split)
qed

lemma on_wire_sel [simp]:
  "msg_type (message_on_wire m) = msg_type m" "msg_request_info (message_on_wire m) = msg_request_info m"
  by (simp_all add: message_on_wire_def)

text \<open>A connection in both directions at rest.\<close>

definition idle_link :: "int \<Rightarrow> epoll_worker \<Rightarrow> bool" where
  "idle_link fd w \<longleftrightarrow> awaits_frame fd w \<and> pending_for fd w = []"

lemma idle_link_known: "idle_link fd w \<Longrightarrow> find_conn w fd \<noteq> None"
  by (auto simp: idle_link_def awaits_frame_def)

section \<open>The stages\<close>

lemma client_stage:
  fixes m e s
  defines "r \<equiv> msg_request_info m"
  assumes "has_room (oc_epoll s)" and "awaits_frame cfd (oc_epoll s)" and "sendable m" and "msg_type m = CLIENT_REQUEST"
    and "select_nodes_and_allocate_slot (en_draw e) (oc_registry s) (ri_request_id r) (oc_router s) = (Some res, rt)"
    and "get_node_fd (ni_node_id (rr_prefill_node res)) (oc_registry s) = Some pfd"
    and "get_node_fd (ni_node_id (rr_decode_node res)) (oc_registry s) = Some dfd"
    and "idle_link pfd (oc_epoll s)" and "idle_link dfd (oc_epoll s)" and "pfd \<noteq> dfd"
  obtains s1 where "orch_serves e cfd (frame m) s = Some s1" "has_room (oc_epoll s1)" "awaits_frame pfd (oc_epoll s1)"
    "pending_for pfd (oc_epoll s1) = frame (create_assign_request (en_ns e 1) (en_message e) (orchestrator_id s) (routed_request e r res))"
    "pending_for dfd (oc_epoll s1) = frame (create_prepare_decode_slot (en_ns e 2) (en_message e) (orchestrator_id s) (routed_request e r res))"
    "get_status (ri_request_id r) (oc_tracker s1) = Some PENDING" "oc_registry s1 = oc_registry s"
proof -
  obtain w where w: "take_in cfd (frame m) (oc_epoll s) = Some ((cfd, message_on_wire m), w)" "has_room w"
    and conns: "\<And>c. find_conn w c = find_conn (oc_epoll s) c"
    by (rule take_in_frame [OF assms(2-4)]) blast
  note out = take_in_output [of w "oc_epoll s", OF conns]
  let ?s = "s\<lparr>oc_epoll := w, oc_events_processed := oc_events_processed s + 1\<rparr>"
  let ?r = "routed_request e r res"
  let ?assign = "create_assign_request (en_ns e 1) (en_message e) (orchestrator_id s) ?r"
  let ?prep = "create_prepare_decode_slot (en_ns e 2) (en_message e) (orchestrator_id s) ?r"
  let ?s1 = "on_router (increment_node_load (ni_node_id (rr_decode_node res)))
      (on_router (increment_node_load (ni_node_id (rr_prefill_node res)))
        (send_to pfd ?assign (send_to dfd ?prep (on_tracker (track_request ?r cfd) (?s\<lparr>oc_router := rt\<rparr>)))))"
  have "handle_client_request e cfd (message_on_wire m) ?s = ?s1"
    using assms(6-8) by (simp add: handle_client_request_def r_def Let_def)
  then have serves: "orch_serves e cfd (frame m) s = Some ?s1"
    using assms(5) by (simp add: orch_serves_def w(1) orch_process_event_def)
  have epoll: "oc_epoll ?s1 = enqueue_response pfd ?assign (enqueue_response dfd ?prep w)" by simp
  have idle: "pending_for pfd w = []" "pending_for dfd w = []" "awaits_frame pfd w" "find_conn w pfd \<noteq> None" "find_conn w dfd \<noteq> None"
    using assms(9,10) idle_link_known [OF assms(9)] idle_link_known [OF assms(10)]
    by (simp_all add: out idle_link_def conns)
  have "ri_request_id ?r = ri_request_id r" by (simp add: routed_request_def)
  then have status: "get_status (ri_request_id r) (oc_tracker ?s1) = Some PENDING" by simp
  show ?thesis
    by (rule that [OF serves]) (use idle w(2) status assms(11) in \<open>simp_all only: epoll\<close>, simp_all add: pending_enqueue)
qed

lemma prefill_stage:
  fixes m e n
  defines "r \<equiv> msg_request_info m" and "fd \<equiv> nd_orchestrator_fd n"
  assumes "has_room (nd_epoll n)" and "idle_link fd (nd_epoll n)" and "sendable m" and "msg_type m = ASSIGN_REQUEST"
    and "find_peer_info (ri_decode_node_id r) (nd_engine n) = Some peer" and "\<And>call. ne_prefill e call = Vllm_ok tokens"
  obtains n1 where "node_serves e fd (frame m) n = Some n1"
    "nd_prefill_calls n1 = nd_prefill_calls n @ [prefill_request (nd_config n) (node_info_of n) peer r]"
    "pending_for fd (nd_epoll n1) = frame (prefill_done_message e (nd_config n) r tokens)"
proof -
  have "awaits_frame fd (nd_epoll n)" using assms(4) by (simp add: idle_link_def)
  then obtain w where w: "take_in fd (frame m) (nd_epoll n) = Some ((fd, message_on_wire m), w)"
    and conns: "\<And>c. find_conn w c = find_conn (nd_epoll n) c"
    by (rule take_in_frame [OF assms(3) _ assms(5)]) blast
  note out = take_in_output [of w "nd_epoll n", OF conns]
  let ?done = "prefill_done_message e (nd_config n) r tokens"
  let ?n1 = "n\<lparr>nd_epoll := enqueue_response fd ?done w, nd_events_processed := nd_events_processed n + 1,
      nd_prefill_calls := nd_prefill_calls n @ [prefill_request (nd_config n) (node_info_of n) peer r]\<rparr>"
  have "node_serves e fd (frame m) n = Some ?n1"
    using assms(6-8) by (simp add: node_serves_def w node_process_event_def handle_assign_request_def Let_def
        send_orchestrator_def r_def fd_def [symmetric])
  then show ?thesis
    by (rule that) (use assms(4) idle_link_known [OF assms(4)] in \<open>simp_all add: pending_enqueue out conns idle_link_def\<close>)
qed

lemma decode_stage:
  fixes m e n
  defines "r \<equiv> msg_request_info m" and "fd \<equiv> nd_orchestrator_fd n"
  assumes "has_room (nd_epoll n)" and "awaits_frame fd (nd_epoll n)" and "sendable m" and "msg_type m = PREPARE_DECODE_SLOT"
    and "0 \<le> ri_slot_id r" and "ri_slot_id r < ml_max_concurrent_requests (lt_layout (nd_tracker n))"
    and "slot_holder (nd_tracker n) (ri_slot_id r) = None" and "0 \<le> sint (cf_num_layers (nd_config n))"
  obtains n1 i where "node_serves e fd (frame m) n = Some n1" "lt_find (nd_tracker n1) (ri_request_id r) = Some i"
    "tr_slot_id i = ri_slot_id r" "tr_state i = State_WAITING_FOR_KV"
proof -
  obtain w where w: "take_in fd (frame m) (nd_epoll n) = Some ((fd, message_on_wire m), w)"
    by (rule take_in_frame [OF assms(3-5)]) blast
  obtain sq t where add: "lt_add_request (ne_clock e 0) (ri_request_id r) (ri_prefill_node_id r) (ri_slot_id r)
      (sint (cf_num_layers (nd_config n))) (nd_tracker n) = Inr (sq, t)"
    and find: "\<exists>i. lt_find t (ri_request_id r) = Some i \<and> tr_slot_id i = ri_slot_id r"
    using assms(7-10) by (simp add: lt_add_request_def lt_find_def Let_def)
  let ?n1 = "n\<lparr>nd_epoll := w, nd_events_processed := nd_events_processed n + 1,
      nd_tracker := snd (lt_update_state (ne_clock e 1) (ri_request_id r) State_WAITING_FOR_KV t)\<rparr>"
  have "node_serves e fd (frame m) n = Some ?n1"
    using assms(6) add by (simp add: node_serves_def w node_process_event_def handle_prepare_decode_slot_def Let_def r_def)
  moreover obtain i where "lt_find (nd_tracker ?n1) (ri_request_id r) = Some i" "tr_slot_id i = ri_slot_id r"
    "tr_state i = State_WAITING_FOR_KV"
    using find by (auto simp: lt_update_state_def lt_find_def lt_put_def Let_def)
  ultimately show ?thesis by (rule that)
qed

lemma answer_stage:
  fixes m e s
  defines "r \<equiv> msg_request_info m"
  assumes "has_room (oc_epoll s)" and "awaits_frame fd (oc_epoll s)" and "sendable m"
    and "msg_type m = PREFILL_COMPLETE_ORCHESTRATOR" and "get_node_fd (ri_decode_node_id r) (oc_registry s) = Some dfd"
    and "get_status (ri_request_id r) (oc_tracker s) \<noteq> None"
  obtains s1 where "orch_serves e fd (frame m) s = Some s1" "get_status (ri_request_id r) (oc_tracker s1) = Some DECODING"
proof -
  obtain w where w: "take_in fd (frame m) (oc_epoll s) = Some ((fd, message_on_wire m), w)"
    by (rule take_in_frame [OF assms(2-4)]) blast
  let ?s = "s\<lparr>oc_epoll := w, oc_events_processed := oc_events_processed s + 1\<rparr>"
  have "orch_serves e fd (frame m) s = Some (handle_prefill_complete_orchestrator e fd (message_on_wire m) ?s)"
    using assms(5) by (simp add: orch_serves_def w orch_process_event_def)
  moreover have "get_status (ri_request_id r) (oc_tracker (handle_prefill_complete_orchestrator e fd (message_on_wire m) ?s)) = Some DECODING"
    using assms(6,7) by (auto simp: handle_prefill_complete_orchestrator_def r_def Let_def)
  ultimately show ?thesis by (rule that)
qed

section \<open>The whole way\<close>

text \<open>C6 One request end to end. When the orchestrator finds nodes and a slot for a client's request and vLLM answers the prefill, the
  bytes the client sends make the orchestrator queue bytes that make the decode node prepare exactly the allocated slot for
  the request and the prefill node post the client's prompt with that slot and offset; and the bytes the
  prefill node then queues make the orchestrator record the request as decoding.\<close>

theorem request_through_cluster:
  fixes m e s ep p res tokens
  defines "r \<equiv> msg_request_info m"
  defines "info \<equiv> routed_request e r res"
  assumes "has_room (oc_epoll s)" and "awaits_frame cfd (oc_epoll s)" and "sendable m" and "msg_type m = CLIENT_REQUEST"
    and "select_nodes_and_allocate_slot (en_draw e) (oc_registry s) (ri_request_id r) (oc_router s) = (Some res, rt)"
    and "get_node_fd (ni_node_id (rr_prefill_node res)) (oc_registry s) = Some pfd" and "idle_link pfd (oc_epoll s)"
    and "get_node_fd (ni_node_id (rr_decode_node res)) (oc_registry s) = Some dfd" and "idle_link dfd (oc_epoll s)"
    and "pfd \<noteq> dfd"
    and "has_room (nd_epoll p)" and "idle_link (nd_orchestrator_fd p) (nd_epoll p)"
    and "find_peer_info (ni_node_id (rr_decode_node res)) (nd_engine p) = Some peer"
    and "\<And>call. ne_prefill ep call = Vllm_ok tokens"
    and "has_room (nd_epoll d)" and "idle_link (nd_orchestrator_fd d) (nd_epoll d)"
    and "0 \<le> rr_slot_id res" and "rr_slot_id res < ml_max_concurrent_requests (lt_layout (nd_tracker d))"
    and "slot_holder (nd_tracker d) (rr_slot_id res) = None" and "0 \<le> sint (cf_num_layers (nd_config d))"
    and "sendable (create_assign_request (en_ns e 1) (en_message e) (orchestrator_id s) info)"
    and "sendable (create_prepare_decode_slot (en_ns e 2) (en_message e) (orchestrator_id s) info)"
    and "sendable (prefill_done_message ep (nd_config p) info tokens)"
  shows "\<exists>s1 p1 d1 s2 call i.
    orch_serves e cfd (frame m) s = Some s1
    \<and> node_serves ed (nd_orchestrator_fd d) (pending_for dfd (oc_epoll s1)) d = Some d1
    \<and> node_serves ep (nd_orchestrator_fd p) (pending_for pfd (oc_epoll s1)) p = Some p1
    \<and> orch_serves e' pfd (pending_for (nd_orchestrator_fd p) (nd_epoll p1)) s1 = Some s2
    \<and> lt_find (nd_tracker d1) (ri_request_id r) = Some i \<and> tr_slot_id i = rr_slot_id res \<and> tr_state i = State_WAITING_FOR_KV
    \<and> nd_prefill_calls p1 = nd_prefill_calls p @ [call] \<and> pv_request_id call = ri_request_id r \<and> pv_prompt call = ri_prompt r
    \<and> pv_slot_id call = rr_slot_id res \<and> pv_slot_base_offset call = rr_slot_base_offset res
    \<and> get_status (ri_request_id r) (oc_tracker s1) = Some PENDING \<and> get_status (ri_request_id r) (oc_tracker s2) = Some DECODING"
proof -
  obtain assign prep answer where queued: "assign = create_assign_request (en_ns e 1) (en_message e) (orchestrator_id s) info"
    "prep = create_prepare_decode_slot (en_ns e 2) (en_message e) (orchestrator_id s) info"
    "answer = prefill_done_message ep (nd_config p) info tokens" by blast
  note sends = assms(23-25) [folded queued]
  have fields: "ri_request_id info = ri_request_id r" "ri_prompt info = ri_prompt r" "ri_slot_id info = rr_slot_id res"
    "ri_slot_base_offset info = rr_slot_base_offset res" "ri_decode_node_id info = ni_node_id (rr_decode_node res)"
    by (simp_all add: info_def routed_request_def)
  have msgs: "msg_type assign = ASSIGN_REQUEST" "msg_request_info assign = info" "msg_type prep = PREPARE_DECODE_SLOT"
    "msg_request_info prep = info" "msg_type answer = PREFILL_COMPLETE_ORCHESTRATOR"
    "ri_request_id (msg_request_info answer) = ri_request_id r"
    "ri_decode_node_id (msg_request_info answer) = ni_node_id (rr_decode_node res)"
    by (simp_all add: queued create_assign_request_def create_prepare_decode_slot_def prefill_done_message_def fields)
  obtain s1 where s1: "orch_serves e cfd (frame m) s = Some s1" "has_room (oc_epoll s1)" "awaits_frame pfd (oc_epoll s1)"
    "pending_for pfd (oc_epoll s1) = frame assign" "pending_for dfd (oc_epoll s1) = frame prep"
    "get_status (ri_request_id r) (oc_tracker s1) = Some PENDING" "oc_registry s1 = oc_registry s"
    using client_stage [OF assms(3-6) assms(7,8,10) [unfolded r_def] assms(9,11,12)] unfolding queued info_def r_def by blast
  obtain d1 i where d1: "node_serves ed (nd_orchestrator_fd d) (frame prep) d = Some d1"
    "lt_find (nd_tracker d1) (ri_request_id r) = Some i" "tr_slot_id i = rr_slot_id res" "tr_state i = State_WAITING_FOR_KV"
    by (rule decode_stage [of d prep ed]) (use assms(17-22) sends in \<open>simp_all add: msgs fields idle_link_def\<close>)
  obtain p1 where p1: "node_serves ep (nd_orchestrator_fd p) (frame assign) p = Some p1"
    "nd_prefill_calls p1 = nd_prefill_calls p @ [prefill_request (nd_config p) (node_info_of p) peer info]"
    "pending_for (nd_orchestrator_fd p) (nd_epoll p1) = frame answer"
    by (rule prefill_stage [of p assign peer ep tokens]) (use assms(13-16) sends in \<open>simp_all add: msgs fields queued(3)\<close>)
  obtain s2 where s2: "orch_serves e' pfd (frame answer) s1 = Some s2" "get_status (ri_request_id r) (oc_tracker s2) = Some DECODING"
    by (rule answer_stage [of s1 pfd answer dfd e']) (use s1 assms(10) sends in \<open>simp_all add: msgs\<close>)
  show ?thesis
    by (intro exI [of _ s1] exI [of _ p1] exI [of _ d1] exI [of _ s2]
        exI [of _ "prefill_request (nd_config p) (node_info_of p) peer info"] exI [of _ i])
      (simp add: s1(1,4,5,6) d1 p1 s2 prefill_request_def fields)
qed

text \<open>The sample orchestrator with a client on descriptor 9 and both nodes connected, a prefill node that knows \<open>d1\<close>, and a
  decode node, each with its connection to the orchestrator on descriptor 5.\<close>

definition linked_orch :: orch where
  "linked_orch = sample_orch\<lparr>oc_epoll := (oc_epoll sample_orch)\<lparr>ew_queue := new_event_queue 4, ew_connections :=
     [(9, new_conn_state), (21, new_conn_state), (23, new_conn_state)]\<rparr>\<rparr>"

definition linked :: "node \<Rightarrow> node" where
  "linked n = n\<lparr>nd_orchestrator_fd := 5, nd_epoll := (nd_epoll n)\<lparr>ew_queue := new_event_queue 4, ew_connections := [(5, new_conn_state)]\<rparr>\<rparr>"

definition linked_prefill :: node where
  "linked_prefill = linked ((new_node sample_rdma_config sample_node)
     \<lparr>nd_engine := new_rdma_engine sample_rdma_config prefill_member\<rparr>)"

definition linked_decode :: node where
  "linked_decode = linked (new_node decode_config sample_node)"

definition answering_env :: node_env where
  "answering_env = (decode_env Vllm_failed)\<lparr>ne_prefill := (\<lambda>_. Vllm_ok 5)\<rparr>"

lemma linked_facts:
  "has_room (oc_epoll linked_orch)" "idle_link 9 (oc_epoll linked_orch)" "idle_link 21 (oc_epoll linked_orch)"
  "idle_link 23 (oc_epoll linked_orch)" "has_room (nd_epoll (linked n))" "idle_link 5 (nd_epoll (linked n))"
  "nd_orchestrator_fd (linked n) = 5"
  by (simp_all add: linked_orch_def linked_def has_room_def idle_link_def awaits_frame_def pending_for_def find_conn_def
      new_conn_state_def new_event_queue_def)

text \<open>Messages with such a request are small.\<close>

lemma small_messages:
  assumes "ni_node_id (rr_prefill_node res) = ''p0''" and "ni_node_id (rr_decode_node res) = ''d1''" and "rr_slot_id res = 0"
  defines "info \<equiv> routed_request sample_env sample_request res"
  shows "sendable (create_assign_request now (en_message sample_env) ''orch'' info)"
    and "sendable (create_prepare_decode_slot now (en_message sample_env) ''orch'' info)"
    and "sendable (prefill_done_message answering_env sample_rdma_config info tokens)"
  by (simp_all add: sendable_def message_ok_def create_assign_request_def create_prepare_decode_slot_def
      prefill_done_message_def info_def routed_request_def assms(1-3) new_message_def new_request_info_def
      new_node_info_def sample_env_def answering_env_def decode_env_def sample_message_def sample_request_def
      sample_node_def node_info_ok_def request_info_ok_def string_ok_def is_c_int_def INT_MAX_def serialize_message_def
      write_uint8_def write_uint64_def write_string_def write_request_info_def write_int_def write_node_info_def
      write_uint16_def)

theorem request_through_cluster_witness:
  "\<exists>s1 p1 d1 s2 call i.
    orch_serves sample_env 9 (frame (sample_message\<lparr>msg_type := CLIENT_REQUEST\<rparr>)) linked_orch = Some s1
    \<and> node_serves answering_env 5 (pending_for 23 (oc_epoll s1)) linked_decode = Some d1
    \<and> node_serves answering_env 5 (pending_for 21 (oc_epoll s1)) linked_prefill = Some p1
    \<and> orch_serves sample_env 21 (pending_for 5 (nd_epoll p1)) s1 = Some s2
    \<and> lt_find (nd_tracker d1) ''req-1'' = Some i \<and> tr_slot_id i = 0
    \<and> nd_prefill_calls p1 = [call] \<and> pv_prompt call = ''hello'' \<and> pv_slot_id call = 0
    \<and> get_status ''req-1'' (oc_tracker s2) = Some DECODING"
proof -
  let ?m = "sample_message\<lparr>msg_type := CLIENT_REQUEST\<rparr>"
  have r: "msg_request_info ?m = sample_request" by (simp add: sample_message_def)
  have rid: "ri_request_id sample_request = ''req-1''" "ri_prompt sample_request = ''hello''" by (simp_all add: sample_request_def)
  obtain res rt where sel: "select_nodes_and_allocate_slot (\<lambda>_ _. 0) sample_registry ''req-1'' sample_router = (Some res, rt)"
    and ids: "ni_node_id (rr_prefill_node res) = ''p0''" "ni_node_id (rr_decode_node res) = ''d1''" "rr_slot_id res = 0"
    using sample_select [of "''req-1''"] by blast
  have sel': "select_nodes_and_allocate_slot (en_draw sample_env) (oc_registry linked_orch) (ri_request_id (msg_request_info ?m))
      (oc_router linked_orch) = (Some res, rt)"
    unfolding r using sel by (simp add: rid sample_env_def linked_orch_def sample_orch_def)
  have fds: "get_node_fd ''p0'' (oc_registry linked_orch) = Some 21" "get_node_fd ''d1'' (oc_registry linked_orch) = Some 23"
    by (simp_all add: linked_orch_def sample_orch_def)
  have orch: "orchestrator_id linked_orch = ''orch''" by (simp add: linked_orch_def sample_orch_def new_orch_def sample_config_def)
  have send: "sendable ?m"
    using sample_message_sendable by (simp add: sendable_def message_ok_def serialize_message_def write_uint8_def)
  have peer: "find_peer_info (ni_node_id (rr_decode_node res)) (nd_engine linked_prefill) = Some (sample_entry ''d1'' 101)"
    by (simp add: ids linked_prefill_def linked_def find_peer_info_def new_rdma_engine_def sample_members)
  have vllm: "ne_prefill answering_env call = Vllm_ok 5" for call by (simp add: answering_env_def)
  have cfg: "nd_config linked_prefill = sample_rdma_config" "nd_prefill_calls linked_prefill = []"
    by (simp_all add: linked_prefill_def linked_def new_node_def)
  have dec: "0 < ml_max_concurrent_requests (lt_layout (nd_tracker linked_decode))" "slot_holder (nd_tracker linked_decode) 0 = None"
    "0 \<le> sint (cf_num_layers (nd_config linked_decode))"
    by code_simp+
  note small = small_messages [OF ids, folded r]
  have links: "awaits_frame 9 (oc_epoll linked_orch)" "has_room (nd_epoll linked_prefill)" "has_room (nd_epoll linked_decode)"
    "idle_link (nd_orchestrator_fd linked_prefill) (nd_epoll linked_prefill)"
    "idle_link (nd_orchestrator_fd linked_decode) (nd_epoll linked_decode)"
    "nd_orchestrator_fd linked_prefill = 5" "nd_orchestrator_fd linked_decode = 5"
    using linked_facts by (simp_all add: idle_link_def linked_prefill_def linked_decode_def)
  have "\<exists>s1 p1 d1 s2 call i.
    orch_serves sample_env 9 (frame ?m) linked_orch = Some s1
    \<and> node_serves answering_env 5 (pending_for 23 (oc_epoll s1)) linked_decode = Some d1
    \<and> node_serves answering_env 5 (pending_for 21 (oc_epoll s1)) linked_prefill = Some p1
    \<and> orch_serves sample_env 21 (pending_for 5 (nd_epoll p1)) s1 = Some s2
    \<and> lt_find (nd_tracker d1) ''req-1'' = Some i \<and> tr_slot_id i = 0 \<and> tr_state i = State_WAITING_FOR_KV
    \<and> nd_prefill_calls p1 = nd_prefill_calls linked_prefill @ [call] \<and> pv_request_id call = ''req-1'' \<and> pv_prompt call = ''hello''
    \<and> pv_slot_id call = 0 \<and> pv_slot_base_offset call = rr_slot_base_offset res
    \<and> get_status ''req-1'' (oc_tracker s1) = Some PENDING \<and> get_status ''req-1'' (oc_tracker s2) = Some DECODING"
    using request_through_cluster [OF linked_facts(1) links(1) send _ sel' _ linked_facts(3) _ linked_facts(4) _ links(2,4) peer vllm
        links(3,5), unfolded r rid ids links(6,7) cfg(1) orch] dec small fds
    unfolding r by simp
  then show ?thesis by (elim exE conjE) (intro exI conjI, assumption+, simp_all add: cfg(2))
qed

end
