(* ===== verification/Lifetime.thy ===== *)
theory Lifetime
  imports OrchestratorProps
begin

text \<open>
  How many requests a cluster serves in its life. The orchestrator frees a slot when a request fails or its
  prefill node's report names a decode node without a connection; \<open>DECODE_COMPLETE\<close> is dropped by its
  dispatch and no node ever sends \<open>REQUEST_FAILED\<close> (shown with the nodes). Nothing removes a node's
  descriptor from the registry either. So in a run over the events that clients and nodes really send, the
  slots given out are never returned, and the sum of the slots of the decode nodes bounds the number of
  requests over the whole run.
\<close>

section \<open>Runs\<close>

text \<open>A client request that is routed and whose two nodes have a connection.\<close>

definition admitted :: "env \<Rightarrow> event \<Rightarrow> orch \<Rightarrow> bool" where
  "admitted e ev s \<longleftrightarrow> msg_type (snd ev) = CLIENT_REQUEST
     \<and> (case fst (select_nodes_and_allocate_slot (en_draw e) (oc_registry s)
              (ri_request_id (msg_request_info (snd ev))) (oc_router s)) of
          None \<Rightarrow> False
        | Some res \<Rightarrow> get_node_fd (ni_node_id (rr_decode_node res)) (oc_registry s) \<noteq> None
                    \<and> get_node_fd (ni_node_id (rr_prefill_node res)) (oc_registry s) \<noteq> None)"

text \<open>The events of a cluster whose decode nodes are those of \<open>D\<close>.\<close>

definition cluster_event :: "string set \<Rightarrow> event \<Rightarrow> orch \<Rightarrow> bool" where
  "cluster_event D ev s \<longleftrightarrow> (let m = snd ev in msg_type m \<noteq> REQUEST_FAILED
     \<and> (msg_type m = RDMA_PROCESS_REGISTRATION \<longrightarrow> ni_role (msg_node_info m) = DECODE
          \<longrightarrow> ni_node_id (msg_node_info m) \<in> D)
     \<and> (msg_type m = PREFILL_COMPLETE_ORCHESTRATOR \<longrightarrow>
          get_node_fd (ri_decode_node_id (msg_request_info m)) (oc_registry s) \<noteq> None))"

inductive served :: "config \<Rightarrow> string set \<Rightarrow> nat \<Rightarrow> orch \<Rightarrow> bool" for c D where
  served_none: "served c D 0 (new_orch c epoll_fd)"
| served_event: "served c D k s \<Longrightarrow> env_ok e s \<Longrightarrow> cluster_event D ev s \<Longrightarrow> orch_process_event e ev s = Done s'
    \<Longrightarrow> served c D (k + (if admitted e ev s then 1 else 0)) s'"
| served_io: "served c D k s \<Longrightarrow> served c D k (s\<lparr>oc_epoll := w\<rparr>)"

section \<open>The slots given out\<close>

definition given_out :: "string set \<Rightarrow> orch \<Rightarrow> int" where
  "given_out D s = (\<Sum>nid\<in>D. 8 - get_available_slots nid (oc_router s))"

definition decode_in :: "string set \<Rightarrow> orch \<Rightarrow> bool" where
  "decode_in D s \<longleftrightarrow> (\<forall>n \<in> snd ` set (nr_nodes (oc_registry s)). ni_role n = DECODE \<longrightarrow> ni_node_id n \<in> D)"

lemma available_nonneg: "orch_inv s \<Longrightarrow> 0 \<le> get_available_slots nid (oc_router s)"
  by (simp add: orch_inv_def available_slots_simps default_slot_config_def split: option.split)

lemma given_out_le: "orch_inv s \<Longrightarrow> given_out D s \<le> 8 * int (card D)"
  using sum_bounded_above [of D "\<lambda>nid. 8 - get_available_slots nid (oc_router s)" 8] available_nonneg [of s]
  by (simp add: given_out_def mult.commute)

lemma given_out_mono:
  "(\<And>n. get_available_slots n (oc_router s') \<le> get_available_slots n (oc_router s)) \<Longrightarrow> given_out D s \<le> given_out D s'"
  unfolding given_out_def by (rule sum_mono) (simp add: diff_left_mono)

lemma snd_put: "snd ` set (put k v m) \<subseteq> insert v (snd ` set m)"
  by (induction m) auto

text \<open>An event of the cluster other than a client's request leaves the router alone.\<close>

lemma other_event_router:
  assumes "orch_process_event e ev s = Done s'" and "cluster_event D ev s" and "msg_type (snd ev) \<noteq> CLIENT_REQUEST"
  shows "oc_router s' = oc_router s"
  using assms
  by (cases ev; cases "msg_type (snd ev)")
    (auto simp: orch_process_event_def cluster_event_def handle_process_rdma_registration_def handle_ready_def
      handle_prefill_complete_orchestrator_def Let_def split: lock_outcome.splits if_splits)

lemma handlers_registry:
  "oc_registry (handle_client_request e fd m s) = oc_registry s"
  "oc_registry (handle_request_failed e fd m s) = oc_registry s"
  "oc_registry (handle_prefill_complete_orchestrator e fd m s) = oc_registry s"
  "handle_ready e fd m s = Done s' \<Longrightarrow> oc_registry s' = oc_registry s"
  by (simp_all add: handle_client_request_def handle_request_failed_def handle_prefill_complete_orchestrator_def
      Let_def split: option.split prod.split)
    (auto simp: handle_ready_def Let_def split: lock_outcome.splits if_splits)

lemma event_registry:
  assumes "orch_process_event e (fd, m) s = Done s'" and "msg_type m \<noteq> RDMA_PROCESS_REGISTRATION"
  shows "oc_registry s' = oc_registry s"
  using assms
  by (cases "msg_type m") (auto simp: orch_process_event_def handlers_registry(1-3) dest!: handlers_registry(4))

lemma registration_registry:
  assumes "handle_process_rdma_registration e fd m s = Done s'"
  shows "oc_registry s' = add_node_fd (ni_node_id (msg_node_info m)) fd (add_node (msg_node_info m) (oc_registry s))"
proof -
  obtain b x where "xt_register_node (ni_node_id (msg_node_info m)) (ni_role (msg_node_info m)) (oc_exchange s) = Done (b, x)"
    using assms by (auto simp: handle_process_rdma_registration_def Let_def split: lock_outcome.splits)
  with assms show ?thesis by (auto simp: handle_process_rdma_registration_def Let_def split: if_splits)
qed

lemma decode_in_event:
  assumes "decode_in D s" and "cluster_event D ev s" and "orch_process_event e ev s = Done s'"
  shows "decode_in D s'"
proof (cases "msg_type (snd ev) = RDMA_PROCESS_REGISTRATION")
  case True
  let ?n = "msg_node_info (snd ev)"
  let ?s = "s\<lparr>oc_events_processed := oc_events_processed s + 1\<rparr>"
  have "handle_process_rdma_registration e (fst ev) (snd ev) ?s = Done s'"
    using assms(3) True by (cases ev) (simp add: orch_process_event_def)
  from registration_registry [OF this]
  have "oc_registry s' = add_node_fd (ni_node_id ?n) (fst ev) (add_node ?n (oc_registry s))" by simp
  then have sub: "snd ` set (nr_nodes (oc_registry s')) \<subseteq> insert ?n (snd ` set (nr_nodes (oc_registry s)))"
    using snd_put by (simp add: add_node_fd_def add_node_def)
  have new: "ni_role ?n = DECODE \<longrightarrow> ni_node_id ?n \<in> D"
    using assms(2) True by (simp add: cluster_event_def Let_def)
  show ?thesis
    unfolding decode_in_def
  proof (intro ballI impI)
    fix n assume "n \<in> snd ` set (nr_nodes (oc_registry s'))" and "ni_role n = DECODE"
    moreover have "n = ?n \<or> n \<in> snd ` set (nr_nodes (oc_registry s))" using calculation(1) sub by blast
    ultimately show "ni_node_id n \<in> D" using new assms(1) by (metis decode_in_def)
  qed
next
  case False
  then have "oc_registry s' = oc_registry s"
    using event_registry [of e "fst ev" "snd ev" s s'] assms(3) by simp
  with assms(1) show ?thesis by (simp add: decode_in_def)
qed

text \<open>An admitted request takes one slot of one decode node.\<close>

lemma admitted_given_out:
  assumes inv: "orch_inv s" and env: "env_ok e s" and dec: "decode_in D s" and fin: "finite D"
    and adm: "admitted e ev s" and ev: "orch_process_event e ev s = Done s'"
  shows "given_out D s + 1 \<le> given_out D s'"
proof -
  obtain fd m where m: "ev = (fd, m)" by fastforce
  let ?s = "s\<lparr>oc_events_processed := oc_events_processed s + 1\<rparr>"
  let ?rid = "ri_request_id (msg_request_info m)"
  obtain res rt where sel: "select_nodes_and_allocate_slot (en_draw e) (oc_registry s) ?rid (oc_router s) = (Some res, rt)"
      and fds: "get_node_fd (ni_node_id (rr_decode_node res)) (oc_registry s) \<noteq> None"
        "get_node_fd (ni_node_id (rr_prefill_node res)) (oc_registry s) \<noteq> None"
    using adm m by (auto simp: admitted_def split: option.splits) (metis prod.collapse)
  let ?d = "ni_node_id (rr_decode_node res)"
  have pre: "rt_inv (oc_router s)" "length (nr_nodes (oc_registry s)) < 2 ^ 64" "draws_ok (en_draw e)"
    "0 \<le> sc_max_slots_per_node (rt_slot_config (oc_router s))"
    using inv env by (simp_all add: orch_inv_def env_ok_def default_slot_config_def)
  have "msg_type m = CLIENT_REQUEST" using adm m by (simp add: admitted_def)
  then have s': "s' = handle_client_request e fd m ?s" using ev m by (simp add: orch_process_event_def)
  have avail: "get_available_slots n (oc_router s') = get_available_slots n (oc_router s) - (if n = ?d then 1 else 0)" for n
    using select_available(2) [OF sel pre refl, of n] sel fds
    by (auto simp: s' handle_client_request_def Let_def split: option.splits)
  have "rr_decode_node res \<in> set (get_healthy_nodes DECODE (oc_registry s))"
    using sel pre(1-3) by (cases rule: select_nodes_cases) auto
  then have d: "?d \<in> D" using dec by (auto simp: decode_in_def get_healthy_nodes_def)
  have "given_out D s' = given_out D s + (\<Sum>n\<in>D. if n = ?d then 1 else 0)"
    by (simp add: given_out_def avail flip: sum.distrib) (rule sum.cong, auto)
  then show ?thesis using d fin by simp
qed

lemma served_facts:
  "served c D k s \<Longrightarrow> finite D \<Longrightarrow> orch_inv s \<and> decode_in D s \<and> int k \<le> given_out D s"
proof (induction rule: served.induct)
  case (served_none epoll_fd)
  have "given_out D (new_orch c epoll_fd) = 0"
    by (simp add: given_out_def new_orch_def new_router_def available_slots_simps find_allocator_def default_slot_config_def)
  then show ?case
    using orch_reach_inv [OF orch_start] by (simp add: decode_in_def new_orch_def new_registry_def)
next
  case (served_event k s e ev s')
  then have inv: "orch_inv s" "decode_in D s" "int k \<le> given_out D s" by simp_all
  have "int (k + (if admitted e ev s then 1 else 0)) \<le> given_out D s'"
  proof (cases "admitted e ev s")
    case True
    from admitted_given_out [OF inv(1) served_event.hyps(2) inv(2) served_event.prems True served_event.hyps(4)] inv(3) True
    show ?thesis by simp
  next
    case False
    have "get_available_slots n (oc_router s') \<le> get_available_slots n (oc_router s)" for n
    proof (cases "msg_type (snd ev) = CLIENT_REQUEST")
      case True
      with served_event.hyps(2,4) inv(1) show ?thesis
        using client_available [of "s\<lparr>oc_events_processed := oc_events_processed s + 1\<rparr>" e n "fst ev" "snd ev"]
        by (cases ev) (auto simp: orch_process_event_def)
    next
      case False
      from other_event_router [OF served_event.hyps(4,3) False] show ?thesis by simp
    qed
    from given_out_mono [OF this, of D] inv(3) False show ?thesis by simp
  qed
  with orch_inv_event [OF inv(1) served_event.hyps(2,4)] decode_in_event [OF inv(2) served_event.hyps(3,4)]
  show ?case by simp
next
  case (served_io k s w)
  then show ?case by (simp add: orch_inv_def decode_in_def given_out_def)
qed

text \<open>C31 A cluster serves eight requests per decode node in its whole life: over any run of the events that
  clients and nodes send, in any order and however long, the orchestrator admits at most eight times as
  many requests as there are decode nodes, and once it has, no further request is admitted.\<close>

theorem lifetime_capacity:
  assumes "served c D k s" and "finite D"
  shows "k \<le> 8 * card D
    \<and> (k = 8 * card D \<and> env_ok e s \<and> cluster_event D ev s \<longrightarrow> \<not> admitted e ev s)"
proof (intro conjI impI notI)
  have bound: "k' \<le> 8 * card D" if "served c D k' s'" for k' s'
  proof -
    have "int k' \<le> 8 * int (card D)"
      using served_facts [OF that assms(2)] given_out_le [of s' D] by linarith
    then show ?thesis by linarith
  qed
  show "k \<le> 8 * card D" by (rule bound [OF assms(1)])
  assume full: "k = 8 * card D \<and> env_ok e s \<and> cluster_event D ev s" and adm: "admitted e ev s"
  then obtain s' where "orch_process_event e ev s = Done s'"
    by (cases ev) (simp add: orch_process_event_def admitted_def)
  from bound [OF served_event [OF assms(1) _ _ this]] full adm show False by simp
qed

section \<open>A cluster that is used up\<close>

text \<open>A run of one orchestrator over a list of events, checked and counted as it goes.\<close>

fun serve_all :: "string set \<Rightarrow> env \<Rightarrow> event list \<Rightarrow> nat \<times> orch \<Rightarrow> (nat \<times> orch) option" where
  "serve_all D e [] (k, s) = Some (k, s)"
| "serve_all D e (ev # evs) (k, s) =
     (if \<not> cluster_event D ev s \<or> 4 < length (nr_nodes (oc_registry s)) then None
      else case orch_process_event e ev s of
        Relocked \<Rightarrow> None
      | Done s' \<Rightarrow> serve_all D e evs (k + (if admitted e ev s then 1 else 0), s'))"

lemma served_all:
  "serve_all D e evs (k, s) = Some (k', s') \<Longrightarrow> served c D k s \<Longrightarrow> draws_ok (en_draw e) \<Longrightarrow> served c D k' s'"
proof (induction evs arbitrary: k s)
  case (Cons ev evs)
  then obtain s1 where s1: "orch_process_event e ev s = Done s1" "cluster_event D ev s"
      "length (nr_nodes (oc_registry s)) \<le> 4"
      "serve_all D e evs (k + (if admitted e ev s then 1 else 0), s1) = Some (k', s')"
    by (auto split: if_splits lock_outcome.splits)
  have "served c D (k + (if admitted e ev s then 1 else 0)) s1"
    using Cons.prems(2,3) s1 by (intro served_event) (simp_all add: env_ok_def)
  from Cons.IH [OF s1(4) this Cons.prems(3)] show ?case .
qed simp

text \<open>One prefill node, one decode node, eight requests.\<close>

definition registration_event :: "string \<Rightarrow> node_role \<Rightarrow> event" where
  "registration_event nid role = (21, sample_message\<lparr>msg_type := RDMA_PROCESS_REGISTRATION,
     msg_node_info := sample_node\<lparr>ni_node_id := nid, ni_role := role\<rparr>\<rparr>)"

definition request_event :: "string \<Rightarrow> event" where
  "request_event rid = (9, sample_message\<lparr>msg_type := CLIENT_REQUEST,
     msg_request_info := (msg_request_info sample_message)\<lparr>ri_request_id := rid\<rparr>\<rparr>)"

definition eight_requests :: "event list" where
  "eight_requests = registration_event ''p0'' PREFILL # registration_event ''d0'' DECODE
     # map (\<lambda>ch. request_event [ch]) ''abcdefgh''"

lemma eight_served:
  "map_option (map_prod (\<lambda>k. k) (\<lambda>s. length (nr_nodes (oc_registry s))))
     (serve_all {''d0''} sample_env eight_requests (0, new_orch sample_config 3)) = Some (8, 2)"
  by code_simp

theorem lifetime_capacity_witness:
  "\<exists>s. served sample_config {''d0''} 8 s \<and> \<not> admitted sample_env (request_event ''i'') s"
proof -
  obtain s where s: "serve_all {''d0''} sample_env eight_requests (0, new_orch sample_config 3) = Some (8, s)"
      and len: "length (nr_nodes (oc_registry s)) = 2"
    using eight_served by auto
  have draws: "draws_ok (en_draw sample_env)" by (simp add: sample_env_def)
  have run: "served sample_config {''d0''} 8 s" by (rule served_all [OF s served_none draws])
  have "env_ok sample_env s" using draws len by (simp add: env_ok_def)
  moreover have "cluster_event {''d0''} (request_event ''i'') s" by (simp add: cluster_event_def request_event_def)
  ultimately show ?thesis using lifetime_capacity [OF run, of sample_env "request_event ''i''"] run by auto
qed

end
