(* ===== verification/Sockets.thy ===== *)
theory Sockets
  imports Prelude
begin

text \<open>
  Socket options and flags: the TCP helpers of \<open>src/cpp/common/utils.cpp\<close> and \<open>set_nonblocking\<close> of
  \<open>src/cpp/nodes/epoll_worker_base.cpp\<close>. \<open>answer opt value\<close> says whether \<open>setsockopt\<close> accepts the option;
  each helper yields its result and the options it asked for, in order.
\<close>

section \<open>Socket options\<close>

datatype sock_option = TCP_NODELAY | SO_KEEPALIVE | TCP_KEEPIDLE | TCP_KEEPINTVL | TCP_KEEPCNT | SO_SNDBUF | SO_RCVBUF

type_synonym option_call = "sock_option \<times> int"
type_synonym option_answer = "sock_option \<Rightarrow> int \<Rightarrow> bool"

definition flag_of :: "bool \<Rightarrow> int" where
  "flag_of enable = (if enable then 1 else 0)"

definition set_tcp_nodelay :: "option_answer \<Rightarrow> bool \<Rightarrow> bool \<times> option_call list" where
  "set_tcp_nodelay answer enable =
     (let call = (TCP_NODELAY, flag_of enable) in
      if \<not> answer (fst call) (snd call) then (False, [call]) else (True, [call]))"

text \<open>On Linux: the three intervals are asked for whatever the others answer, and their failures only warn.\<close>

definition set_tcp_keepalive :: "option_answer \<Rightarrow> bool \<Rightarrow> int \<Rightarrow> int \<Rightarrow> int \<Rightarrow> bool \<times> option_call list" where
  "set_tcp_keepalive answer enable idle interval count =
     (let call = (SO_KEEPALIVE, flag_of enable) in
      if \<not> answer (fst call) (snd call) then (False, [call])
      else (True, call # (if enable then [(TCP_KEEPIDLE, idle), (TCP_KEEPINTVL, interval), (TCP_KEEPCNT, count)] else [])))"

definition set_send_buffer_size :: "option_answer \<Rightarrow> int \<Rightarrow> bool \<times> option_call list" where
  "set_send_buffer_size answer bytes =
     (let call = (SO_SNDBUF, bytes) in if \<not> answer (fst call) (snd call) then (False, [call]) else (True, [call]))"

definition set_recv_buffer_size :: "option_answer \<Rightarrow> int \<Rightarrow> bool \<times> option_call list" where
  "set_recv_buffer_size answer bytes =
     (let call = (SO_RCVBUF, bytes) in if \<not> answer (fst call) (snd call) then (False, [call]) else (True, [call]))"

text \<open>\<open>success &= ...\<close> does not stop at a failure.\<close>

fun all_of :: "(bool \<times> option_call list) list \<Rightarrow> bool \<times> option_call list" where
  "all_of [] = (True, [])"
| "all_of ((ok, calls) # rest) = (let (ok', calls') = all_of rest in (ok \<and> ok', calls @ calls'))"

definition optimize_tcp_socket :: "option_answer \<Rightarrow> bool \<times> option_call list" where
  "optimize_tcp_socket answer = all_of [set_tcp_nodelay answer True, set_tcp_keepalive answer True 60 10 3,
     set_send_buffer_size answer (256 * 1024), set_recv_buffer_size answer (256 * 1024)]"

text \<open>The result stands for four options; the keepalive intervals, without which the switch falls back to the
  system's two hours, do not count.\<close>

theorem optimize_tcp_socket_iff:
  "fst (optimize_tcp_socket answer) \<longleftrightarrow>
     answer TCP_NODELAY 1 \<and> answer SO_KEEPALIVE 1 \<and> answer SO_SNDBUF 262144 \<and> answer SO_RCVBUF 262144"
  by (simp add: optimize_tcp_socket_def set_tcp_nodelay_def set_tcp_keepalive_def set_send_buffer_size_def
      set_recv_buffer_size_def flag_of_def Let_def)

text \<open>No failure hides another option from the socket, except that a refused keepalive switch leaves out its
  intervals.\<close>

theorem optimize_tcp_socket_calls:
  "snd (optimize_tcp_socket answer) = (TCP_NODELAY, 1) # (SO_KEEPALIVE, 1)
     # (if answer SO_KEEPALIVE 1 then [(TCP_KEEPIDLE, 60), (TCP_KEEPINTVL, 10), (TCP_KEEPCNT, 3)] else [])
     @ [(SO_SNDBUF, 262144), (SO_RCVBUF, 262144)]"
  by (simp add: optimize_tcp_socket_def set_tcp_nodelay_def set_tcp_keepalive_def set_send_buffer_size_def
      set_recv_buffer_size_def flag_of_def Let_def)

section \<open>File status flags\<close>

definition O_NONBLOCK :: u32 where
  "O_NONBLOCK = 2048"

text \<open>\<open>getfl\<close> is what \<open>F_GETFL\<close> reads, \<open>setfl\<close> whether \<open>F_SETFL\<close> is accepted; the flags are those the descriptor has
  afterwards. An error of \<open>F_GETFL\<close> leaves them unknown.\<close>

definition set_nonblocking :: "u32 option \<Rightarrow> bool \<Rightarrow> bool \<times> u32 option" where
  "set_nonblocking getfl setfl =
     (case getfl of
        None \<Rightarrow> (False, None)
      | Some flags \<Rightarrow> if \<not> setfl then (False, Some flags) else (True, Some (flags OR O_NONBLOCK)))"

text \<open>After a success the descriptor does not block, and no other flag has changed.\<close>

theorem set_nonblocking_flags:
  assumes "set_nonblocking (Some flags) setfl = (True, Some flags')"
  shows "flags' AND O_NONBLOCK = O_NONBLOCK \<and> flags' AND NOT O_NONBLOCK = flags AND NOT O_NONBLOCK"
  using assms by (auto simp: set_nonblocking_def split: if_splits intro!: bit_word_eqI simp: bit_simps)

end
