(* ===== verification/EpollRun.thy ===== *)
theory EpollRun
  imports EpollLoop
begin

text \<open>
  The event loop \<open>EpollWorkerBase::run\<close> of \<open>src/cpp/nodes/epoll_worker_base.cpp\<close> over the answers of
  \<open>epoll_wait\<close>, and what the sharing of one loop by all connections means for each of them: steps on other
  descriptors, also responses that workers queue in between, do not touch a connection's buffers or what has
  been sent on it. The accept handlers are those of the orchestrator's worker.
\<close>

section \<open>Steps of the I/O thread and of the workers\<close>

text \<open>An event of one ready descriptor with the results of its socket calls and the connections an accept loop
  gets; or a response queued by a worker, which holds the mutex of the connections for the whole call.\<close>

datatype io_step =
    Io_event int ready "recv_result list" "send_result list" "accepted list"
  | Io_enqueue int message

fun io_fd :: "io_step \<Rightarrow> int" where
  "io_fd (Io_event fd ev rs ws accs) = fd"
| "io_fd (Io_enqueue fd m) = fd"

fun io_accepted :: "io_step \<Rightarrow> int set" where
  "io_accepted (Io_event fd ev rs ws accs) = fst ` set accs"
| "io_accepted (Io_enqueue fd m) = {}"

fun io_act :: "io_step \<Rightarrow> epoll_worker \<Rightarrow> epoll_worker option" where
  "io_act (Io_event fd ev rs ws accs) w =
     dispatch_event (orch_handle_client_accept accs) (orch_handle_server_accept accs) rs ws fd ev w"
| "io_act (Io_enqueue fd m) w = Some (enqueue_response fd m w)"

fun io_run :: "io_step list \<Rightarrow> epoll_worker \<Rightarrow> epoll_worker option" where
  "io_run [] w = Some w"
| "io_run (s # ss) w = io_act s w \<bind> io_run ss"

section \<open>The loop\<close>

text \<open>One round: another thread clears \<open>running_\<close>, or \<open>epoll_wait\<close> answers. \<open>EINTR\<close> and the timeout of 100 ms
  go back to the loop's head, any other error leaves the loop.\<close>

datatype wait_answer = Wait_ready "io_step list" | Wait_timeout | Wait_interrupted | Wait_failed
datatype loop_item = Stop_called | Waited wait_answer
datatype loop_end = Loop_waiting | Loop_left | Loop_failed

fun loop_run :: "loop_item list \<Rightarrow> epoll_worker \<Rightarrow> (loop_end \<times> epoll_worker) option" where
  "loop_run [] w = Some (if ew_running w then Loop_waiting else Loop_left, w)"
| "loop_run (Stop_called # is) w = loop_run is (w\<lparr>ew_running := False\<rparr>)"
| "loop_run (Waited a # is) w =
     (if \<not> ew_running w then Some (Loop_left, w)
      else case a of
        Wait_failed \<Rightarrow> Some (Loop_failed, w)
      | Wait_interrupted \<Rightarrow> loop_run is w
      | Wait_timeout \<Rightarrow> loop_run is w
      | Wait_ready ss \<Rightarrow> io_run ss w \<bind> loop_run is)"

text \<open>Timeouts and interrupts change nothing: leaving them out of a run gives the same end and the same state.\<close>

fun idle_item :: "loop_item \<Rightarrow> bool" where
  "idle_item (Waited Wait_timeout) = True"
| "idle_item (Waited Wait_interrupted) = True"
| "idle_item _ = False"

lemma loop_run_stopped: "\<not> ew_running w \<Longrightarrow> loop_run is w = Some (Loop_left, w)"
proof (induction "is")
  case (Cons x "is")
  have eq: "w\<lparr>ew_running := False\<rparr> = w" using Cons.prems by (cases w) simp
  show ?case
  proof (cases x)
    case Stop_called
    then have "loop_run (x # is) w = loop_run is (w\<lparr>ew_running := False\<rparr>)" by simp
    then show ?thesis unfolding eq using Cons by simp
  qed (use Cons.prems in simp)
qed simp

theorem idle_rounds_change_nothing: "loop_run (filter (\<lambda>x. \<not> idle_item x) is) w = loop_run is w"
proof (induction "is" w rule: loop_run.induct)
  case (3 a "is" w)
  show ?case
  proof (cases "ew_running w")
    case True
    show ?thesis
    proof (cases a)
      case (Wait_ready ss)
      with 3(1) [OF _ Wait_ready] True show ?thesis by (cases "io_run ss w") simp_all
    qed (use 3 True in simp_all)
  qed (simp add: loop_run_stopped)
qed simp_all

text \<open>After \<open>stop\<close> the thread leaves the loop at its head whatever \<open>epoll_wait\<close> would answer, so the join returns.\<close>

theorem stop_ends_loop: "loop_run (Stop_called # is) w = Some (Loop_left, w\<lparr>ew_running := False\<rparr>)"
  by (simp add: loop_run_stopped)

text \<open>An error of \<open>epoll_wait\<close> other than \<open>EINTR\<close> ends the I/O thread and nothing else: \<open>running_\<close> stays true,
  the connections stay open, and whatever workers queue afterwards stays in the output buffers.\<close>

lemma enqueue_only_buffers:
  "ew_running (enqueue_response fd m w) = ew_running w \<and> sent_to c (enqueue_response fd m w) = sent_to c w"
  by (simp add: enqueue_response_def put_conn_def modify_epoll_def record_call_def sent_to_def Let_def split: option.split)

theorem failed_wait_silences_worker:
  assumes "ew_running w" and "list_all (\<lambda>s. \<exists>fd m. s = Io_enqueue fd m) ss" and "io_run ss w = Some w'"
  shows "loop_run (Waited Wait_failed # is) w = Some (Loop_failed, w)
    \<and> ew_running w' \<and> sent_to c w' = sent_to c w"
proof
  show "loop_run (Waited Wait_failed # is) w = Some (Loop_failed, w)" using assms(1) by simp
  show "ew_running w' \<and> sent_to c w' = sent_to c w" using assms
  proof (induction ss arbitrary: w)
    case (Cons s ss)
    then obtain fd m where s: "s = Io_enqueue fd m" by auto
    note keeps = enqueue_only_buffers [of fd m w c]
    have "ew_running w' \<and> sent_to c w' = sent_to c (enqueue_response fd m w)"
      by (rule Cons.IH) (use Cons.prems s keeps in simp_all)
    with keeps show ?case by simp
  qed simp
qed

section \<open>Connections do not interfere\<close>

text \<open>What a connection is to its peer: its entry with the two buffers, and the bytes sent.\<close>

definition conn_view :: "int \<Rightarrow> epoll_worker \<Rightarrow> conn_state option \<times> bytes" where
  "conn_view c w = (find_conn w c, sent_to c w)"

definition is_listener :: "conn_state \<Rightarrow> bool" where
  "is_listener st \<longleftrightarrow> cs_type st = LISTEN_CLIENT \<or> cs_type st = LISTEN_SERVER"

definition no_listener :: "int \<Rightarrow> epoll_worker \<Rightarrow> bool" where
  "no_listener c w \<longleftrightarrow> (case find_conn w c of None \<Rightarrow> True | Some st \<Rightarrow> \<not> is_listener st)"

lemma sent_to_more [simp]:
  "sent_to c (record_call (Ctl_del fd) w) = sent_to c w" "sent_to c (record_call (Ctl_add fd ev) w) = sent_to c w"
  "sent_to c (record_call (Close_fd fd) w) = sent_to c w"
  "sent_to c (w\<lparr>ew_queue := q\<rparr>) = sent_to c w" "sent_to c (w\<lparr>ew_connections := m\<rparr>) = sent_to c w"
  "find_conn (w\<lparr>ew_queue := q\<rparr>) c = find_conn w c"
  by (simp_all add: sent_to_def record_call_def find_conn_def)

lemma sent_to_remove [simp]: "sent_to c (remove_connection fd w) = sent_to c w"
  by (simp add: remove_connection_def Let_def split: option.split)

lemma view_remove [simp]: "fd \<noteq> c \<Longrightarrow> conn_view c (remove_connection fd w) = conn_view c w"
  by (simp add: conn_view_def)

lemma view_read: "handle_read rs fd w = Some w' \<Longrightarrow> fd \<noteq> c \<Longrightarrow> conn_view c w' = conn_view c w"
  by (auto simp: handle_read_def conn_view_def Let_def split: option.splits parse_result.splits bool.splits prod.splits)

lemma view_write: "handle_write rs fd w = Some w' \<Longrightarrow> fd \<noteq> c \<Longrightarrow> conn_view c w' = conn_view c w"
  by (auto simp: handle_write_def conn_view_def modify_epoll_def Let_def
      split: option.splits if_splits prod.splits send_end.splits)

lemma view_enqueue: "fd \<noteq> c \<Longrightarrow> conn_view c (enqueue_response fd m w) = conn_view c w"
  by (auto simp: enqueue_response_def conn_view_def modify_epoll_def Let_def split: option.splits)

lemma view_accept: "c \<notin> fst ` set accs \<Longrightarrow> conn_view c (accept_loop ty accs w) = conn_view c w"
proof (induction ty accs w rule: accept_loop.induct)
  case (2 ty fd nb ctl cs w)
  have "conn_view c (snd (add_connection nb ctl fd ty w)) = conn_view c w"
    using 2 by (auto simp: add_connection_def conn_view_def Let_def)
  with 2 show ?case by simp
qed simp

text \<open>The handlers behind a dispatch to a connection.\<close>

definition serve_conn :: "recv_result list \<Rightarrow> send_result list \<Rightarrow> int \<Rightarrow> ready \<Rightarrow> epoll_worker \<Rightarrow> epoll_worker option" where
  "serve_conn rs ws fd ev w = (if rd_in ev then handle_read rs fd w else Some w)
     \<bind> (\<lambda>w. if rd_out ev then handle_write ws fd w else Some w)"

lemma dispatch_cases:
  "dispatch_event ac as rs ws fd ev w = (case find_conn w fd of
     None \<Rightarrow> Some w
   | Some st \<Rightarrow> if rd_err ev then Some (remove_connection fd w)
       else if cs_type st = LISTEN_CLIENT then Some (if rd_in ev then ac w else w)
       else if cs_type st = LISTEN_SERVER then Some (if rd_in ev then as w else w)
       else serve_conn rs ws fd ev w)"
  by (cases "find_conn w fd") (simp_all add: dispatch_event_def handle_error_def serve_conn_def)

lemma view_serve:
  assumes "serve_conn rs ws fd ev w = Some w'" and "fd \<noteq> c"
  shows "conn_view c w' = conn_view c w"
proof -
  obtain w1 where w1: "(if rd_in ev then handle_read rs fd w else Some w) = Some w1"
      "(if rd_out ev then handle_write ws fd w1 else Some w1) = Some w'"
    using assms(1) by (auto simp: serve_conn_def bind_eq_Some_conv)
  have "conn_view c w1 = conn_view c w" using w1(1) view_read [of rs fd w w1 c] assms(2) by (auto split: if_splits)
  moreover have "conn_view c w' = conn_view c w1" using w1(2) view_write [of ws fd w1 w' c] assms(2) by (auto split: if_splits)
  ultimately show ?thesis by simp
qed

lemma io_act_other:
  assumes "io_act s w = Some w'" and "io_fd s \<noteq> c" and "c \<notin> io_accepted s"
  shows "conn_view c w' = conn_view c w"
proof (cases s)
  case (Io_enqueue fd m)
  with assms show ?thesis by (auto simp: view_enqueue)
next
  case (Io_event fd ev rs ws accs)
  then have step: "dispatch_event (accept_loop CLIENT_CONN accs) (accept_loop SERVER_CONN accs) rs ws fd ev w = Some w'"
      and other: "fd \<noteq> c" "c \<notin> fst ` set accs"
    using assms by (simp_all add: orch_handle_client_accept_def orch_handle_server_accept_def)
  show ?thesis
  proof (cases "find_conn w fd")
    case None
    with step show ?thesis by (simp add: dispatch_cases)
  next
    case (Some st)
    then show ?thesis
      using step view_serve [of rs ws fd ev w w', OF _ other(1)] other view_accept [OF other(2)]
      by (simp add: dispatch_cases split: if_splits) (auto simp: other)
  qed
qed

text \<open>What parsing leaves of a connection does not depend on the queue.\<close>

fun parsed_conn :: "parse_result \<Rightarrow> conn_state option" where
  "parsed_conn (Waiting st q) = Some st"
| "parsed_conn (Removed q) = None"

lemma parsed_conn_queue: "parsed_conn (parse_messages fd st q) = parsed_conn (parse_messages fd st q')"
proof (induction st q arbitrary: q' rule: parse_induct [where fd = fd])
  case (step st q)
  show ?case
  proof (cases "parse_header st")
    case (Header_ok st1)
    show ?thesis
    proof (cases "payload_complete st1")
      case True
      with step [OF Header_ok] show ?thesis
        by (simp add: parse_rules(3) [OF Header_ok])
    qed (simp add: parse_rules(3) [OF Header_ok])
  qed (simp_all add: parse_rules)
qed

lemma read_own:
  assumes "handle_read rs c w = Some w'" and "conn_view c v = conn_view c w"
  shows "\<exists>v'. handle_read rs c v = Some v' \<and> conn_view c v' = conn_view c w'"
proof (cases "find_conn w c")
  case None
  with assms show ?thesis by (simp add: handle_read_def conn_view_def)
next
  case (Some st)
  have same: "find_conn v c = Some st" "sent_to c v = sent_to c w" using assms(2) Some by (simp_all add: conn_view_def)
  obtain d ok where loop: "recv_loop rs = Some (d, ok)" using assms(1) Some by (auto simp: handle_read_def split: option.splits)
  let ?st = "st\<lparr>cs_input_buffer := cs_input_buffer st @ d\<rparr>"
  have "parsed_conn (parse_messages c ?st (ew_queue v)) = parsed_conn (parse_messages c ?st (ew_queue w))"
    by (rule parsed_conn_queue)
  then show ?thesis
    using assms(1) Some same loop
    by (cases ok; cases "parse_messages c ?st (ew_queue v)"; cases "parse_messages c ?st (ew_queue w)")
      (auto simp: handle_read_def conn_view_def Let_def)
qed

lemma write_own:
  assumes "handle_write ws c w = Some w'" and "conn_view c v = conn_view c w"
  shows "\<exists>v'. handle_write ws c v = Some v' \<and> conn_view c v' = conn_view c w'"
proof (cases "find_conn w c")
  case None
  with assms show ?thesis by (simp add: handle_write_def conn_view_def)
next
  case (Some st)
  have same: "find_conn v c = Some st" "sent_to c v = sent_to c w" using assms(2) Some by (simp_all add: conn_view_def)
  show ?thesis
  proof (cases "cs_output_buffer st = []")
    case True
    with assms(1) Some same show ?thesis by (auto simp: handle_write_def conn_view_def modify_epoll_def)
  next
    case False
    then obtain s rest e where loop: "send_loop ws (cs_output_buffer st) = Some (s, rest, e)"
      using assms(1) Some by (auto simp: handle_write_def split: option.splits)
    with assms(1) Some same False show ?thesis
      by (cases e) (auto simp: handle_write_def conn_view_def modify_epoll_def Let_def)
  qed
qed

lemma serve_own:
  assumes "serve_conn rs ws c ev w = Some w'" and view: "conn_view c v = conn_view c w"
  shows "\<exists>v'. serve_conn rs ws c ev v = Some v' \<and> conn_view c v' = conn_view c w'"
proof -
  obtain w1 where w1: "(if rd_in ev then handle_read rs c w else Some w) = Some w1"
      "(if rd_out ev then handle_write ws c w1 else Some w1) = Some w'"
    using assms(1) by (auto simp: serve_conn_def bind_eq_Some_conv)
  obtain v1 where v1: "(if rd_in ev then handle_read rs c v else Some v) = Some v1" "conn_view c v1 = conn_view c w1"
    using w1(1) read_own [of rs c w w1 v] view by (auto split: if_splits)
  moreover obtain v' where "(if rd_out ev then handle_write ws c v1 else Some v1) = Some v'" "conn_view c v' = conn_view c w'"
    using w1(2) write_own [of ws c w1 w' v1] v1(2) by (auto split: if_splits)
  ultimately show ?thesis by (auto simp: serve_conn_def)
qed

text \<open>A connection never turns into a listening socket by its own events.\<close>

lemma read_keeps_type:
  "handle_read rs c w = Some w' \<Longrightarrow> no_listener c w \<Longrightarrow> no_listener c w'"
  by (auto simp: handle_read_def no_listener_def is_listener_def Let_def
      split: option.splits parse_result.splits bool.splits prod.splits dest!: parse_messages_keeps)

lemma write_keeps_type:
  "handle_write ws c w = Some w' \<Longrightarrow> no_listener c w \<Longrightarrow> no_listener c w'"
  by (auto simp: handle_write_def no_listener_def is_listener_def modify_epoll_def Let_def
      split: option.splits if_splits prod.splits send_end.splits)

lemma io_act_own:
  assumes step: "io_act s w = Some w'" and own: "io_fd s = c" and view: "conn_view c v = conn_view c w"
    and plain: "no_listener c w"
  shows "(\<exists>v'. io_act s v = Some v' \<and> conn_view c v' = conn_view c w') \<and> no_listener c w'"
proof (cases s)
  case (Io_enqueue fd m)
  then show ?thesis
    using assms
    by (cases "find_conn w c")
      (auto simp: enqueue_response_def conn_view_def no_listener_def is_listener_def modify_epoll_def Let_def)
next
  case (Io_event fd ev rs ws accs)
  then have fd: "fd = c" using own by simp
  show ?thesis
  proof (cases "find_conn w c")
    case None
    then show ?thesis using step view Io_event fd by (auto simp: dispatch_cases conn_view_def no_listener_def)
  next
    case (Some st)
    have same: "find_conn v c = Some st" using view Some by (simp add: conn_view_def)
    have ty: "cs_type st \<noteq> LISTEN_CLIENT" "cs_type st \<noteq> LISTEN_SERVER"
      using plain Some by (auto simp: no_listener_def is_listener_def)
    show ?thesis
    proof (cases "rd_err ev")
      case True
      then have "w' = remove_connection c w" using step Io_event fd Some by (simp add: dispatch_cases)
      moreover have "io_act s v = Some (remove_connection c v)" using True Io_event fd same by (simp add: dispatch_cases)
      ultimately show ?thesis using view by (auto simp: conn_view_def no_listener_def)
    next
      case False
      then have serve: "serve_conn rs ws c ev w = Some w'" using step Io_event fd Some ty by (simp add: dispatch_cases)
      obtain v' where v': "serve_conn rs ws c ev v = Some v'" "conn_view c v' = conn_view c w'"
        using serve_own [OF serve view] by blast
      have "no_listener c w'"
        using serve plain read_keeps_type write_keeps_type
        by (auto simp: serve_conn_def bind_eq_Some_conv split: if_splits)
      with v' False Io_event fd same ty show ?thesis by (auto simp: dispatch_cases)
    qed
  qed
qed

lemma no_listener_view: "conn_view c w' = conn_view c w \<Longrightarrow> no_listener c w' = no_listener c w"
  by (simp add: conn_view_def no_listener_def)

text \<open>C15 Connections served by one I/O thread do not interfere: whatever else the thread reads, writes, accepts
  or drops and whatever workers queue for other descriptors in between, a connection ends with the same
  entry, that is the same input and output buffers, or removed, and the same bytes sent on it, as if the
  steps on its own descriptor had been the only ones.\<close>

theorem connection_isolation:
  assumes "io_run ss w = Some w'" and "no_listener c w" and "\<forall>s \<in> set ss. c \<notin> io_accepted s"
  shows "\<exists>v'. io_run (filter (\<lambda>s. io_fd s = c) ss) w = Some v'
    \<and> find_conn v' c = find_conn w' c \<and> sent_to c v' = sent_to c w'"
proof -
  have "\<exists>v'. io_run (filter (\<lambda>s. io_fd s = c) ss) v = Some v' \<and> conn_view c v' = conn_view c w'"
    if "conn_view c v = conn_view c w" for v
    using assms that
  proof (induction ss arbitrary: v w)
    case (Cons s ss)
    then obtain w1 where w1: "io_act s w = Some w1" "io_run ss w1 = Some w'" by (auto simp: bind_eq_Some_conv)
    show ?case
    proof (cases "io_fd s = c")
      case True
      obtain v1 where v1: "io_act s v = Some v1" "conn_view c v1 = conn_view c w1" "no_listener c w1"
        using io_act_own [OF w1(1) True Cons.prems(4,2)] by blast
      have "\<exists>v'. io_run (filter (\<lambda>s. io_fd s = c) ss) v1 = Some v' \<and> conn_view c v' = conn_view c w'"
        by (rule Cons.IH [OF w1(2) v1(3) _ v1(2)]) (use Cons.prems(3) in simp)
      with True v1(1) show ?thesis by simp
    next
      case False
      have "conn_view c w1 = conn_view c w" using io_act_other [OF w1(1) False] Cons.prems(3) by simp
      then have "\<exists>v'. io_run (filter (\<lambda>s. io_fd s = c) ss) v = Some v' \<and> conn_view c v' = conn_view c w'"
        using Cons.IH [OF w1(2), of v] Cons.prems no_listener_view [of c w1 w] by simp
      with False show ?thesis by simp
    qed
  qed simp
  from this [OF refl] show ?thesis by (simp add: conn_view_def)
qed

text \<open>Two connections of the sample worker, and steps on both.\<close>

definition two_conns :: epoll_worker where
  "two_conns = put_conn 8 (new_conn_state\<lparr>cs_type := CLIENT_CONN, cs_conn := True\<rparr>) sample_worker"

definition in_event :: "int \<Rightarrow> bytes \<Rightarrow> io_step" where
  "in_event fd bs = Io_event fd \<lparr>rd_in = True, rd_out = False, rd_err = False\<rparr> [Recv_data bs, Recv_again] [] []"

definition mixed_steps :: "io_step list" where
  "mixed_steps = [in_event 7 [0, 0], Io_enqueue 8 sample_message, in_event 8 [1], in_event 7 [0, 5, 9],
     Io_event 8 \<lparr>rd_in = False, rd_out = False, rd_err = True\<rparr> [] [] []]"

lemma mixed_eval:
  "map_option (\<lambda>w. map_option cs_input_buffer (find_conn w 7)) (io_run mixed_steps two_conns) = Some (Some [9])
   \<and> map io_fd (filter (\<lambda>s. io_fd s = 7) mixed_steps) = [7, 7]
   \<and> list_all (\<lambda>s. 7 \<notin> io_accepted s) mixed_steps"
  by code_simp

theorem connection_isolation_witness:
  "map_option (\<lambda>w. map_option cs_input_buffer (find_conn w 7)) (io_run (filter (\<lambda>s. io_fd s = 7) mixed_steps) two_conns)
   = Some (Some [9])"
proof -
  obtain w where w: "io_run mixed_steps two_conns = Some w" "map_option cs_input_buffer (find_conn w 7) = Some [9]"
    using mixed_eval by auto
  have "no_listener 7 two_conns"
    by (simp add: two_conns_def no_listener_def is_listener_def sample_worker_def find_conn_def put_conn_def)
  moreover have "\<forall>s \<in> set mixed_steps. 7 \<notin> io_accepted s" using mixed_eval by (simp add: list_all_iff)
  ultimately show ?thesis using connection_isolation [OF w(1), of 7] w(2) by auto
qed

section \<open>An error on a listening socket\<close>

text \<open>\<open>EPOLLERR\<close> or \<open>EPOLLHUP\<close> on a listening socket is handled like one on a connection: the entry goes, the
  descriptor is taken out of epoll but not closed, and later readiness of it is ignored, so nobody is
  accepted any more.\<close>

theorem listener_error_stops_accepting:
  assumes "find_conn w fd = Some st" and "is_listener st" and "\<not> cs_conn st" and "rd_err ev"
  shows "\<exists>w'. io_act (Io_event fd ev rs ws accs) w = Some w' \<and> find_conn w' fd = None
    \<and> ew_trace w' = ew_trace w @ [Ctl_del fd] \<and> io_act (Io_event fd ev' rs' ws' accs') w' = Some w'"
proof -
  have "io_act (Io_event fd ev rs ws accs) w = Some (remove_connection fd w)"
    using assms(1,4) by (simp add: dispatch_cases)
  moreover have "ew_trace (remove_connection fd w) = ew_trace w @ [Ctl_del fd]"
    using assms(1,3) by (simp add: remove_connection_def Let_def) (simp add: record_call_def)
  ultimately show ?thesis by (intro exI [of _ "remove_connection fd w"]) (simp add: dispatch_cases)
qed

end
