(* ===== verification/WriteRace.thy ===== *)
theory WriteRace
  imports EpollLoop
begin

text \<open>
  \<open>EpollWorkerBase::handle_write\<close> (\<open>src/cpp/nodes/epoll_worker_base.cpp\<close>) releases the connections mutex before it tells epoll that the
  connection no longer waits for room: \<open>EpollLoop\<close> takes the function as one step, here it is cut at that release, and the workers'
  \<open>enqueue_response\<close> may come in between.
\<close>

section \<open>The two halves of a write\<close>

text \<open>What remains to be done when the mutex has been released.\<close>

datatype write_end = Stop_monitoring | Remove_conn | Write_over

definition write_locked :: "send_result list \<Rightarrow> int \<Rightarrow> epoll_worker \<Rightarrow> (write_end \<times> epoll_worker) option" where
  "write_locked script fd w =
     (case find_conn w fd of
        None \<Rightarrow> Some (Write_over, w)
      | Some st \<Rightarrow>
          (if cs_output_buffer st = [] then Some (Stop_monitoring, w)
           else
             (case send_loop script (cs_output_buffer st) of
                None \<Rightarrow> None
              | Some (s, rest, e) \<Rightarrow>
                  (let st = st\<lparr>cs_output_buffer := []\<rparr>;
                       w = record_call (Send_bytes fd s) w in
                   Some (case e of
                      Would_block \<Rightarrow> (Write_over, put_conn fd (st\<lparr>cs_output_buffer := rest @ cs_output_buffer st\<rparr>) w)
                    | Send_failed \<Rightarrow> (Remove_conn, put_conn fd st w)
                    | All_sent \<Rightarrow> (Stop_monitoring, put_conn fd st w))))))"

definition write_unlocked :: "int \<Rightarrow> write_end \<Rightarrow> epoll_worker \<Rightarrow> epoll_worker" where
  "write_unlocked fd we w = (case we of
     Stop_monitoring \<Rightarrow> modify_epoll fd EPOLLIN w | Remove_conn \<Rightarrow> remove_connection fd w | Write_over \<Rightarrow> w)"

lemma put_put [simp]: "put k v (put k u m) = put k v m"
  by (induction m) auto

lemma erase_put [simp]: "erase k (put k v m) = erase k m"
  by (induction m) auto

text \<open>With nothing in between, the halves make up the whole.\<close>

lemma write_halves: "handle_write script fd w = map_option (\<lambda>(we, w'). write_unlocked fd we w') (write_locked script fd w)"
  by (auto simp: handle_write_def write_locked_def write_unlocked_def remove_connection_def put_conn_def find_conn_def record_call_def
      Let_def split: option.split send_end.split)

section \<open>What epoll reports\<close>

text \<open>Whether the descriptor is monitored for room to write, after the calls the kernel has seen: epoll reports room only then, and only
  then \<open>handle_write\<close> runs.\<close>

definition arms :: "int \<Rightarrow> sys_call \<Rightarrow> bool \<Rightarrow> bool" where
  "arms fd c b = (case c of
     Ctl_add fd' i \<Rightarrow> if fd' = fd then in_write i else b
   | Ctl_mod fd' i \<Rightarrow> if fd' = fd then in_write i else b
   | Ctl_del fd' \<Rightarrow> if fd' = fd then False else b
   | _ \<Rightarrow> b)"

definition monitored :: "int \<Rightarrow> epoll_worker \<Rightarrow> bool" where
  "monitored fd w = fold (arms fd) (ew_trace w) False"

text \<open>The I/O thread is between its two halves of a write, or not.\<close>

record writing =
  wr_worker :: epoll_worker
  wr_end :: "write_end option"

datatype write_action = Enqueue message | Write_first "send_result list" | Write_second | Read "recv_result list"

fun write_act :: "int \<Rightarrow> write_action \<Rightarrow> writing \<Rightarrow> writing option" where
  "write_act fd (Enqueue m) x = Some (x\<lparr>wr_worker := enqueue_response fd m (wr_worker x)\<rparr>)"
| "write_act fd (Write_first script) x =
     (if wr_end x = None \<and> monitored fd (wr_worker x)
      then map_option (\<lambda>(we, w). \<lparr>wr_worker = w, wr_end = Some we\<rparr>) (write_locked script fd (wr_worker x)) else None)"
| "write_act fd Write_second x = map_option (\<lambda>we. \<lparr>wr_worker = write_unlocked fd we (wr_worker x), wr_end = None\<rparr>) (wr_end x)"
| "write_act fd (Read script) x =
     (if wr_end x = None then map_option (\<lambda>w. x\<lparr>wr_worker := w\<rparr>) (handle_read script fd (wr_worker x)) else None)"

fun write_run :: "int \<Rightarrow> write_action list \<Rightarrow> writing \<Rightarrow> writing option" where
  "write_run fd [] x = Some x"
| "write_run fd (a # as) x = (case write_act fd a x of None \<Rightarrow> None | Some x' \<Rightarrow> write_run fd as x')"

fun responses :: "write_action list \<Rightarrow> message list" where
  "responses [] = []"
| "responses (Enqueue m # as) = m # responses as"
| "responses (_ # as) = responses as"

lemma monitored_record [simp]: "monitored fd (record_call c w) = arms fd c (monitored fd w)"
  by (simp add: monitored_def record_call_def)

lemma monitored_conns [simp]: "monitored fd (put_conn fd' st w) = monitored fd w" "monitored fd (w\<lparr>ew_queue := q\<rparr>) = monitored fd w"
  "monitored fd (w\<lparr>ew_connections := cs\<rparr>) = monitored fd w"
  by (simp_all add: monitored_def put_conn_def)

lemma arms_simps [simp]:
  "arms fd (Ctl_mod fd i) b = in_write i" "arms fd (Ctl_del fd) b = False" "arms fd (Close_fd fd') b = b" "arms fd (Send_bytes fd' bs) b = b"
  by (simp_all add: arms_def)

lemma monitored_enqueue:
  "monitored fd (enqueue_response fd m w) = (monitored fd w \<or> (find_conn w fd \<noteq> None \<and> pending_for fd w = []))"
  by (auto simp: enqueue_response_def modify_epoll_def pending_for_def EPOLLIN_OUT_def Let_def split: option.split)

section \<open>A response that is never sent\<close>

text \<open>A connection whose output nobody will write: nothing is monitored, no write is under way, and the output buffer is not empty or the connection
  is gone. Neither a further response nor what arrives on the connection changes that.\<close>

definition stranded :: "int \<Rightarrow> writing \<Rightarrow> bool" where
  "stranded fd x \<longleftrightarrow> wr_end x = None \<and> \<not> monitored fd (wr_worker x)
     \<and> (find_conn (wr_worker x) fd \<noteq> None \<longrightarrow> pending_for fd (wr_worker x) \<noteq> [])"

lemma sent_to_queue [simp]: "sent_to fd (w\<lparr>ew_queue := q\<rparr>) = sent_to fd w" "find_conn (w\<lparr>ew_queue := q\<rparr>) fd = find_conn w fd"
  "sent_to fd (remove_connection fd' w) = sent_to fd w" "monitored fd (remove_connection fd w) = False"
  by (simp_all add: sent_to_def find_conn_def remove_connection_def record_call_def monitored_def Let_def split: option.split)

lemma parse_messages_output:
  "parse_messages fd st q = Waiting st' q' \<Longrightarrow> cs_output_buffer st' = cs_output_buffer st"
  using parse_messages_keeps [of fd st q] by (auto split: parse_result.splits)

lemma read_keeps_output:
  assumes "handle_read script fd w = Some w'"
  shows "sent_to fd w' = sent_to fd w \<and> (monitored fd w' \<longrightarrow> monitored fd w)
    \<and> (find_conn w' fd \<noteq> None \<longrightarrow> find_conn w fd \<noteq> None \<and> pending_for fd w' = pending_for fd w)"
  using assms
  by (auto simp: handle_read_def pending_for_def Let_def dest!: parse_messages_output
      split: option.splits prod.splits bool.splits parse_result.splits)

lemma frame_nonempty [simp]: "frame m \<noteq> []"
  by (simp add: frame_def frame_bytes_def mem_of_u32_def)

lemma stranded_act:
  assumes "stranded fd x" and "write_act fd a x = Some y"
  shows "stranded fd y \<and> sent_to fd (wr_worker y) = sent_to fd (wr_worker x)
    \<and> (find_conn (wr_worker y) fd \<noteq> None \<longrightarrow> find_conn (wr_worker x) fd \<noteq> None
         \<and> pending_for fd (wr_worker y) = pending_for fd (wr_worker x) @ concat (map frame (responses [a])))"
proof (cases a)
  case (Enqueue m)
  then show ?thesis
    using assms monitored_enqueue [of fd m "wr_worker x"]
    by (auto simp: stranded_def enqueue_response_def modify_epoll_def pending_for_def Let_def split: option.splits)
next
  case (Read script)
  then obtain w where w: "handle_read script fd (wr_worker x) = Some w" "y = x\<lparr>wr_worker := w\<rparr>"
    using assms(2) by (auto split: if_splits)
  from read_keeps_output [OF w(1)] show ?thesis using assms(1) Read w(2) by (auto simp: stranded_def)
qed (use assms in \<open>auto simp: stranded_def\<close>)

lemma stranded_run:
  "stranded fd x \<Longrightarrow> write_run fd as x = Some y \<Longrightarrow> sent_to fd (wr_worker y) = sent_to fd (wr_worker x)
    \<and> (find_conn (wr_worker y) fd \<noteq> None \<longrightarrow> find_conn (wr_worker x) fd \<noteq> None
         \<and> pending_for fd (wr_worker y) = pending_for fd (wr_worker x) @ concat (map frame (responses as)))"
proof (induction as arbitrary: x)
  case (Cons a as)
  then obtain z where z: "write_act fd a x = Some z" "write_run fd as z = Some y" by (auto split: option.splits)
  have "responses (a # as) = responses [a] @ responses as" by (cases a) simp_all
  with stranded_act [OF Cons.prems(1) z(1)] Cons.IH [OF _ z(2)] show ?case by simp
qed simp

lemma complete_write:
  assumes "write_act fd (Write_first script) x = Some x1" and "wr_end x1 = Some Stop_monitoring"
  shows "find_conn (wr_worker x1) fd \<noteq> None \<and> pending_for fd (wr_worker x1) = []"
  using assms
  by (auto simp: write_locked_def pending_for_def Let_def split: if_splits option.splits send_end.splits prod.splits)

lemma enqueues_run:
  "find_conn (wr_worker x) fd \<noteq> None \<Longrightarrow> write_run fd (map Enqueue ms) x = Some y \<Longrightarrow>
     wr_end y = wr_end x \<and> sent_to fd (wr_worker y) = sent_to fd (wr_worker x) \<and> find_conn (wr_worker y) fd \<noteq> None
     \<and> pending_for fd (wr_worker y) = pending_for fd (wr_worker x) @ concat (map frame ms)"
proof (induction ms arbitrary: x)
  case (Cons m ms)
  let ?x = "x\<lparr>wr_worker := enqueue_response fd m (wr_worker x)\<rparr>"
  have "sent_to fd (wr_worker ?x) = sent_to fd (wr_worker x) \<and> find_conn (wr_worker ?x) fd \<noteq> None
      \<and> pending_for fd (wr_worker ?x) = pending_for fd (wr_worker x) @ frame m"
    using Cons.prems(1) by (auto simp: enqueue_response_def modify_epoll_def pending_for_def Let_def)
  with Cons.IH [of ?x] Cons.prems(2) show ?case by simp
qed simp

lemma write_run_append:
  "write_run fd (as @ bs) x = (case write_run fd as x of None \<Rightarrow> None | Some y \<Rightarrow> write_run fd bs y)"
  by (induction as arbitrary: x) (auto split: option.split)

text \<open>C25 A response can be lost without an error. The I/O thread has written all that was queued for a connection and released
  the mutex, the workers queue \<open>ms\<close>, and then the I/O thread tells epoll to monitor reading only. If nothing was queued
  in between, the next response has the connection monitored for room to write again. If anything was, none of it and nothing that is
  queued later is ever sent, whatever is queued and read from then on: the output buffer only grows as long as the connection lives.\<close>

theorem response_between_halves_stranded:
  assumes "write_act fd (Write_first script) x = Some x1" and "wr_end x1 = Some Stop_monitoring"
    and "write_run fd (map Enqueue ms @ [Write_second]) x1 = Some x2"
  shows "(ms = [] \<longrightarrow> (\<forall>m. monitored fd (enqueue_response fd m (wr_worker x2))))
    \<and> (ms \<noteq> [] \<longrightarrow> (\<forall>as y. write_run fd as x2 = Some y \<longrightarrow> sent_to fd (wr_worker y) = sent_to fd (wr_worker x1)
         \<and> (find_conn (wr_worker y) fd \<noteq> None
              \<longrightarrow> pending_for fd (wr_worker y) = concat (map frame (ms @ responses as)))))"
proof -
  note written = complete_write [OF assms(1,2)]
  obtain z where z: "write_run fd (map Enqueue ms) x1 = Some z" "write_act fd Write_second z = Some x2"
    using assms(3) by (auto simp: write_run_append split: option.splits)
  note queued = enqueues_run [OF conjunct1 [OF written] z(1)]
  have x2: "wr_end x2 = None" "wr_worker x2 = modify_epoll fd EPOLLIN (wr_worker z)"
    using z(2) queued assms(2) by (auto simp: write_unlocked_def)
  have same: "find_conn (wr_worker x2) fd \<noteq> None" "pending_for fd (wr_worker x2) = concat (map frame ms)"
    "sent_to fd (wr_worker x2) = sent_to fd (wr_worker x1)" "\<not> monitored fd (wr_worker x2)"
    using queued written by (simp_all add: x2(2) modify_epoll_def pending_for_def EPOLLIN_def)
  have "stranded fd x2" if "ms \<noteq> []" using that same x2(1) by (cases ms) (simp_all add: stranded_def)
  then show ?thesis
    using stranded_run [of fd x2] same by (auto simp: monitored_enqueue)
qed

theorem response_between_halves_stranded_witness:
  "\<exists>x1 y. write_act 7 (Write_first [Sent (length (frame sample_message))])
        \<lparr>wr_worker = enqueue_response 7 sample_message sample_worker, wr_end = None\<rparr> = Some x1
     \<and> write_run 7 [Enqueue sample_message, Write_second, Enqueue sample_message] x1 = Some y
     \<and> sent_to 7 (wr_worker y) = frame sample_message
     \<and> pending_for 7 (wr_worker y) = frame sample_message @ frame sample_message"
proof -
  let ?x = "\<lparr>wr_worker = enqueue_response 7 sample_message sample_worker, wr_end = None\<rparr>"
  let ?first = "Write_first [Sent (length (frame sample_message))]"
  obtain b bs where f: "frame sample_message = b # bs" by (cases "frame sample_message") auto
  have conn: "find_conn (enqueue_response 7 sample_message sample_worker) 7 = Some (new_conn_state\<lparr>cs_type := SERVER_CONN, cs_conn := True, cs_output_buffer := frame sample_message\<rparr>)
      \<and> monitored 7 (enqueue_response 7 sample_message sample_worker) \<and> sent_to 7 (enqueue_response 7 sample_message sample_worker) = []"
    by (simp add: enqueue_response_def sample_worker_def find_conn_def put_conn_def modify_epoll_def record_call_def
        new_conn_state_def monitored_def EPOLLIN_OUT_def sent_to_def Let_def)
  obtain x1 where x1: "write_act 7 ?first ?x = Some x1" "wr_end x1 = Some Stop_monitoring"
      "sent_to 7 (wr_worker x1) = frame sample_message" "find_conn (wr_worker x1) 7 \<noteq> None"
    using conn by (simp add: write_locked_def f Let_def)
  have known: "find_conn (enqueue_response 7 m w) 7 \<noteq> None" if "find_conn w 7 \<noteq> None" for m w
    using that by (auto simp: enqueue_response_def modify_epoll_def Let_def)
  let ?x2 = "\<lparr>wr_worker = modify_epoll 7 EPOLLIN (enqueue_response 7 sample_message (wr_worker x1)), wr_end = None\<rparr>"
  let ?y = "\<lparr>wr_worker = enqueue_response 7 sample_message (wr_worker ?x2), wr_end = None\<rparr>"
  have x2: "write_run 7 (map Enqueue [sample_message] @ [Write_second]) x1 = Some ?x2"
    using x1(2) by (simp add: write_unlocked_def)
  have y: "write_run 7 [Enqueue sample_message] ?x2 = Some ?y" by simp
  have "find_conn (wr_worker ?y) 7 \<noteq> None" using known [OF x1(4)] by (simp add: known modify_epoll_def)
  moreover have "sent_to 7 (wr_worker ?y) = sent_to 7 (wr_worker x1) \<and> (find_conn (wr_worker ?y) 7 \<noteq> None
      \<longrightarrow> pending_for 7 (wr_worker ?y) = concat (map frame ([sample_message] @ responses [Enqueue sample_message])))"
    by (rule response_between_halves_stranded [OF x1(1,2) x2, THEN conjunct2, rule_format, OF _ y]) simp
  ultimately have "sent_to 7 (wr_worker ?y) = frame sample_message"
    "pending_for 7 (wr_worker ?y) = frame sample_message @ frame sample_message" using x1(3) by simp_all
  moreover have "write_run 7 [Enqueue sample_message, Write_second, Enqueue sample_message] x1 = Some ?y"
    using x1(2) by (simp add: write_unlocked_def)
  ultimately show ?thesis using x1(1) by blast
qed

end
