(* ===== verification/Programs.thy ===== *)
theory Programs
  imports NodeProps OrchestratorProps VllmServer BenchmarkClient
begin

text \<open>
  The programs: the logger (\<open>src/cpp/common/logger.cpp\<close>), the mains of the orchestrator and of the nodes
  (\<open>apps/orchestrator/orchestrator_main.cpp\<close>, \<open>apps/prefill/prefill_main.cpp\<close>, \<open>apps/decode/decode_main.cpp\<close>)
  with their signal handler, and the command line of the benchmark client
  (\<open>apps/client/benchmark_client.cpp\<close>). The file system, the sockets and what the threads do until the
  signal are arguments.
\<close>

section \<open>The logger\<close>

datatype log_level = LOG_DEBUG | LOG_INFO | LOG_WARNING | LOG_ERROR

text \<open>The enumerators are ordered as they are declared.\<close>

fun level_rank :: "log_level \<Rightarrow> nat" where
  "level_rank LOG_DEBUG = 0"
| "level_rank LOG_INFO = 1"
| "level_rank LOG_WARNING = 2"
| "level_rank LOG_ERROR = 3"

lemma level_rank_inject: "level_rank a = level_rank b \<Longrightarrow> a = b"
  by (cases a; cases b) simp_all

instantiation log_level :: linorder
begin

definition less_eq_log_level :: "log_level \<Rightarrow> log_level \<Rightarrow> bool" where
  "less_eq_log_level a b \<longleftrightarrow> level_rank a \<le> level_rank b"

definition less_log_level :: "log_level \<Rightarrow> log_level \<Rightarrow> bool" where
  "less_log_level a b \<longleftrightarrow> level_rank a < level_rank b"

instance
  by standard (auto simp: less_eq_log_level_def less_log_level_def dest: level_rank_inject)

end

fun level_str :: "log_level \<Rightarrow> string" where
  "level_str LOG_DEBUG = ''DEBUG''"
| "level_str LOG_INFO = ''INFO''"
| "level_str LOG_WARNING = ''WARNING''"
| "level_str LOG_ERROR = ''ERROR''"

text \<open>The level, the lines written, and whether the thread at hand is inside the section of \<open>log_mutex\<close>.\<close>

record logger =
  lg_level :: log_level
  lg_lines :: "string list"
  lg_locked :: bool

definition new_logger :: logger where
  "new_logger = \<lparr>lg_level = LOG_DEBUG, lg_lines = [], lg_locked = False\<rparr>"

definition set_level :: "log_level \<Rightarrow> logger \<Rightarrow> logger" where
  "set_level level l = l\<lparr>lg_level := level\<rparr>"

text \<open>\<open>time\<close> is the formatted local time. The mutex is not recursive.\<close>

definition log_message :: "string \<Rightarrow> string \<Rightarrow> log_level \<Rightarrow> logger \<Rightarrow> logger lock_outcome" where
  "log_message time message level l =
     (if level < lg_level l then Done l
      else if lg_locked l then Relocked
      else Done (l\<lparr>lg_lines := lg_lines l @ [''['' @ time @ ''] ['' @ level_str level @ ''] '' @ message]\<rparr>))"

definition log_debug :: "string \<Rightarrow> string \<Rightarrow> logger \<Rightarrow> logger lock_outcome" where
  "log_debug time message = log_message time message LOG_DEBUG"

definition log_info :: "string \<Rightarrow> string \<Rightarrow> logger \<Rightarrow> logger lock_outcome" where
  "log_info time message = log_message time message LOG_INFO"

definition log_warning :: "string \<Rightarrow> string \<Rightarrow> logger \<Rightarrow> logger lock_outcome" where
  "log_warning time message = log_message time message LOG_WARNING"

definition log_error :: "string \<Rightarrow> string \<Rightarrow> logger \<Rightarrow> logger lock_outcome" where
  "log_error time message = log_message time message LOG_ERROR"

text \<open>Exactly the messages of the level or above are written, in order.\<close>

fun log_all :: "(string \<times> string \<times> log_level) list \<Rightarrow> logger \<Rightarrow> logger lock_outcome" where
  "log_all [] l = Done l"
| "log_all ((time, message, level) # ms) l =
     (case log_message time message level l of Relocked \<Rightarrow> Relocked | Done l \<Rightarrow> log_all ms l)"

theorem log_all_filters:
  assumes "\<not> lg_locked l"
  shows "log_all ms l = Done (l\<lparr>lg_lines := lg_lines l
    @ map (\<lambda>(time, message, level). ''['' @ time @ ''] ['' @ level_str level @ ''] '' @ message)
        (filter (\<lambda>(time, message, level). lg_level l \<le> level) ms)\<rparr>)"
  using assms by (induction ms arbitrary: l) (auto simp: log_message_def not_less [symmetric])

section \<open>Signals\<close>

text \<open>The handler logs and then clears the global \<open>running\<close>, in the thread the signal interrupts.\<close>

definition signal_handler :: "string \<Rightarrow> string \<Rightarrow> logger \<times> bool \<Rightarrow> (logger \<times> bool) lock_outcome" where
  "signal_handler time message s =
     (case log_info time message (fst s) of
        Relocked \<Rightarrow> Relocked
      | Done l \<Rightarrow> Done (l, False))"

text \<open>A termination signal can hang the process it should end: if it reaches a thread that is writing a log
  line, and informational messages are logged, the handler asks for the logger's mutex, which that very
  thread holds, and neither returns nor clears the flag; otherwise it clears the flag.\<close>

theorem signal_while_logging_deadlocks:
  "signal_handler time message s = Relocked \<longleftrightarrow> lg_locked (fst s) \<and> lg_level (fst s) \<le> LOG_INFO"
  "signal_handler time message s \<noteq> Relocked \<Longrightarrow> \<exists>l. signal_handler time message s = Done (l, False)"
  by (auto simp: signal_handler_def log_info_def log_message_def not_less split: if_splits)

section \<open>The servers' mains\<close>

text \<open>The loop over \<open>argv\<close>, the program's name included: the last \<open>--config\<close> that has a value counts, everything else is
  skipped.\<close>

fun config_arg :: "string \<Rightarrow> string list \<Rightarrow> string" where
  "config_arg path [] = path"
| "config_arg path [arg] = path"
| "config_arg path (arg # v # args) =
     (if arg = ''--config'' then config_arg v args else config_arg path (v # args))"

text \<open>\<open>life\<close> is what the threads do between the start and the signal. The exit code and, if one was built, the engine at
  the end.\<close>

definition new_engine :: "config \<Rightarrow> int \<Rightarrow> engine" where
  "new_engine c epoll_fd = \<lparr>eg_orch = new_orch c epoll_fd, eg_running = False, eg_pool_running = False,
     eg_client_fd = -1, eg_server_fd = -1\<rparr>"

definition orchestrator_main ::
  "'y yaml_api \<Rightarrow> (string \<Rightarrow> 'y option) \<Rightarrow> int \<times> int \<Rightarrow> int \<Rightarrow> start_calls \<Rightarrow> (engine \<Rightarrow> engine) \<Rightarrow> string list
   \<Rightarrow> int \<times> engine option" where
  "orchestrator_main api files g epoll_fd calls life argv =
     (let path = config_arg [] argv in
      if path = [] then (1, None)
      else case config_from_file api g (files path) of
        Inl e \<Rightarrow> (1, None)
      | Inr c \<Rightarrow>
          (case engine_start calls (new_engine c epoll_fd) of
             (False, eng) \<Rightarrow> (1, Some eng)
           | (True, eng) \<Rightarrow> (0, Some (engine_shutdown (life eng)))))"

text \<open>Prefill and decode nodes run the same main; the node registers itself with the accessor before it starts.\<close>

definition node_main ::
  "'y yaml_api \<Rightarrow> (string \<Rightarrow> 'y option) \<Rightarrow> int \<times> int \<Rightarrow> bool \<Rightarrow> node_info \<Rightarrow> node_start_calls \<Rightarrow> (node \<Rightarrow> node) \<Rightarrow> string list
   \<Rightarrow> int \<times> node option \<times> rdma_engine option" where
  "node_main api files g gpu mem calls life argv =
     (let path = config_arg [] argv; nobody = initial_current_node in
      if path = [] then (1, None, nobody)
      else case config_from_file api g (files path) of
        Inl e \<Rightarrow> (1, None, nobody)
      | Inr c \<Rightarrow>
          (let n = new_node c mem; accessor = set_current_node (Some (nd_engine n)) nobody in
           case node_start calls n of
             (False, n) \<Rightarrow> (1, Some n, accessor)
           | (True, n) \<Rightarrow> (0, Some (node_shutdown gpu (life n)), accessor)))"

text \<open>The two programs differ in what they print only.\<close>

definition prefill_main ::
  "'y yaml_api \<Rightarrow> (string \<Rightarrow> 'y option) \<Rightarrow> int \<times> int \<Rightarrow> bool \<Rightarrow> node_info \<Rightarrow> node_start_calls \<Rightarrow> (node \<Rightarrow> node) \<Rightarrow> string list
   \<Rightarrow> int \<times> node option \<times> rdma_engine option" where
  "prefill_main = node_main"

text \<open>The code is 0 exactly for a file that was named, read and accepted and a start that succeeded, and then the
  engine has been shut down unless its threads had done so; every other way ends with 1.\<close>

theorem orchestrator_main_exit:
  "fst (orchestrator_main api files g epoll_fd calls life argv) = 0 \<longleftrightarrow>
     (\<exists>c eng. config_arg [] argv \<noteq> [] \<and> config_from_file api g (files (config_arg [] argv)) = Inr c
        \<and> engine_start calls (new_engine c epoll_fd) = (True, eng)
        \<and> orchestrator_main api files g epoll_fd calls life argv = (0, Some (engine_shutdown (life eng)))
        \<and> \<not> eg_running (engine_shutdown (life eng)))"
  "fst (orchestrator_main api files g epoll_fd calls life argv) \<in> {0, 1}"
  by (auto simp: orchestrator_main_def Let_def engine_shutdown_def split: sum.splits prod.splits bool.splits)

theorem node_main_exit:
  "fst (node_main api files g gpu mem calls life argv) = 0 \<longleftrightarrow>
     (\<exists>c n. config_arg [] argv \<noteq> [] \<and> config_from_file api g (files (config_arg [] argv)) = Inr c
        \<and> node_start calls (new_node c mem) = (True, n)
        \<and> fst (snd (node_main api files g gpu mem calls life argv)) = Some (node_shutdown gpu (life n))
        \<and> \<not> nd_running (node_shutdown gpu (life n)))"
  "fst (node_main api files g gpu mem calls life argv) \<in> {0, 1}"
  by (auto simp: node_main_def Let_def node_shutdown_def split: sum.splits prod.splits bool.splits)

lemma config_arg_skip: "''--config'' \<notin> set args \<Longrightarrow> config_arg path args = path"
  by (induction path args rule: config_arg.induct) auto

lemma config_arg_last:
  "''--config'' \<notin> set post \<Longrightarrow> config_arg path (pre @ [''--config'', v] @ post) = v \<or> (\<exists>us. pre = us @ [''--config''])"
proof (induction path pre rule: config_arg.induct)
  case (2 path arg)
  then show ?case by (cases post) (auto simp: config_arg_skip)
next
  case (3 path arg u args)
  show ?case
  proof (cases "arg = ''--config''")
    case True
    with 3(1) [OF True 3(3)] show ?thesis by auto
  next
    case False
    with 3(2) [OF False 3(3)] show ?thesis by auto
  qed
qed (simp add: config_arg_skip)

section \<open>The benchmark client's command line\<close>

record bench_options =
  bo_host :: string
  bo_port :: int
  bo_mode :: string
  bo_num_requests :: int
  bo_max_tokens :: int
  bo_prompt :: string

definition default_options :: bench_options where
  "default_options = \<lparr>bo_host = ''localhost'', bo_port = 9000, bo_mode = ''single'', bo_num_requests = 100,
     bo_max_tokens = 50, bo_prompt = ''Once upon a time''\<rparr>"

text \<open>\<open>std::stoi\<close>: white space, a sign, then as many digits as there are; what follows them is ignored. No digit and a value outside
  \<open>int\<close> throw (\<open>None\<close>).\<close>

fun leading_digits :: "nat \<Rightarrow> string \<Rightarrow> nat" where
  "leading_digits n [] = n"
| "leading_digits n (c # cs) = (case digit_of c of None \<Rightarrow> n | Some d \<Rightarrow> leading_digits (10 * n + d) cs)"

definition is_space :: "char \<Rightarrow> bool" where
  "is_space c \<longleftrightarrow> c = CHR '' '' \<or> (let k = (of_char c :: nat) in 9 \<le> k \<and> k \<le> 13)"

definition unsigned_stoi :: "int \<Rightarrow> string \<Rightarrow> int option" where
  "unsigned_stoi sign s =
     (if s = [] \<or> digit_of (hd s) = None then None
      else let i = sign * int (leading_digits 0 s) in if is_c_int i then Some i else None)"

definition stoi :: "string \<Rightarrow> int option" where
  "stoi s = (case dropWhile is_space s of
     [] \<Rightarrow> None
   | c # cs \<Rightarrow> if c = CHR ''-'' then unsigned_stoi (-1) cs
       else if c = CHR ''+'' then unsigned_stoi 1 cs
       else unsigned_stoi 1 (c # cs))"

text \<open>An exception of \<open>stoi\<close> is not caught anywhere.\<close>

datatype parse_end = Parsed bench_options | Help_shown | Unknown_option string | Number_throws

fun parse_options :: "string list \<Rightarrow> bench_options \<Rightarrow> parse_end" where
  "parse_options [] opts = Parsed opts"
| "parse_options (arg # args) opts =
     (if arg = ''--help'' then Help_shown
      else case args of
        [] \<Rightarrow> Unknown_option arg
      | v # rest \<Rightarrow>
          if arg = ''-h'' \<or> arg = ''--host'' then parse_options rest (opts\<lparr>bo_host := v\<rparr>)
          else if arg = ''-p'' \<or> arg = ''--port'' then
            (case stoi v of None \<Rightarrow> Number_throws | Some i \<Rightarrow> parse_options rest (opts\<lparr>bo_port := i\<rparr>))
          else if arg = ''-m'' \<or> arg = ''--mode'' then parse_options rest (opts\<lparr>bo_mode := v\<rparr>)
          else if arg = ''-n'' \<or> arg = ''--num'' then
            (case stoi v of None \<Rightarrow> Number_throws | Some i \<Rightarrow> parse_options rest (opts\<lparr>bo_num_requests := i\<rparr>))
          else if arg = ''-t'' \<or> arg = ''--tokens'' then
            (case stoi v of None \<Rightarrow> Number_throws | Some i \<Rightarrow> parse_options rest (opts\<lparr>bo_max_tokens := i\<rparr>))
          else if arg = ''--prompt'' then parse_options rest (opts\<lparr>bo_prompt := v\<rparr>)
          else Unknown_option arg)"

text \<open>The lines of the help text.\<close>

definition usage_text :: "string \<Rightarrow> string list" where
  "usage_text prog = [
     ''Usage: '' @ prog @ '' [options]'',
     [],
     ''Options:'',
     ''  -h, --host <host>       Orchestrator hostname (default: localhost)'',
     ''  -p, --port <port>       Orchestrator port (default: 9000)'',
     ''  -m, --mode <mode>       Benchmark mode: single, throughput (default: single)'',
     ''  -n, --num <num>         Number of requests for throughput mode (default: 100)'',
     ''  -t, --tokens <tokens>   Max tokens to generate (default: 50)'',
     ''  --prompt <prompt>       Prompt text (default: '' @ [CHR 0x27] @ ''Once upon a time'' @ [CHR 0x27] @ '')'',
     ''  --help                  Show this help message'',
     [],
     ''Examples:'',
     ''  # Single request'',
     ''  '' @ prog @ '' --host clgpu014.clemson.cloudlab.us --prompt '' @ [CHR 0x22] @ ''Hello world'' @ [CHR 0x22],
     [],
     ''  # Throughput benchmark'',
     ''  '' @ prog @ '' --host clgpu014.clemson.cloudlab.us --mode throughput --num 100'',
     []]"

text \<open>The exit code, \<open>None\<close> for a process that ends by an uncaught exception, and what the run gave: \<open>connect\<close> and the calls of
  the requests answer as before. A throughput run makes as many requests as asked for, none for a negative number.\<close>

datatype bench_run = No_run | Single_run "string option" | Throughput_run "bench_stats option"

definition client_main ::
  "connect_calls \<Rightarrow> request_calls \<Rightarrow> (nat \<Rightarrow> request_calls \<times> u64) \<Rightarrow> string list \<Rightarrow> int option \<times> bench_run" where
  "client_main k q qs args =
     (case parse_options args default_options of
        Help_shown \<Rightarrow> (Some 0, No_run)
      | Unknown_option opt \<Rightarrow> (Some 1, No_run)
      | Number_throws \<Rightarrow> (None, No_run)
      | Parsed opts \<Rightarrow>
          if bo_mode opts = ''single'' then
            (Some 0, Single_run (run_single_request k q (bo_prompt opts) (bo_max_tokens opts)))
          else if bo_mode opts = ''throughput'' then
            (Some 0, Throughput_run (run_throughput_benchmark k (map qs [0..<nat (bo_num_requests opts)])
               (bo_prompt opts) (bo_max_tokens opts)))
          else (Some 1, No_run))"

definition show_options :: "bench_options \<Rightarrow> string list" where
  "show_options opts = [''--host'', bo_host opts, ''--port'', show_int (bo_port opts), ''--mode'', bo_mode opts,
     ''--num'', show_int (bo_num_requests opts), ''--tokens'', show_int (bo_max_tokens opts), ''--prompt'', bo_prompt opts]"

text \<open>Numbers read back.\<close>

lemma digit_of_digit: "d < 10 \<Longrightarrow> digit_of (char_of (48 + d)) = Some d"
  by (simp add: digit_of_def Let_def of_char_of)

lemma leading_digits_snoc:
  "list_all (\<lambda>c. digit_of c \<noteq> None) s \<Longrightarrow> leading_digits n (s @ t) = leading_digits (leading_digits n s) t"
  by (induction s arbitrary: n) auto

lemma show_nat_digits: "list_all (\<lambda>c. digit_of c \<noteq> None) (show_nat n)"
proof (induction n rule: show_nat.induct)
  case (1 n)
  then show ?case by (subst show_nat.simps) (simp add: digit_of_digit)
qed

lemma leading_digits_show: "leading_digits 0 (show_nat n) = n"
proof (induction n rule: show_nat.induct)
  case (1 n)
  show ?case
  proof (cases "n < 10")
    case True
    then show ?thesis by (subst show_nat.simps) (simp add: digit_of_digit)
  next
    case False
    then have "leading_digits 0 (show_nat n) = leading_digits (n div 10) [char_of (48 + n mod 10)]"
      using 1 leading_digits_snoc [OF show_nat_digits, of 0 "n div 10"] by (subst show_nat.simps) simp
    then show ?thesis by (simp add: digit_of_digit)
  qed
qed

lemma unsigned_stoi_show:
  assumes "is_c_int (sign * int n)"
  shows "unsigned_stoi sign (show_nat n) = Some (sign * int n)"
proof -
  have "digit_of (hd (show_nat n)) \<noteq> None"
    using show_nat_digits [of n] show_nat_nonempty [of n] unfolding list_all_iff by (metis hd_in_set)
  then show ?thesis
    using assms unfolding unsigned_stoi_def leading_digits_show by (simp add: show_nat_nonempty)
qed

lemma show_nat_head: "\<exists>c cs. show_nat n = c # cs \<and> digit_of c \<noteq> None"
  using show_nat_digits [of n] show_nat_nonempty [of n] by (cases "show_nat n") (auto simp: list_all_iff)

lemma digit_char_kind: "digit_of c \<noteq> None \<Longrightarrow> \<not> is_space c \<and> c \<noteq> CHR ''-'' \<and> c \<noteq> CHR ''+''"
  by (auto simp: digit_of_def is_space_def Let_def split: if_splits)

lemma minus_no_space: "\<not> is_space CHR ''-''"
  by (simp add: is_space_def)

theorem stoi_show_int:
  assumes "is_c_int i"
  shows "stoi (show_int i) = Some i"
proof (cases "i < 0")
  case True
  then have "is_c_int (- 1 * int (nat (- i)))" using assms by simp
  from unsigned_stoi_show [OF this] True show ?thesis
    by (simp add: show_int_def stoi_def minus_no_space)
next
  case False
  then have "is_c_int (1 * int (nat i))" using assms by simp
  note num = unsigned_stoi_show [OF this]
  obtain c cs where c: "show_nat (nat i) = c # cs" "digit_of c \<noteq> None" using show_nat_head by blast
  with digit_char_kind [OF c(2)] num False show ?thesis
    by (simp add: show_int_def stoi_def)
qed

text \<open>The command line carries every setting: whatever the strings are, also empty ones and ones that look like options,
  and whatever numbers an \<open>int\<close> holds, the options written out are read back unchanged.\<close>

theorem options_roundtrip:
  assumes "is_c_int (bo_port opts)" and "is_c_int (bo_num_requests opts)" and "is_c_int (bo_max_tokens opts)"
  shows "parse_options (show_options opts) start = Parsed opts"
  using assms by (simp add: show_options_def stoi_show_int)

text \<open>A number that is cut off or followed by anything is accepted as far as it goes; one without digits, or too large, ends
  the process.\<close>

theorem number_arguments:
  "parse_options [''-p'', ''90o0''] default_options = Parsed (default_options\<lparr>bo_port := 90\<rparr>)"
  "parse_options [''-p'', ''port''] default_options = Number_throws"
  "parse_options [''-n'', ''4294967296''] default_options = Number_throws"
  by (simp_all add: stoi_def is_space_def unsigned_stoi_def digit_of_def is_c_int_def INT_MAX_def Let_def)

text \<open>The exit code says nothing of the benchmark: with a valid mode it is 0 whether or not the client could connect and
  whatever became of the requests.\<close>

theorem exit_code_ignores_failure:
  assumes "parse_options args default_options = Parsed opts" and "bo_mode opts = ''single'' \<or> bo_mode opts = ''throughput''"
    and "\<not> cc_connected k"
  shows "fst (client_main k q qs args) = Some 0
    \<and> snd (client_main k q qs args) \<in> {Single_run None, Throughput_run None}"
proof -
  have "\<exists>closed c. client_connect k new_client = (False, closed, c)"
    using assms(3) by (auto simp: client_connect_def new_client_def Let_def)
  then obtain closed c where "client_connect k new_client = (False, closed, c)" by blast
  then show ?thesis
    using assms(1,2) by (auto simp: client_main_def run_single_request_def run_throughput_benchmark_def)
qed

text \<open>The two command lines that the help text gives as examples are accepted.\<close>

theorem usage_examples:
  "parse_options [''--host'', ''clgpu014.clemson.cloudlab.us'', ''--prompt'', ''Hello world''] default_options
     = Parsed (default_options\<lparr>bo_host := ''clgpu014.clemson.cloudlab.us'', bo_prompt := ''Hello world''\<rparr>)"
  "parse_options [''--host'', ''clgpu014.clemson.cloudlab.us'', ''--mode'', ''throughput'', ''--num'', ''100''] default_options
     = Parsed (default_options\<lparr>bo_host := ''clgpu014.clemson.cloudlab.us'', bo_mode := ''throughput'', bo_num_requests := 100\<rparr>)"
  by code_simp+

end
