(* ===== verification/Diagnostics.thy ===== *)
theory Diagnostics
  imports Programs
begin

text \<open>
  What the code reports about the InfiniBand identifiers it uses: the two ways in which
  \<open>src/cpp/rdma/gpudirect_rdma.cpp\<close> and \<open>src/cpp/rdma/device_probe.cpp\<close> print a GID, and the check at the end of
  \<open>discover_ib_ports\<close>, which looks at the GID of every port that was found and only logs what it finds.
\<close>

section \<open>Printing an identifier\<close>

definition hex_digit :: "nat \<Rightarrow> char" where
  "hex_digit d = ''0123456789abcdef'' ! d"

text \<open>A byte in hexadecimal, filled with a zero to two places.\<close>

definition hex_byte :: "u8 \<Rightarrow> string" where
  "hex_byte b = [hex_digit (unat b div 16), hex_digit (unat b mod 16)]"

text \<open>\<open>fmt_gid\<close> is a loop over the 16 bytes, with a colon before every byte of even index but the first.\<close>

definition fmt_gid :: "u8 list \<Rightarrow> string" where
  "fmt_gid gid = foldl (\<lambda>out i. out @ (if i \<noteq> 0 \<and> i mod 2 = 0 then '':'' else []) @ hex_byte (gid ! i)) [] [0..<16]"

text \<open>The probe uses one format string with sixteen arguments.\<close>

definition gid_text :: "u8 list \<Rightarrow> string" where
  "gid_text g =
     hex_byte (g ! 0) @ hex_byte (g ! 1) @ '':'' @ hex_byte (g ! 2) @ hex_byte (g ! 3) @ '':''
     @ hex_byte (g ! 4) @ hex_byte (g ! 5) @ '':'' @ hex_byte (g ! 6) @ hex_byte (g ! 7) @ '':''
     @ hex_byte (g ! 8) @ hex_byte (g ! 9) @ '':'' @ hex_byte (g ! 10) @ hex_byte (g ! 11) @ '':''
     @ hex_byte (g ! 12) @ hex_byte (g ! 13) @ '':'' @ hex_byte (g ! 14) @ hex_byte (g ! 15)"

lemma hex_digit_inject: "i < 16 \<Longrightarrow> j < 16 \<Longrightarrow> hex_digit i = hex_digit j \<Longrightarrow> i = j"
proof -
  have "distinct ''0123456789abcdef''" by simp
  then show "i < 16 \<Longrightarrow> j < 16 \<Longrightarrow> hex_digit i = hex_digit j \<Longrightarrow> i = j"
    unfolding hex_digit_def by (subst (asm) nth_eq_iff_index_eq) simp_all
qed

lemma hex_byte_inject [simp]: "hex_byte a = hex_byte b \<longleftrightarrow> a = b"
proof
  assume eq: "hex_byte a = hex_byte b"
  have "unat c div 16 < 16" "unat c mod 16 < 16" for c :: u8
    using unsigned_less [of c, where 'a = nat] by simp_all
  then have "unat a div 16 = unat b div 16" "unat a mod 16 = unat b mod 16"
    using eq hex_digit_inject by (auto simp: hex_byte_def)
  then have "unat a = unat b" by (metis div_mult_mod_eq)
  then show "a = b" by (simp add: word_unat_eq_iff)
qed simp

lemma length_hex_byte [simp]: "length (hex_byte b) = 2"
  by (simp add: hex_byte_def)

lemma append_hex_inject: "hex_byte a @ s = hex_byte b @ t \<longleftrightarrow> a = b \<and> s = t"
  by (simp add: append_eq_append_conv)

lemma upt_16: "[0..<16] = [0, 1, 2, 3, 4, 5, 6, 7, 8, 9, 10, 11, 12, 13, 14, 15::nat]"
  by code_simp

text \<open>The two formats agree, and the text of an identifier determines it.\<close>

theorem gid_formats_agree: "fmt_gid g = gid_text g"
  by (simp add: fmt_gid_def gid_text_def upt_16)

theorem gid_text_inject:
  assumes "length g = 16" and "length h = 16" and "gid_text g = gid_text h"
  shows "g = h"
proof (rule nth_equalityI)
  show "length g = length h" using assms(1,2) by simp
next
  fix i assume "i < length g"
  then have "i \<in> set [0..<16]" using assms(1) by simp
  then have "i \<in> {0, 1, 2, 3, 4, 5, 6, 7, 8, 9, 10, 11, 12, 13, 14, 15}" unfolding upt_16 by simp
  then show "g ! i = h ! i" using assms(3) by (auto simp: gid_text_def append_hex_inject)
qed

section \<open>The check of the configured index\<close>

text \<open>Both halves of the identifier are zero.\<close>

definition gid_zero :: "u8 list \<Rightarrow> bool" where
  "gid_zero g \<longleftrightarrow> list_all (\<lambda>b. b = 0) g"

text \<open>What is logged for one port: nothing if its device does not open, a warning if the query fails or the identifier is
  zero, otherwise the identifier.\<close>

definition gid_report :: "machine \<Rightarrow> int \<Rightarrow> ib_port_info \<Rightarrow> (string \<times> log_level) option" where
  "gid_report m index p =
     (case List.find (\<lambda>d. hc_name d = ip_dev_name p) (ma_devices m) of
        None \<Rightarrow> None
      | Some d \<Rightarrow>
          if \<not> hc_opens d then None
          else
            let head = ''[IB] '' @ ip_dev_name p @ '' port '' @ show_int (ip_port p);
                warning = (head @ '' GID index '' @ show_int index
                  @ '' is zero/invalid. Check gid_index in config (0=IB, 3=RoCEv2).'', LOG_WARNING)
            in Some (case hc_gid d (ip_port p) index of
                 None \<Rightarrow> warning
               | Some g \<Rightarrow> if gid_zero g then warning
                   else (head @ '' GID['' @ show_int index @ '']='' @ gid_text g, LOG_DEBUG)))"

definition gid_check :: "machine \<Rightarrow> int \<Rightarrow> ib_port_info list \<Rightarrow> (string \<times> log_level) list" where
  "gid_check m index ports = List.map_filter (gid_report m index) ports"

text \<open>The check rejects nothing: a port whose identifier at the configured index is missing or zero is still among those the
  probe returns and may be bound; all the check does is one warning for it. Binding such a port fills the
  identifier with zeros.\<close>

theorem unusable_gid_only_warned:
  assumes "discover_ib_ports r m = Inr ports" and "p \<in> set ports"
    and "List.find (\<lambda>d. hc_name d = ip_dev_name p) (ma_devices m) = Some d" and "hc_opens d"
    and "hc_gid d (ip_port p) (rc_gid_index r) = None"
  shows "\<exists>line. (line, LOG_WARNING) \<in> set (gid_check m (rc_gid_index r) ports)
    \<and> query_gid m (ip_dev_name p) (ip_port p) (rc_gid_index r) = replicate 16 0"
proof -
  obtain line where "gid_report m (rc_gid_index r) p = Some (line, LOG_WARNING)"
    using assms(3-5) by (simp add: gid_report_def Let_def)
  then have "(line, LOG_WARNING) \<in> set (gid_check m (rc_gid_index r) ports)"
    using assms(2) by (auto simp: gid_check_def in_map_filter)
  then show ?thesis using assms(3-5) by (auto simp: query_gid_def)
qed

end
