(* ===== verification/Bootstrap.thy ===== *)
theory Bootstrap
  imports Serving "HOL-Library.Multiset"
begin

text \<open>
  A cluster on its way up, from the start of its nodes to the orchestrator that has heard from all of them: every
  node connects and sends what it is (\<open>Node::start\<close>), the orchestrator collects the registrations and
  announces the members, every node pairs its queue pairs with those of the others, starts vLLM and
  reports ready, and the orchestrator takes the reports. Everything that passes between two
  processes passes as the bytes one I/O thread writes and the other reads.
\<close>

section \<open>Bytes out\<close>

text \<open>The I/O thread writes what a connection has pending, in one go.\<close>

definition take_out :: "int \<Rightarrow> epoll_worker \<Rightarrow> (bytes \<times> epoll_worker) option" where
  "take_out fd w = (let out = pending_for fd w in map_option (\<lambda>w'. (out, w')) (handle_write [Sent (length out)] fd w))"

definition node_sends :: "node \<Rightarrow> (bytes \<times> node) option" where
  "node_sends n = map_option (\<lambda>(out, w). (out, n\<lparr>nd_epoll := w\<rparr>)) (take_out (nd_orchestrator_fd n) (nd_epoll n))"

definition orch_sends :: "int \<Rightarrow> orch \<Rightarrow> (bytes \<times> orch) option" where
  "orch_sends fd s = map_option (\<lambda>(out, w). (out, s\<lparr>oc_epoll := w\<rparr>)) (take_out fd (oc_epoll s))"

lemma take_out_written:
  assumes "awaits_frame fd w"
  obtains w' where "take_out fd w = Some (pending_for fd w, w')" "has_room w' = has_room w"
    "\<And>c. awaits_frame c w' = awaits_frame c w" "\<And>c. pending_for c w' = (if c = fd then [] else pending_for c w)"
proof -
  obtain st where st: "find_conn w fd = Some st" using assms by (auto simp: awaits_frame_def)
  then have pend: "pending_for fd w = cs_output_buffer st" by (simp add: pending_for_def)
  show ?thesis
  proof (cases "cs_output_buffer st")
    case Nil
    then show ?thesis
      by (intro that [of "modify_epoll fd EPOLLIN w"])
        (use st pend in \<open>auto simp: take_out_def handle_write_def has_room_def awaits_frame_def pending_for_def
          modify_epoll_def record_call_def find_conn_def\<close>)
  next
    case (Cons b bs)
    then have "send_loop [Sent (length (cs_output_buffer st))] (cs_output_buffer st) = Some (cs_output_buffer st, [], All_sent)"
      by simp
    with st pend Cons show ?thesis
      by (intro that [of "modify_epoll fd EPOLLIN (put_conn fd (st\<lparr>cs_output_buffer := []\<rparr>)
            (record_call (Send_bytes fd (cs_output_buffer st)) w))"])
        (auto simp: take_out_def handle_write_def has_room_def awaits_frame_def pending_for_def
          modify_epoll_def record_call_def find_conn_def put_conn_def Let_def)
  qed
qed

section \<open>A node starts\<close>

text \<open>What is chosen from outside when a node is launched: its configuration, the content of uninitialised scalars, the answers
  to the calls of its start, and the descriptor the orchestrator's \<open>accept\<close> returns for its connection.\<close>

record launch =
  la_fd :: int
  la_config :: config
  la_scalars :: node_info
  la_calls :: node_start_calls
  la_env :: node_env

definition started :: "launch \<Rightarrow> node" where
  "started l = snd (node_start (la_calls l) (new_node (la_config l) (la_scalars l)))"

definition start_and_register :: "launch \<Rightarrow> (bytes \<times> node) option" where
  "start_and_register l = (case node_start (la_calls l) (new_node (la_config l) (la_scalars l)) of
     (False, n) \<Rightarrow> None | (True, n) \<Rightarrow> node_sends n)"

text \<open>The message a started node has queued.\<close>

definition registration_of :: "launch \<Rightarrow> message" where
  "registration_of l = (let info = node_info_of (started l) in
     create_rdma_process_registration (ns_now (la_calls l)) (ns_message (la_calls l)) (ni_node_id info) info)"

lemma start_stage:
  assumes "node_start a (new_node c g) = (True, n)" and "cf_orchestrator_event_queue_size c \<noteq> 0"
  shows "has_room (nd_epoll n) \<and> awaits_frame (nd_orchestrator_fd n) (nd_epoll n) \<and> nd_config n = c
    \<and> pending_for (nd_orchestrator_fd n) (nd_epoll n) = frame (create_rdma_process_registration (ns_now a) (ns_message a)
        (ni_node_id (node_info_of n)) (node_info_of n))"
proof -
  obtain sfd where sfd: "ns_bind a = Some sfd" "ns_listen a"
    using assms(1) by (auto simp: node_start_def Let_def split: if_splits option.splits)
  let ?w = "node_worker_start (ns_epoll_fd a) (ns_nonblock a) (ns_ctl a) sfd (nd_epoll (new_node c g))"
  have room: "has_room ?w"
    using assms(2) by (auto simp: node_worker_start_def has_room_def new_node_def new_event_queue_def close_epoll_def
        record_call_def add_listener_def put_conn_def unat_gt_0 Let_def)
  obtain b eng where init: "(if cf_use_gpu c then rdma_initialize (ns_init a) (nd_engine (new_node c g))
      else (True, nd_engine (new_node c g))) = (b, eng)" by fastforce
  have cfg: "nd_config (new_node c g) = c" by (simp add: new_node_def)
  from assms(1) init sfd cfg obtain fd where fd: "ns_connect a = Some fd" "0 \<le> fd"
      "nd_epoll n = enqueue_response fd (create_rdma_process_registration (ns_now a) (ns_message a)
        (ni_node_id (node_info_of n)) (node_info_of n)) (snd (add_connection True True fd SERVER_CONN ?w))"
      "nd_orchestrator_fd n = fd" "nd_config n = c"
    by (cases b)
      (auto simp: node_start_def abort_start_def connect_to_orchestrator_def send_node_info_to_orchestrator_def
        node_worker_of_def set_node_worker_def Let_def add_connection_def split: if_splits option.splits)
  have "pending_for fd (snd (add_connection True True fd SERVER_CONN ?w)) = []"
    "find_conn (snd (add_connection True True fd SERVER_CONN ?w)) fd \<noteq> None"
    "awaits_frame fd (snd (add_connection True True fd SERVER_CONN ?w))"
    "has_room (snd (add_connection True True fd SERVER_CONN ?w))"
    using room by (simp_all add: add_connection_def pending_for_def awaits_frame_def has_room_def find_conn_def put_conn_def
        record_call_def Let_def)
  then show ?thesis by (simp add: fd pending_enqueue)
qed

section \<open>The orchestrator collects the registrations\<close>

fun orch_serves_all :: "(env \<times> int \<times> bytes) list \<Rightarrow> orch \<Rightarrow> orch option" where
  "orch_serves_all [] s = Some s"
| "orch_serves_all ((e, fd, bs) # xs) s = (case orch_serves e fd bs s of None \<Rightarrow> None | Some s' \<Rightarrow> orch_serves_all xs s')"

lemma orch_serves_all_append:
  "orch_serves_all (xs @ ys) s = (case orch_serves_all xs s of None \<Rightarrow> None | Some s' \<Rightarrow> orch_serves_all ys s')"
  by (induction xs arbitrary: s) (auto split: option.split)

text \<open>The orchestrator that began as \<open>s0\<close> after the registrations \<open>rs\<close>, each the descriptor and the node it brought.\<close>

definition member_table :: "(int \<times> node_info) list \<Rightarrow> node_registry" where
  "member_table rs = \<lparr>nr_nodes = map (\<lambda>(fd, i). (ni_node_id i, i)) rs, nr_fds = map (\<lambda>(fd, i). (ni_node_id i, fd)) rs\<rparr>"

abbreviation member_ids :: "(int \<times> node_info) list \<Rightarrow> string list" where
  "member_ids rs \<equiv> map (\<lambda>(fd, i). ni_node_id i) rs"

definition gathered :: "orch \<Rightarrow> (int \<times> node_info) list \<Rightarrow> orch \<Rightarrow> bool" where
  "gathered s0 rs s \<longleftrightarrow> has_room (oc_epoll s) \<and> (\<forall>c. awaits_frame c (oc_epoll s) = awaits_frame c (oc_epoll s0))
     \<and> oc_registry s = member_table rs \<and> set (xt_registered (oc_exchange s)) = set (member_ids rs)
     \<and> xt_ready (oc_exchange s) = [] \<and> xt_inv (oc_exchange s)
     \<and> oc_config s = oc_config s0 \<and> oc_node_id s = oc_node_id s0 \<and> oc_state s = oc_state s0"

lemma put_new: "k \<notin> fst ` set xs \<Longrightarrow> put k v xs = xs @ [(k, v)]"
  by (induction xs) auto

lemma member_table_add:
  "ni_node_id i \<notin> set (member_ids rs) \<Longrightarrow>
    add_node_fd (ni_node_id i) fd (add_node i (member_table rs)) = member_table (rs @ [(fd, i)])"
  by (force simp: member_table_def add_node_def add_node_fd_def image_iff intro!: put_new)

lemma member_table_nodes: "get_all_nodes (member_table rs) = map snd rs"
  by (simp add: member_table_def get_all_nodes_def case_prod_unfold)

lemma member_table_fd:
  "distinct (member_ids rs) \<Longrightarrow> (fd, i) \<in> set rs \<Longrightarrow> get_node_fd (ni_node_id i) (member_table rs) = Some fd"
  by (force simp: member_table_def get_node_fd_def case_prod_unfold comp_def intro!: map_of_is_SomeI)

lemma members_on:
  assumes "distinct (member_ids rs)"
  shows "filter (\<lambda>n. get_node_fd (ni_node_id n) (member_table rs) = Some c) (get_all_nodes (member_table rs))
    = map snd (filter (\<lambda>(fd, i). fd = c) rs)"
proof -
  have "filter ((\<lambda>n. get_node_fd (ni_node_id n) (member_table rs) = Some c) \<circ> snd) rs = filter (\<lambda>(fd, i). fd = c) rs"
    by (rule filter_cong) (use member_table_fd [OF assms] in auto)
  then show ?thesis by (simp add: member_table_nodes filter_map)
qed

text \<open>What the last registration queues for a connection: the member list, once for each node registered over it.\<close>

definition announcement :: "env \<Rightarrow> orch \<Rightarrow> (int \<times> node_info) list \<Rightarrow> message" where
  "announcement e s0 rs = create_broadcast_member_info (en_ns e 0) (en_message e) (oc_node_id s0) (map snd rs)"

definition expected_nodes :: "orch \<Rightarrow> int" where
  "expected_nodes s = cf_expected_prefill_nodes (oc_config s) + cf_expected_decode_nodes (oc_config s)"

lemma broadcast_keeps [simp]:
  "has_room (oc_epoll (broadcast b ns s)) = has_room (oc_epoll s)"
  "awaits_frame c (oc_epoll (broadcast b ns s)) = awaits_frame c (oc_epoll s)"
  "oc_config (broadcast b ns s) = oc_config s" "oc_node_id (broadcast b ns s) = oc_node_id s"
  "oc_state (broadcast b ns s) = oc_state s"
  by (induction ns arbitrary: s) (simp_all add: broadcast_def send_to_def split: option.split)

lemma register_stage:
  fixes m e s
  defines "i \<equiv> forget_fds (msg_node_info m)"
  assumes "gathered s0 rs s" and "awaits_frame fd (oc_epoll s0)" and "sendable m"
    and "msg_type m = RDMA_PROCESS_REGISTRATION" and "distinct (member_ids (rs @ [(fd, i)]))"
  obtains s' where "orch_serves e fd (frame m) s = Some s'" "gathered s0 (rs @ [(fd, i)]) s'"
    "\<And>c. awaits_frame c (oc_epoll s0) \<Longrightarrow> pending_for c (oc_epoll s') = pending_for c (oc_epoll s)
       @ (if int (Suc (length rs)) = expected_nodes s0
          then concat (map (\<lambda>_. frame (announcement e s0 (rs @ [(fd, i)]))) (filter (\<lambda>(f, j). f = c) (rs @ [(fd, i)]))) else [])"
proof -
  let ?rs = "rs @ [(fd, i)]"
  have g: "has_room (oc_epoll s)" "awaits_frame c (oc_epoll s) = awaits_frame c (oc_epoll s0)"
    "oc_registry s = member_table rs" "set (xt_registered (oc_exchange s)) = set (member_ids rs)"
    "xt_ready (oc_exchange s) = []" "xt_inv (oc_exchange s)" "oc_config s = oc_config s0" "oc_node_id s = oc_node_id s0"
    "oc_state s = oc_state s0" for c
    using assms(2) by (simp_all add: gathered_def)
  obtain w where w: "take_in fd (frame m) (oc_epoll s) = Some ((fd, message_on_wire m), w)" "has_room w"
    and conns: "\<And>c. find_conn w c = find_conn (oc_epoll s) c"
    by (rule take_in_frame [OF g(1) _ assms(4)]) (use g(2) assms(3) in auto)
  note out = take_in_output [of w "oc_epoll s", OF conns]
  let ?s = "s\<lparr>oc_epoll := w\<rparr>"
  have info: "msg_node_info (message_on_wire m) = i" by (simp add: message_on_wire_def i_def)
  have fresh: "ni_node_id i \<notin> set (member_ids rs)" using assms(6) by simp
  then obtain x where x: "xt_register_node (ni_node_id i) (ni_role i) (oc_exchange s) = Done (topology_complete x, x)"
    "set (xt_registered x) = insert (ni_node_id i) (set (xt_registered (oc_exchange s)))" "xt_ready x = xt_ready (oc_exchange s)"
    using g(4) by (auto simp: xt_register_node_def Let_def)
  obtain s' where ev: "orch_process_event e (fd, message_on_wire m) ?s = Done s'"
    using x(1) assms(5) by (simp add: orch_process_event_def handle_process_rdma_registration_def info Let_def)
  have reg: "add_node_fd (ni_node_id i) fd (add_node i (oc_registry s)) = member_table ?rs"
    using member_table_add [OF fresh] g(3) by simp
  have keeps: "oc_exchange s' = x" "oc_config s' = oc_config s" "oc_node_id s' = oc_node_id s" "oc_state s' = oc_state s"
    "has_room (oc_epoll s')" "\<And>c. awaits_frame c (oc_epoll s') = awaits_frame c w"
    using ev x(1) assms(5) w(2)
    by (auto simp: orch_process_event_def handle_process_rdma_registration_def info Let_def split: if_splits)
  have bc: "oc_registry s' = member_table ?rs \<and> pending_for c (oc_epoll s') = pending_for c w @
      (if int (length ?rs) = expected_nodes s0 \<and> find_conn w c \<noteq> None
       then concat (map (\<lambda>n. frame (announcement e s0 ?rs)) (map snd (filter (\<lambda>(f, j). f = c) ?rs))) else [])" for c
  proof -
    have sel: "oc_registry ?s = oc_registry s" "oc_config ?s = oc_config s0" "oc_node_id ?s = oc_node_id s0" "oc_epoll ?s = w"
      using g(7,8) by simp_all
    have "msg_type (message_on_wire m) = RDMA_PROCESS_REGISTRATION" using assms(5) by simp
    from registration_broadcast [OF ev this, of c]
    show ?thesis
      unfolding info sel reg members_on [OF assms(6)] unfolding member_table_nodes length_map announcement_def expected_nodes_def .
  qed
  show ?thesis
  proof (rule that)
    show "orch_serves e fd (frame m) s = Some s'" by (simp add: orch_serves_def w(1) ev)
    show "gathered s0 ?rs s'"
      using g keeps x(2,3) bc xt_inv_register [OF g(6) x(1)] out(2) by (simp add: gathered_def)
    fix c
    assume "awaits_frame c (oc_epoll s0)"
    then have "find_conn w c \<noteq> None" using g(2) conns by (auto simp: awaits_frame_def)
    then show "pending_for c (oc_epoll s') = pending_for c (oc_epoll s) @
        (if int (Suc (length rs)) = expected_nodes s0
         then concat (map (\<lambda>_. frame (announcement e s0 ?rs)) (filter (\<lambda>(f, j). f = c) ?rs)) else [])"
      using bc [of c] out(1) by (simp add: comp_def del: filter_append)
  qed
qed

text \<open>Registrations as they arrive: what the handler takes from outside, the descriptor, the message.\<close>

type_synonym arrival = "env \<times> int \<times> message"

definition arriving :: "arrival list \<Rightarrow> (env \<times> int \<times> bytes) list" where
  "arriving = map (\<lambda>(e, fd, m). (e, fd, frame m))"

definition brings :: "arrival \<Rightarrow> int \<times> node_info" where
  "brings = (\<lambda>(e, fd, m). (fd, forget_fds (msg_node_info m)))"

definition registers :: "orch \<Rightarrow> arrival \<Rightarrow> bool" where
  "registers s0 = (\<lambda>(e, fd, m). awaits_frame fd (oc_epoll s0) \<and> sendable m \<and> msg_type m = RDMA_PROCESS_REGISTRATION)"

lemma registrations_silent:
  assumes "gathered s0 rs s" and "distinct (member_ids (rs @ map brings xs))" and "list_all (registers s0) xs"
    and "int (length rs + length xs) < expected_nodes s0"
  obtains s' where "orch_serves_all (arriving xs) s = Some s'" "gathered s0 (rs @ map brings xs) s'"
    "\<And>c. awaits_frame c (oc_epoll s0) \<Longrightarrow> pending_for c (oc_epoll s') = pending_for c (oc_epoll s)"
proof -
  have "\<exists>s'. orch_serves_all (arriving xs) s = Some s' \<and> gathered s0 (rs @ map brings xs) s'
      \<and> (\<forall>c. awaits_frame c (oc_epoll s0) \<longrightarrow> pending_for c (oc_epoll s') = pending_for c (oc_epoll s))"
    using assms
  proof (induction xs arbitrary: rs s)
    case Nil
    then show ?case by (simp add: arriving_def)
  next
    case (Cons x xs)
    obtain e fd m where x: "x = (e, fd, m)" by (cases x)
    then have b: "brings x = (fd, forget_fds (msg_node_info m))" by (simp add: brings_def)
    have "distinct (member_ids (rs @ [(fd, forget_fds (msg_node_info m))]))" using Cons.prems(2) b by simp
    with Cons.prems(1,3) x obtain s1 where s1: "orch_serves e fd (frame m) s = Some s1"
      "gathered s0 (rs @ [(fd, forget_fds (msg_node_info m))]) s1"
      "\<And>c. awaits_frame c (oc_epoll s0) \<Longrightarrow> pending_for c (oc_epoll s1) = pending_for c (oc_epoll s)"
      using Cons.prems(4) by (rule_tac register_stage [of s0 rs s fd m e]) (auto simp: registers_def)
    from Cons.IH [OF s1(2)] Cons.prems(2-4) b obtain s' where
      "orch_serves_all (arriving xs) s1 = Some s'" "gathered s0 (rs @ map brings (x # xs)) s'"
      "\<forall>c. awaits_frame c (oc_epoll s0) \<longrightarrow> pending_for c (oc_epoll s') = pending_for c (oc_epoll s1)" by auto
    then show ?case using s1 x by (auto simp: arriving_def)
  qed
  then show ?thesis using that by blast
qed

text \<open>The registration that completes the membership announces it to everyone.\<close>

lemma only_member_on:
  assumes "distinct (map fst rs)" and "(fd, i) \<in> set rs"
  shows "filter (\<lambda>(f, j). f = fd) rs = [(fd, i)]"
  using assms
proof (induction rs)
  case (Cons r rs)
  show ?case
  proof (cases "fst r = fd")
    case True
    then have "fd \<notin> fst ` set rs" using Cons.prems(1) by auto
    then have "filter (\<lambda>(f, j). f = fd) rs = []" "(fd, i) \<notin> set rs" by (force simp: filter_empty_conv)+
    then show ?thesis using Cons.prems(2) True by (cases r) auto
  next
    case False
    then show ?thesis using Cons by (cases r) auto
  qed
qed simp

lemma registrations_announced:
  fixes xs e fd m s0
  defines "all \<equiv> xs @ [(e, fd, m)]"
  assumes "gathered s0 [] s0" and "distinct (member_ids (map brings all))" and "distinct (map fst (map brings all))"
    and "list_all (registers s0) all" and "int (length all) = expected_nodes s0"
    and "\<And>c. c \<in> fst ` set (map brings all) \<Longrightarrow> pending_for c (oc_epoll s0) = []"
  obtains s1 where "orch_serves_all (arriving all) s0 = Some s1" "gathered s0 (map brings all) s1"
    "\<And>c. c \<in> fst ` set (map brings all) \<Longrightarrow> pending_for c (oc_epoll s1) = frame (announcement e s0 (map brings all))"
proof -
  have len: "int (length xs) < expected_nodes s0" "int (Suc (length xs)) = expected_nodes s0"
    using assms(6) by (simp_all add: all_def)
  have split: "map brings all = map brings xs @ [(fd, forget_fds (msg_node_info m))]"
    by (simp add: all_def brings_def)
  obtain s' where s': "orch_serves_all (arriving xs) s0 = Some s'" "gathered s0 (map brings xs) s'"
    "\<And>c. awaits_frame c (oc_epoll s0) \<Longrightarrow> pending_for c (oc_epoll s') = pending_for c (oc_epoll s0)"
    by (rule registrations_silent [OF assms(2), of xs])
      (use assms(3,5) len(1) in \<open>simp_all add: split\<close>, simp_all add: all_def)
  have last: "awaits_frame fd (oc_epoll s0)" "sendable m" "msg_type m = RDMA_PROCESS_REGISTRATION"
    using assms(5) by (simp_all add: all_def registers_def)
  obtain s1 where s1: "orch_serves e fd (frame m) s' = Some s1" "gathered s0 (map brings all) s1"
    "\<And>c. awaits_frame c (oc_epoll s0) \<Longrightarrow> pending_for c (oc_epoll s1) = pending_for c (oc_epoll s')
       @ concat (map (\<lambda>_. frame (announcement e s0 (map brings all))) (filter (\<lambda>(f, j). f = c) (map brings all)))"
    by (rule register_stage [OF s'(2) last, of e]) (use assms(3) len(2) in \<open>simp_all add: split\<close>)
  show ?thesis
  proof (rule that)
    show "orch_serves_all (arriving all) s0 = Some s1"
      using s'(1) s1(1) by (simp add: all_def arriving_def orch_serves_all_append)
    show "gathered s0 (map brings all) s1" by (rule s1(2))
    fix c
    assume c: "c \<in> fst ` set (map brings all)"
    then obtain i where i: "(c, i) \<in> set (map brings all)" by force
    have "awaits_frame c (oc_epoll s0)" using c assms(5) by (auto simp: registers_def brings_def list_all_iff)
    with s1(3) s'(3) assms(7) [OF c] only_member_on [OF assms(4) i]
    show "pending_for c (oc_epoll s1) = frame (announcement e s0 (map brings all))" by simp
  qed
qed

fun orch_sends_all :: "int list \<Rightarrow> orch \<Rightarrow> (bytes list \<times> orch) option" where
  "orch_sends_all [] s = Some ([], s)"
| "orch_sends_all (fd # fds) s = (case orch_sends fd s of None \<Rightarrow> None
     | Some (out, s') \<Rightarrow> map_option (\<lambda>(outs, s'). (out # outs, s')) (orch_sends_all fds s'))"

lemma sends_stage:
  assumes "gathered s0 rs s" and "distinct fds" and "\<And>fd. fd \<in> set fds \<Longrightarrow> awaits_frame fd (oc_epoll s0)"
  obtains s' where "orch_sends_all fds s = Some (map (\<lambda>fd. pending_for fd (oc_epoll s)) fds, s')" "gathered s0 rs s'"
proof -
  have "\<exists>s'. orch_sends_all fds s = Some (map (\<lambda>fd. pending_for fd (oc_epoll s)) fds, s') \<and> gathered s0 rs s'"
    using assms
  proof (induction fds arbitrary: s)
    case (Cons fd fds)
    have "awaits_frame fd (oc_epoll s)" using Cons.prems(1,3) by (simp add: gathered_def)
    from take_out_written [OF this] obtain w where w: "take_out fd (oc_epoll s) = Some (pending_for fd (oc_epoll s), w)"
      "has_room w = has_room (oc_epoll s)" "\<And>c. awaits_frame c w = awaits_frame c (oc_epoll s)"
      "\<And>c. pending_for c w = (if c = fd then [] else pending_for c (oc_epoll s))" by blast
    have "gathered s0 rs (s\<lparr>oc_epoll := w\<rparr>)" using Cons.prems(1) w(2,3) by (simp add: gathered_def)
    from Cons.IH [OF this] Cons.prems(2,3) obtain s' where s':
      "orch_sends_all fds (s\<lparr>oc_epoll := w\<rparr>) = Some (map (\<lambda>fd. pending_for fd w) fds, s')" "gathered s0 rs s'" by auto
    moreover have "map (\<lambda>fd. pending_for fd w) fds = map (\<lambda>fd. pending_for fd (oc_epoll s)) fds"
      using Cons.prems(2) w(4) by auto
    ultimately show ?case using w(1) by (simp add: orch_sends_def)
  qed simp
  then show ?thesis using that by blast
qed

section \<open>A node joins\<close>

text \<open>The node reads the member list and its I/O thread writes what the handler has queued.\<close>

definition join_members :: "launch \<Rightarrow> bytes \<Rightarrow> node \<Rightarrow> (bytes \<times> node) option" where
  "join_members l bs n = (case node_serves (la_env l) (nd_orchestrator_fd n) bs n of None \<Rightarrow> None | Some n' \<Rightarrow> node_sends n')"

text \<open>The exchange succeeds when every member a queue pair was created for has created one in return.\<close>

definition answers :: "string \<Rightarrow> peer_info_and_qps list \<Rightarrow> node_info \<Rightarrow> bool" where
  "answers self qs peer \<longleftrightarrow> ni_node_id peer \<in> pq_peer_node_id ` set qs \<longrightarrow>
     (\<exists>p. List.find (\<lambda>p. pq_peer_node_id p = self) (ni_qmaps peer) = Some p \<and> pq_local_qp_num p \<noteq> 0)"

lemma map_opt_some: "(\<And>x. x \<in> set xs \<Longrightarrow> f x \<noteq> None) \<Longrightarrow> \<exists>ys. map_opt f xs = Some ys"
proof (induction xs)
  case (Cons x xs)
  obtain y where "f x = Some y" using Cons.prems [of x] by auto
  then show ?case using Cons by auto
qed simp

lemma exchange_qps_succeeds:
  assumes "\<And>peer. peer \<in> set ps \<Longrightarrow> ni_node_id peer \<noteq> self \<Longrightarrow> answers self qs peer"
  shows "\<exists>qs'. exchange_qps self ps qs = Some qs'"
  using assms
proof (induction ps arbitrary: qs)
  case (Cons peer ps)
  show ?case
  proof (cases "ni_node_id peer = self")
    case True
    then show ?thesis using Cons by simp
  next
    case False
    let ?f = "\<lambda>q. if pq_peer_node_id q = ni_node_id peer then fill_remote self peer q else Some q"
    have "?f q \<noteq> None" if "q \<in> set qs" for q
    proof (cases "pq_peer_node_id q = ni_node_id peer")
      case True
      with that have "ni_node_id peer \<in> pq_peer_node_id ` set qs" by force
      then show ?thesis using Cons.prems [of peer] False by (auto simp: answers_def fill_remote_def Let_def)
    qed simp
    then obtain rs where rs: "map_opt ?f qs = Some rs" using map_opt_some [of qs ?f] by blast
    have same: "pq_peer_node_id ` set rs = pq_peer_node_id ` set qs"
    proof -
      have len: "length rs = length qs" "\<And>i. i < length qs \<Longrightarrow> ?f (qs ! i) = Some (rs ! i)"
        using map_opt_length [OF rs] by auto
      have "pq_peer_node_id (rs ! i) = pq_peer_node_id (qs ! i)" if "i < length qs" for i
        using len(2) [OF that] fill_remote_peer [of self peer "qs ! i" "rs ! i"] by (auto split: if_splits)
      then have "map pq_peer_node_id rs = map pq_peer_node_id qs" using len(1) by (intro nth_equalityI) simp_all
      then show ?thesis by (metis set_map)
    qed
    have "\<exists>qs'. exchange_qps self ps rs = Some qs'"
      by (rule Cons.IH) (use Cons.prems in \<open>simp add: answers_def same\<close>)
    then show ?thesis using False rs by simp
  qed
qed simp

text \<open>A started node has no null queue pair, so connecting cannot crash it.\<close>

definition no_null_qp :: "rdma_engine \<Rightarrow> bool" where
  "no_null_qp e \<longleftrightarrow> (\<forall>(pid, qp) \<in> set (re_peer_qps e). qp \<noteq> None)"

lemma connect_never_crashes:
  assumes "no_null_qp e"
  shows "\<exists>b e'. connect_all_qps a ok e = Some (b, e') \<and> re_node_info e' = re_node_info e"
proof -
  have "connect_loop a e m \<noteq> None" if "\<forall>(pid, qp) \<in> set m. qp \<noteq> None" for m
    using that
  proof (induction m)
    case (Cons x m)
    obtain pid q where x: "x = (pid, Some q)" using Cons.prems by (cases x) auto
    then have "connect_qp_to_peer (fst (a pid)) (snd (a pid)) pid (Some q) e \<noteq> None"
      by (auto simp: connect_qp_to_peer_def Let_def split: option.split prod.split)
    then show ?case using Cons x by (auto split: bool.split)
  qed simp
  from this [of "re_peer_qps e"] assms obtain b m where "connect_loop a e (re_peer_qps e) = Some (b, m)"
    by (auto simp: no_null_qp_def)
  then show ?thesis
    by (auto simp: connect_all_qps_def post_recv_wrs_def Let_def split: list.split option.split prod.split)
qed

lemma ordered_put_set: "set (ordered_put k v m) \<subseteq> insert (k, v) (set m)"
  by (induction m rule: ordered_put.induct) auto

lemma create_qps_no_null: "no_null_qp e \<Longrightarrow> create_qps a ps e = (b, e') \<Longrightarrow> no_null_qp e'"
proof (induction a ps e rule: create_qps.induct)
  case (2 a pid ps e)
  obtain qp e1 where q: "create_qp_for_peer (a pid) pid e = (qp, e1)" by fastforce
  have "re_peer_qps e1 = re_peer_qps e"
    using q by (auto simp: create_qp_for_peer_def Let_def split: option.splits if_splits)
  then have e1: "no_null_qp e1" using 2(2) by (simp add: no_null_qp_def)
  show ?case
  proof (cases qp)
    case None
    then show ?thesis using 2(3) q e1 by simp
  next
    case (Some y)
    have "no_null_qp (e1\<lparr>re_peer_qps := ordered_put pid (Some y) (re_peer_qps e1)\<rparr>)"
      using e1 ordered_put_set [of pid "Some y" "re_peer_qps e1"] by (auto simp: no_null_qp_def)
    with 2(1) [OF q [symmetric] Some this] show ?thesis using 2(3) q Some by simp
  qed
qed simp

lemma initialize_no_null:
  assumes "rdma_initialize a e = (b, e')" and "no_null_qp e"
  shows "no_null_qp e'"
proof -
  have keeps: "snd (probe_and_bind_devices gpus ports d) = d' \<Longrightarrow> re_peer_qps d' = re_peer_qps d"
    "snd (alloc_and_register_memory gpu m d) = d' \<Longrightarrow> re_peer_qps d' = re_peer_qps d"
    "snd (create_cqs sq rq d) = d' \<Longrightarrow> re_peer_qps d' = re_peer_qps d" for gpus ports gpu m sq rq and d d' :: rdma_engine
    by (auto simp: probe_and_bind_devices_def alloc_and_register_memory_def create_cqs_def Let_def split: option.splits prod.splits)
  obtain b1 e1 where e1: "probe_and_bind_devices (ic_gpus a) (ic_ports a) e = (b1, e1)" by fastforce
  obtain err c where c: "open_ib_device (ic_open a) (ni_ib_dev_name (re_node_info e1)) (re_ctx e1) = (err, c)" by fastforce
  obtain b2 e2 where e2: "alloc_and_register_memory (ic_gpus a \<noteq> None) (ic_mem a) (e1\<lparr>re_ctx := c\<rparr>) = (b2, e2)" by fastforce
  obtain b3 e3 where e3: "create_cqs (ic_send_cq a) (ic_recv_cq a) e2 = (b3, e3)" by fastforce
  obtain b4 e4 where e4: "create_qps (ic_qp a) (expected_peers e3) e3 = (b4, e4)" by fastforce
  have n1: "no_null_qp e1" using keeps(1) [of "ic_gpus a" "ic_ports a" e e1] e1 assms(2) by (simp add: no_null_qp_def)
  have n2: "no_null_qp e2"
    using keeps(2) [of "ic_gpus a \<noteq> None" "ic_mem a" "e1\<lparr>re_ctx := c\<rparr>" e2] e2 n1 by (simp add: no_null_qp_def)
  have n3: "no_null_qp e3" using keeps(3) [of "ic_send_cq a" "ic_recv_cq a" e2 e3] e3 n2 by (simp add: no_null_qp_def)
  have n4: "no_null_qp e4" by (rule create_qps_no_null [OF n3 e4])
  have "re_peer_qps e' \<in> {re_peer_qps e1, re_peer_qps e2, re_peer_qps e3, re_peer_qps e4}"
    using assms(1) e1 c e2 e3 e4
    by (simp add: rdma_initialize_def split: bool.splits option.splits if_splits) auto
  with n1 n2 n3 n4 show ?thesis by (auto simp: no_null_qp_def)
qed

lemma started_no_null:
  assumes "node_start a (new_node c g) = (True, n)"
  shows "no_null_qp (nd_engine n)"
proof -
  have fresh: "no_null_qp (nd_engine (new_node c g))" by (simp add: no_null_qp_def new_node_def new_rdma_engine_def)
  obtain b eng where init: "(if cf_use_gpu c then rdma_initialize (ns_init a) (nd_engine (new_node c g))
      else (True, nd_engine (new_node c g))) = (b, eng)" by fastforce
  have cfg: "nd_config (new_node c g) = c" by (simp add: new_node_def)
  have "no_null_qp eng"
    using init fresh initialize_no_null [of "ns_init a" "nd_engine (new_node c g)" b eng] by (auto split: if_splits)
  moreover have "re_peer_qps (nd_engine n) = re_peer_qps eng"
    using assms init cfg
    by (cases b)
      (auto simp: node_start_def abort_start_def connect_to_orchestrator_def send_node_info_to_orchestrator_def
        node_worker_of_def set_node_worker_def Let_def add_connection_def split: if_splits option.splits)
  ultimately show ?thesis by (simp add: no_null_qp_def)
qed

lemma join_stage:
  assumes "has_room (nd_epoll n)" and "awaits_frame (nd_orchestrator_fd n) (nd_epoll n)"
    and "pending_for (nd_orchestrator_fd n) (nd_epoll n) = []" and "sendable m" and "msg_type m = BROADCAST_MEMBER_INFO"
    and "exchange_qps (ni_node_id (node_info_of n)) (map forget_fds (msg_membership_list_info m)) (ni_qmaps (node_info_of n)) = Some qs"
    and "no_null_qp (nd_engine n)"
  obtains n' where "join_members l (frame m) n
      = Some (frame (create_rdma_ready (ne_ns (la_env l)) (ne_message (la_env l)) (ni_node_id (node_info_of n))), n')"
    "nd_state n' = Node_RUNNING" "ni_qmaps (node_info_of n') = qs"
proof -
  let ?e = "la_env l" and ?fd = "nd_orchestrator_fd n"
  obtain w where w: "take_in ?fd (frame m) (nd_epoll n) = Some ((?fd, message_on_wire m), w)"
    and conns: "\<And>c. find_conn w c = find_conn (nd_epoll n) c"
    by (rule take_in_frame [OF assms(1,2,4)]) blast
  note out = take_in_output [of w "nd_epoll n", OF conns]
  let ?n = "set_qmaps qs (n\<lparr>nd_epoll := w, nd_events_processed := nd_events_processed n + 1\<rparr>)"
  have "no_null_qp (nd_engine ?n)" using assms(7) by (simp add: no_null_qp_def set_qmaps_def)
  from connect_never_crashes [OF this] obtain b eng where eng:
    "(if cf_use_gpu (nd_config n) then connect_all_qps (ne_connect ?e) (ne_post_recv ?e) (nd_engine ?n)
      else Some (True, nd_engine ?n)) = Some (b, eng)" "re_node_info eng = node_info_of ?n"
    by (cases "cf_use_gpu (nd_config n)") (simp, blast, simp)
  let ?ready = "create_rdma_ready (ne_ns ?e) (ne_message ?e) (ni_node_id (node_info_of n))"
  let ?n1 = "(send_orchestrator ?ready (start_vllm (ne_mooncake_file ?e) (ne_fork ?e) (?n\<lparr>nd_engine := eng\<rparr>)))\<lparr>nd_state := Node_RUNNING\<rparr>"
  have info: "ni_node_id (re_node_info eng) = ni_node_id (node_info_of n)" "ni_qmaps (re_node_info eng) = qs"
    by (simp_all add: eng(2) set_qmaps_def)
  have "node_process_event ?e (?fd, message_on_wire m) (n\<lparr>nd_epoll := w\<rparr>) = Returns ?n1"
    using assms(5,6) eng(1) info
    by (cases "cf_use_gpu (nd_config n)")
      (simp_all add: node_process_event_def handle_broadcast_member_info_def message_on_wire_def set_qmaps_def Let_def)
  then have serves: "node_serves ?e ?fd (frame m) n = Some ?n1" by (simp add: node_serves_def w(1))
  have n1: "nd_epoll ?n1 = enqueue_response ?fd ?ready w" "nd_orchestrator_fd ?n1 = ?fd"
    by (simp_all add: send_orchestrator_def set_qmaps_def)
  have "awaits_frame ?fd (nd_epoll ?n1)" using assms(2) out(2) by (simp add: n1)
  moreover have "pending_for ?fd (nd_epoll ?n1) = frame ?ready"
    using assms(2,3) out by (auto simp: n1 pending_enqueue conns awaits_frame_def)
  ultimately obtain w' where "take_out ?fd (nd_epoll ?n1) = Some (frame ?ready, w')"
    using take_out_written [of ?fd "nd_epoll ?n1"] by metis
  then have "join_members l (frame m) n = Some (frame ?ready, ?n1\<lparr>nd_epoll := w'\<rparr>)"
    by (simp add: join_members_def serves node_sends_def n1(2))
  then show ?thesis by (rule that) (simp_all add: info send_orchestrator_def)
qed

section \<open>The orchestrator takes the reports\<close>

text \<open>The orchestrator that began as \<open>s0\<close>, in which the nodes \<open>rs\<close> have registered, after the reports of \<open>ids\<close>.\<close>

definition reported :: "orch \<Rightarrow> (int \<times> node_info) list \<Rightarrow> string list \<Rightarrow> orch \<Rightarrow> bool" where
  "reported s0 rs ids s \<longleftrightarrow> has_room (oc_epoll s) \<and> (\<forall>c. awaits_frame c (oc_epoll s) = awaits_frame c (oc_epoll s0))
     \<and> set (xt_registered (oc_exchange s)) = set (member_ids rs) \<and> set (xt_ready (oc_exchange s)) = set ids
     \<and> xt_inv (oc_exchange s) \<and> oc_state s = (if ids \<noteq> [] \<and> set ids = set (member_ids rs) then RUNNING else oc_state s0)"

lemma gathered_reported: "gathered s0 rs s \<Longrightarrow> reported s0 rs [] s"
  by (simp add: gathered_def reported_def)

lemma ready_stage:
  assumes "reported s0 rs ids s" and "awaits_frame fd (oc_epoll s0)" and "sendable m" and "msg_type m = RDMA_READY"
    and "msg_source_node_id m \<in> set (member_ids rs)" and "msg_source_node_id m \<notin> set ids"
    and "set ids \<noteq> set (member_ids rs)"
  obtains s' where "orch_serves e fd (frame m) s = Some s'" "reported s0 rs (ids @ [msg_source_node_id m]) s'"
proof -
  let ?nid = "msg_source_node_id m"
  have r: "has_room (oc_epoll s)" "awaits_frame c (oc_epoll s) = awaits_frame c (oc_epoll s0)"
    "set (xt_registered (oc_exchange s)) = set (member_ids rs)" "set (xt_ready (oc_exchange s)) = set ids"
    "xt_inv (oc_exchange s)" "oc_state s = oc_state s0" for c
    using assms(1,7) by (simp_all add: reported_def)
  obtain w where w: "take_in fd (frame m) (oc_epoll s) = Some ((fd, message_on_wire m), w)" "has_room w"
    and conns: "\<And>c. find_conn w c = find_conn (oc_epoll s) c"
    by (rule take_in_frame [OF r(1) _ assms(3)]) (use r(2) assms(2) in auto)
  note out = take_in_output [of w "oc_epoll s", OF conns]
  have src: "msg_source_node_id (message_on_wire m) = ?nid" by (simp add: message_on_wire_def)
  obtain x where x: "x = (oc_exchange s)\<lparr>xt_ready := List.insert ?nid (xt_ready (oc_exchange s))\<rparr>" by blast
  have mark: "mark_node_ready ?nid (oc_exchange s) = Done (length (xt_ready x) = length (xt_registered x), x)"
    using assms(5,6) r(3,4) by (simp add: mark_node_ready_def x Let_def)
  have inv: "xt_inv x" by (rule xt_inv_ready [OF r(5) mark])
  have all: "length (xt_ready x) = length (xt_registered x) \<longleftrightarrow> insert ?nid (set ids) = set (member_ids rs)"
  proof -
    have "distinct (xt_ready x)" "distinct (xt_registered x)" "set (xt_ready x) \<subseteq> set (xt_registered x)"
      using inv by (simp_all add: xt_inv_def)
    then have "length (xt_ready x) = length (xt_registered x) \<longleftrightarrow> set (xt_ready x) = set (xt_registered x)"
      using card_subset_eq [of "set (xt_registered x)" "set (xt_ready x)"] by (auto simp flip: distinct_card)
    then show ?thesis using r(3,4) by (simp add: x)
  qed
  let ?s = "s\<lparr>oc_epoll := w, oc_events_processed := oc_events_processed s + 1, oc_exchange := x\<rparr>"
  let ?s1 = "if insert ?nid (set ids) = set (member_ids rs) then ?s\<lparr>oc_state := RUNNING\<rparr> else ?s"
  have "orch_serves e fd (frame m) s = Some ?s1"
    using assms(4) mark all by (simp add: orch_serves_def w(1) orch_process_event_def handle_ready_def src Let_def)
  moreover have "reported s0 rs (ids @ [?nid]) ?s1"
    using r inv w(2) out(2) by (auto simp: reported_def x)
  ultimately show ?thesis by (rule that)
qed

lemma reports_stage:
  assumes "reported s0 rs ids s" and "distinct (ids @ map (\<lambda>(e, fd, m). msg_source_node_id m) xs)"
    and "\<And>e fd m. (e, fd, m) \<in> set xs \<Longrightarrow> awaits_frame fd (oc_epoll s0) \<and> sendable m \<and> msg_type m = RDMA_READY
      \<and> msg_source_node_id m \<in> set (member_ids rs)"
  obtains s' where "orch_serves_all (arriving xs) s = Some s'" "reported s0 rs (ids @ map (\<lambda>(e, fd, m). msg_source_node_id m) xs) s'"
proof -
  have "\<exists>s'. orch_serves_all (arriving xs) s = Some s' \<and> reported s0 rs (ids @ map (\<lambda>(e, fd, m). msg_source_node_id m) xs) s'"
    using assms
  proof (induction xs arbitrary: ids s)
    case Nil
    then show ?case by (simp add: arriving_def)
  next
    case (Cons x xs)
    obtain e fd m where x: "x = (e, fd, m)" by (cases x)
    have m: "awaits_frame fd (oc_epoll s0)" "sendable m" "msg_type m = RDMA_READY" "msg_source_node_id m \<in> set (member_ids rs)"
      using Cons.prems(3) [of e fd m] x by auto
    have new: "msg_source_node_id m \<notin> set ids" using Cons.prems(2) x by auto
    then have "set ids \<noteq> set (member_ids rs)" using m(4) by blast
    from ready_stage [OF Cons.prems(1) m new this, of e] obtain s1 where s1:
      "orch_serves e fd (frame m) s = Some s1" "reported s0 rs (ids @ [msg_source_node_id m]) s1" by blast
    have "\<exists>s'. orch_serves_all (arriving xs) s1 = Some s'
        \<and> reported s0 rs ((ids @ [msg_source_node_id m]) @ map (\<lambda>(e, fd, m). msg_source_node_id m) xs) s'"
    proof (rule Cons.IH [OF s1(2)])
      show "distinct ((ids @ [msg_source_node_id m]) @ map (\<lambda>(e, fd, m). msg_source_node_id m) xs)"
        using Cons.prems(2) x by simp
    qed (use Cons.prems(3) in auto)
    then show ?case using s1(1) x by (auto simp: arriving_def)
  qed
  then show ?thesis using that by blast
qed

section \<open>The whole way up\<close>

definition info_of :: "launch \<Rightarrow> node_info" where
  "info_of l = node_info_of (started l)"

abbreviation id_of :: "launch \<Rightarrow> string" where
  "id_of l \<equiv> ni_node_id (info_of l)"

definition ready_of :: "launch \<Rightarrow> message" where
  "ready_of l = create_rdma_ready (ne_ns (la_env l)) (ne_message (la_env l)) (id_of l)"

text \<open>The members as the orchestrator stores them.\<close>

definition members :: "launch list \<Rightarrow> (int \<times> node_info) list" where
  "members ls = map (\<lambda>l. (la_fd l, forget_fds (info_of l))) ls"

text \<open>A node whose start succeeds, with a queue for its events and messages of a size the other end accepts.\<close>

definition launchable :: "launch \<Rightarrow> bool" where
  "launchable l \<longleftrightarrow> fst (node_start (la_calls l) (new_node (la_config l) (la_scalars l)))
     \<and> cf_orchestrator_event_queue_size (la_config l) \<noteq> 0 \<and> sendable (registration_of l) \<and> sendable (ready_of l)"

definition awaiting_nodes :: "orch \<Rightarrow> bool" where
  "awaiting_nodes s \<longleftrightarrow> has_room (oc_epoll s) \<and> oc_registry s = new_registry
     \<and> oc_exchange s = new_exchange (cf_expected_prefill_nodes (oc_config s)) (cf_expected_decode_nodes (oc_config s))"

definition meshed :: "launch list \<Rightarrow> bool" where
  "meshed ls \<longleftrightarrow> (\<forall>l \<in> set ls. \<forall>k \<in> set ls. id_of k \<noteq> id_of l \<longrightarrow> answers (id_of l) (ni_qmaps (info_of l)) (info_of k))"

lemma registration_of_eq:
  "registration_of l = create_rdma_process_registration (ns_now (la_calls l)) (ns_message (la_calls l)) (id_of l) (info_of l)"
  by (simp add: registration_of_def info_of_def Let_def)

lemma launch_stage:
  assumes "launchable l"
  obtains n where "start_and_register l = Some (frame (registration_of l), n)" "has_room (nd_epoll n)"
    "awaits_frame (nd_orchestrator_fd n) (nd_epoll n)" "pending_for (nd_orchestrator_fd n) (nd_epoll n) = []"
    "nd_engine n = nd_engine (started l)" "no_null_qp (nd_engine n)"
proof -
  let ?n = "started l"
  have start: "node_start (la_calls l) (new_node (la_config l) (la_scalars l)) = (True, ?n)"
    using assms by (simp add: launchable_def started_def prod_eq_iff)
  note facts = start_stage [OF start] and null = started_no_null [OF start]
  have q: "cf_orchestrator_event_queue_size (la_config l) \<noteq> 0" using assms by (simp add: launchable_def)
  have a: "awaits_frame (nd_orchestrator_fd ?n) (nd_epoll ?n)" using facts q by blast
  from take_out_written [OF a] obtain w where w:
    "take_out (nd_orchestrator_fd ?n) (nd_epoll ?n) = Some (pending_for (nd_orchestrator_fd ?n) (nd_epoll ?n), w)"
    "has_room w = has_room (nd_epoll ?n)" "\<And>c. awaits_frame c w = awaits_frame c (nd_epoll ?n)"
    "\<And>c. pending_for c w = (if c = nd_orchestrator_fd ?n then [] else pending_for c (nd_epoll ?n))" by blast
  have "pending_for (nd_orchestrator_fd ?n) (nd_epoll ?n) = frame (registration_of l)"
    using facts q by (simp add: registration_of_eq info_of_def)
  then have "start_and_register l = Some (frame (registration_of l), ?n\<lparr>nd_epoll := w\<rparr>)"
    by (simp add: start_and_register_def start node_sends_def w(1))
  then show ?thesis by (rule that) (use facts q w a null in simp_all)
qed

lemma paired_forget [simp]: "paired_with self (forget_fds i) q = paired_with self i q"
  by (simp add: paired_with_def forget_fds_def)

lemma forget_sel [simp]: "ni_node_id (forget_fds i) = ni_node_id i" "forget_fds (forget_fds i) = forget_fds i"
  "answers self qs (forget_fds i) = answers self qs i"
  by (simp_all add: forget_fds_def answers_def)

lemma member_join:
  fixes e ls s0
  defines "m \<equiv> announcement e s0 (members ls)"
  assumes "l \<in> set ls" and "launchable l" and "meshed ls" and "distinct (map id_of ls)" and "sendable m"
  obtains n up where "start_and_register l = Some (frame (registration_of l), n)" "join_members l (frame m) n = Some (frame (ready_of l), up)"
    "nd_state up = Node_RUNNING"
    "\<And>k q. k \<in> set ls \<Longrightarrow> k \<noteq> l \<Longrightarrow> q \<in> set (ni_qmaps (node_info_of up)) \<Longrightarrow> pq_peer_node_id q = id_of k
      \<Longrightarrow> paired_with (id_of l) (info_of k) q"
proof -
  obtain n where n: "start_and_register l = Some (frame (registration_of l), n)" "has_room (nd_epoll n)"
    "awaits_frame (nd_orchestrator_fd n) (nd_epoll n)" "pending_for (nd_orchestrator_fd n) (nd_epoll n) = []"
    "nd_engine n = nd_engine (started l)" "no_null_qp (nd_engine n)"
    by (rule launch_stage [OF assms(3)])
  have info: "node_info_of n = info_of l" by (simp add: n(5) info_of_def)
  have msg: "msg_type m = BROADCAST_MEMBER_INFO" "map forget_fds (msg_membership_list_info m) = map (forget_fds \<circ> info_of) ls"
    by (simp_all add: m_def announcement_def create_broadcast_member_info_def members_def comp_def)
  have "\<exists>qs. exchange_qps (id_of l) (map (forget_fds \<circ> info_of) ls) (ni_qmaps (info_of l)) = Some qs"
    by (rule exchange_qps_succeeds) (use assms(2,4) in \<open>auto simp: meshed_def\<close>)
  then obtain qs where qs: "exchange_qps (id_of l) (map (forget_fds \<circ> info_of) ls) (ni_qmaps (info_of l)) = Some qs" ..
  obtain up where up: "join_members l (frame m) n = Some (frame (create_rdma_ready (ne_ns (la_env l)) (ne_message (la_env l))
      (ni_node_id (node_info_of n))), up)" "nd_state up = Node_RUNNING" "ni_qmaps (node_info_of up) = qs"
    by (rule join_stage [OF n(2-4) assms(6) msg(1) qs [folded msg(2) info] n(6), of l]) blast
  have dist: "distinct (map ni_node_id (map (forget_fds \<circ> info_of) ls))" using assms(5) by (simp add: comp_def)
  note spec = exchange_qps_spec [OF qs dist]
  have pairs: "paired_with (id_of l) (info_of k) q"
    if k: "k \<in> set ls" "k \<noteq> l" "q \<in> set (ni_qmaps (node_info_of up))" "pq_peer_node_id q = id_of k" for k q
  proof -
    obtain i where i: "i < length qs" "q = qs ! i" using k(3) up(3) by (auto simp: in_set_conv_nth)
    have ne: "id_of k \<noteq> id_of l" using assms(2,5) k(1,2) by (auto simp: distinct_map inj_on_def)
    have i': "i < length (ni_qmaps (info_of l))" using spec i(1) by simp
    then have "pq_peer_node_id (ni_qmaps (info_of l) ! i) = id_of k"
      using spec i(2) k(4) by (auto simp: same_local_def)
    then have "paired_with (id_of l) (forget_fds (info_of k)) (qs ! i)" using spec i' k(1) ne by auto
    then show ?thesis using i(2) by simp
  qed
  show ?thesis
    by (rule that [of n up]) (use n(1) up pairs in \<open>simp_all add: info ready_of_def\<close>)
qed

text \<open>The registrations, in the order of the list: every member finds the announcement on its connection.\<close>

lemma members_announced:
  fixes ls :: "launch list" and es :: "launch \<Rightarrow> env" and s0 :: orch
  defines "m \<equiv> announcement (es (last ls)) s0 (members ls)"
  assumes "awaiting_nodes s0" and "int (length ls) = expected_nodes s0" and "ls \<noteq> []"
    and "distinct (map la_fd ls)" and "distinct (map id_of ls)"
    and "\<And>l. l \<in> set ls \<Longrightarrow> launchable l \<and> idle_link (la_fd l) (oc_epoll s0)"
  obtains s1 s2 where "orch_serves_all (map (\<lambda>l. (es l, la_fd l, frame (registration_of l))) ls) s0 = Some s1"
    "orch_sends_all (map la_fd ls) s1 = Some (map (\<lambda>l. frame m) ls, s2)" "gathered s0 (members ls) s2"
proof -
  let ?arr = "\<lambda>l. (es l, la_fd l, registration_of l)"
  have reg: "msg_type (registration_of l) = RDMA_PROCESS_REGISTRATION" "msg_node_info (registration_of l) = info_of l" for l
    by (simp_all add: registration_of_eq create_rdma_process_registration_def)
  have idle: "awaits_frame (la_fd l) (oc_epoll s0)" "pending_for (la_fd l) (oc_epoll s0) = []" if "l \<in> set ls" for l
    using assms(7) [OF that] by (simp_all add: idle_link_def)
  have brings: "map brings (map ?arr ls) = members ls" by (simp add: members_def brings_def reg)
  have ids: "member_ids (members ls) = map id_of ls" "map fst (members ls) = map la_fd ls"
    by (simp_all add: members_def comp_def)
  have "map ?arr (butlast ls @ [last ls]) = map ?arr ls"
    by (rule arg_cong [of "butlast ls @ [last ls]" ls]) (rule append_butlast_last_id [OF assms(4)])
  then have split: "map ?arr ls = map ?arr (butlast ls) @ [?arr (last ls)]" by (simp only: map_append list.map)
  have fresh: "gathered s0 [] s0"
    using assms(2) by (simp add: awaiting_nodes_def gathered_def new_registry_def new_exchange_def member_table_def xt_inv_def)
  have bytes: "arriving (map ?arr ls) = map (\<lambda>l. (es l, la_fd l, frame (registration_of l))) ls"
    by (simp add: arriving_def)
  obtain s1 where s1: "orch_serves_all (arriving (map ?arr ls)) s0 = Some s1" "gathered s0 (members ls) s1"
    "\<And>c. c \<in> fst ` set (members ls) \<Longrightarrow> pending_for c (oc_epoll s1) = frame m"
  proof (rule registrations_announced [of s0 "map ?arr (butlast ls)" "es (last ls)" "la_fd (last ls)" "registration_of (last ls)",
        folded split, unfolded brings])
    show "list_all (registers s0) (map ?arr ls)"
      using assms(7) idle(1) by (auto simp: list_all_iff registers_def reg launchable_def)
    show "\<And>c. c \<in> fst ` set (members ls) \<Longrightarrow> pending_for c (oc_epoll s0) = []"
      using idle(2) by (auto simp: members_def)
  qed (use fresh assms(3,5,6) in \<open>simp_all add: ids m_def\<close>)
  obtain s2 where s2: "orch_sends_all (map la_fd ls) s1 = Some (map (\<lambda>fd. pending_for fd (oc_epoll s1)) (map la_fd ls), s2)"
    "gathered s0 (members ls) s2"
    by (rule sends_stage [OF s1(2) assms(5)]) (use idle(1) in auto)
  have "map (\<lambda>fd. pending_for fd (oc_epoll s1)) (map la_fd ls) = map (\<lambda>l. frame m) ls"
    using s1(3) by (auto simp: members_def image_image)
  then have sends: "orch_sends_all (map la_fd ls) s1 = Some (map (\<lambda>l. frame m) ls, s2)" using s2(1) by simp
  show ?thesis by (rule that) (use s1(1) sends s2(2) in \<open>simp_all add: bytes\<close>)
qed

lemma member_ids_members: "member_ids (members ls) = map id_of ls"
  by (simp add: members_def comp_def)

text \<open>The reports, in any order: the orchestrator runs after the last.\<close>

lemma reports_bring_up:
  assumes "gathered s0 (members ls) s2" and "ls \<noteq> []" and "distinct (map id_of ls)"
    and "\<And>l. l \<in> set ls \<Longrightarrow> launchable l \<and> awaits_frame (la_fd l) (oc_epoll s0)"
    and "mset ks = mset ls" and "j \<le> length ks"
  shows "\<exists>s3. orch_serves_all (map (\<lambda>l. (es' l, la_fd l, frame (ready_of l))) (take j ks)) s2 = Some s3
    \<and> oc_state s3 = (if j = length ks then RUNNING else oc_state s0)"
proof -
  let ?rep = "\<lambda>l. (es' l, la_fd l, ready_of l)"
  have ready: "msg_type (ready_of l) = RDMA_READY" "msg_source_node_id (ready_of l) = id_of l" for l
    by (simp_all add: ready_of_def create_rdma_ready_def)
  have set: "set ks = set ls" "distinct (map id_of ks)"
    using assms(3,5) by (metis mset_eq_setD, metis mset_map mset_eq_imp_distinct_iff)
  have src: "map (\<lambda>(e, fd, m). msg_source_node_id m) (map ?rep (take j ks)) = map id_of (take j ks)"
    by (simp add: ready)
  have sub: "set (take j ks) \<subseteq> set ls" using set(1) set_take_subset by fastforce
  obtain s3 where s3: "orch_serves_all (arriving (map ?rep (take j ks))) s2 = Some s3"
    "reported s0 (members ls) ([] @ map (\<lambda>(e, fd, m). msg_source_node_id m) (map ?rep (take j ks))) s3"
  proof (rule reports_stage [OF gathered_reported [OF assms(1)]])
    show "distinct ([] @ map (\<lambda>(e, fd, m). msg_source_node_id m) (map ?rep (take j ks)))"
      unfolding src using set(2) by (simp add: take_map [symmetric])
    show "awaits_frame fd (oc_epoll s0) \<and> sendable m' \<and> msg_type m' = RDMA_READY
        \<and> msg_source_node_id m' \<in> set (member_ids (members ls))" if "(e, fd, m') \<in> set (map ?rep (take j ks))" for e fd m'
      using that sub assms(4) by (auto simp: member_ids_members ready launchable_def)
  qed
  have "map id_of (take j ks) \<noteq> [] \<and> set (map id_of (take j ks)) = set (map id_of ls) \<longleftrightarrow> j = length ks"
  proof
    assume "map id_of (take j ks) \<noteq> [] \<and> set (map id_of (take j ks)) = set (map id_of ls)"
    then have "card (set (map id_of (take j ks))) = card (set (map id_of ks))" using set(1) by (metis set_map)
    moreover have "distinct (map id_of (take j ks))" using set(2) by (simp add: take_map [symmetric])
    ultimately have "length (take j ks) = length ks" using set(2) by (metis distinct_card length_map)
    then show "j = length ks" using assms(6) by simp
  next
    assume "j = length ks"
    then show "map id_of (take j ks) \<noteq> [] \<and> set (map id_of (take j ks)) = set (map id_of ls)"
      using set(1) assms(2) by auto
  qed
  then have "oc_state s3 = (if j = length ks then RUNNING else oc_state s0)"
    using s3(2) unfolding src reported_def member_ids_members append_Nil by simp
  moreover have "arriving (map ?rep (take j ks)) = map (\<lambda>l. (es' l, la_fd l, frame (ready_of l))) (take j ks)"
    by (simp add: arriving_def)
  ultimately show ?thesis using s3(1) by metis
qed

text \<open>C5 The cluster comes up, with the orchestrator's events handled one at a time. When the expected nodes start, their connections reach a fresh orchestrator and every queue pair
  has its counterpart, then: the bytes the nodes send make the orchestrator announce to each of them the list
  of all; each node takes the announcement, ends running with every entry for another member filled with that
  member's own queue pair, address and key, and reports ready; and whatever the order in which the reports
  arrive, the orchestrator is running after the last of them and not before.\<close>

theorem cluster_comes_up:
  fixes ls :: "launch list" and es es' :: "launch \<Rightarrow> env" and s0 :: orch
  defines "m \<equiv> announcement (es (last ls)) s0 (members ls)"
  assumes "awaiting_nodes s0" and "int (length ls) = expected_nodes s0" and "ls \<noteq> []"
    and "distinct (map la_fd ls)" and "distinct (map id_of ls)" and "meshed ls"
    and "\<And>l. l \<in> set ls \<Longrightarrow> launchable l \<and> idle_link (la_fd l) (oc_epoll s0)" and "sendable m"
  shows "\<exists>s1 s2. orch_serves_all (map (\<lambda>l. (es l, la_fd l, frame (registration_of l))) ls) s0 = Some s1
    \<and> orch_sends_all (map la_fd ls) s1 = Some (map (\<lambda>l. frame m) ls, s2)
    \<and> (\<forall>l \<in> set ls. \<exists>n up. start_and_register l = Some (frame (registration_of l), n)
        \<and> join_members l (frame m) n = Some (frame (ready_of l), up) \<and> nd_state up = Node_RUNNING
        \<and> (\<forall>k \<in> set ls. \<forall>q \<in> set (ni_qmaps (node_info_of up)). k \<noteq> l \<and> pq_peer_node_id q = id_of k
            \<longrightarrow> paired_with (id_of l) (info_of k) q))
    \<and> (\<forall>ks j. mset ks = mset ls \<and> j \<le> length ks \<longrightarrow>
        (\<exists>s3. orch_serves_all (map (\<lambda>l. (es' l, la_fd l, frame (ready_of l))) (take j ks)) s2 = Some s3
          \<and> oc_state s3 = (if j = length ks then RUNNING else oc_state s0)))"
proof -
  obtain s1 s2 where s: "orch_serves_all (map (\<lambda>l. (es l, la_fd l, frame (registration_of l))) ls) s0 = Some s1"
    "orch_sends_all (map la_fd ls) s1 = Some (map (\<lambda>l. frame m) ls, s2)" "gathered s0 (members ls) s2"
    by (rule members_announced [OF assms(2-6), of es, folded m_def]) (use assms(8) in blast)+
  have nodes: "\<exists>n up. start_and_register l = Some (frame (registration_of l), n)
      \<and> join_members l (frame m) n = Some (frame (ready_of l), up) \<and> nd_state up = Node_RUNNING
      \<and> (\<forall>k \<in> set ls. \<forall>q \<in> set (ni_qmaps (node_info_of up)). k \<noteq> l \<and> pq_peer_node_id q = id_of k
          \<longrightarrow> paired_with (id_of l) (info_of k) q)" if l: "l \<in> set ls" for l
    by (rule member_join [OF l _ assms(7,6), of "es (last ls)" s0, folded m_def]) (use assms(8) [OF l] assms(9) in blast)+
  have "launchable l \<and> awaits_frame (la_fd l) (oc_epoll s0)" if "l \<in> set ls" for l
    using assms(8) [OF that] by (simp add: idle_link_def)
  note reports = reports_bring_up [OF s(3) assms(4,6) this, of _ _ es']
  show ?thesis using s(1,2) nodes reports by blast
qed

text \<open>A prefill node and a decode node that name each other, and an orchestrator that expects one of each.\<close>

definition peer_named :: "string \<Rightarrow> peer_config" where
  "peer_named nid = \<lparr>pc_node_id = nid, pc_hostname = ''h'', pc_client_socket_port = 1, pc_server_socket_port = 2\<rparr>"

definition pair_config :: config where
  "pair_config = sample_rdma_config\<lparr>cf_prefill_nodes := [peer_named ''p0''], cf_decode_nodes := [peer_named ''d0''],
     cf_orchestrator_event_queue_size := 4\<rparr>"

definition launch_as :: "int \<Rightarrow> string \<Rightarrow> string \<Rightarrow> u32 \<Rightarrow> launch" where
  "launch_as fd nid role qp = \<lparr>la_fd = fd, la_config = pair_config\<lparr>cf_node_id := nid, cf_role := role\<rparr>, la_scalars = sample_node,
     la_calls = start_calls\<lparr>ns_init := sample_init_calls\<lparr>ic_qp := (\<lambda>pid. \<lparr>qa_create = Some qp, qa_init = True, qa_psn = 5, qa_gid = (\<lambda>_ _. None)\<rparr>)\<rparr>\<rparr>,
     la_env = decode_env Vllm_failed\<rparr>"

definition pair_launch :: "launch list" where
  "pair_launch = [launch_as 21 ''p0'' ''prefill'' 100, launch_as 22 ''d0'' ''decode'' 200]"

text \<open>What such a node registers.\<close>

definition pair_info :: "string \<Rightarrow> node_role \<Rightarrow> string \<Rightarrow> u32 \<Rightarrow> node_info" where
  "pair_info nid role peer qp = (new_node_info sample_node)\<lparr>ni_node_id := nid, ni_role := role, ni_gpu_name := ''CPU-only'',
     ni_gpu_numa := 0, ni_ib_dev_name := ''mlx5_0'', ni_ib_port := 1, ni_ib_numa := 0, ni_ib_speed_gbps := 100,
     ni_gpu_base_addr := 65536, ni_lkey := 1, ni_rkey := 2, ni_memory_pool_size := 17179869184,
     ni_qmaps := [\<lparr>pq_peer_node_id = peer, pq_local_qp_num = qp, pq_local_lid = 7, pq_local_gid = replicate 16 0, pq_local_psn = 5,
       pq_remote_qp_num = 0, pq_remote_lid = 0, pq_remote_gid = replicate 16 0, pq_remote_psn = 0, pq_remote_rkey = 0,
       pq_remote_addr = 0\<rparr>]\<rparr>"

lemma new_node_engine:
  "nd_engine (new_node c g) = new_rdma_engine c ((new_node_info g)\<lparr>ni_node_id := cf_node_id c,
     ni_role := (if cf_role c = ''prefill'' then PREFILL else DECODE)\<rparr>)"
  by (simp add: new_node_def)

definition launched_engine :: "string \<Rightarrow> string \<Rightarrow> u32 \<Rightarrow> bool \<times> rdma_engine" where
  "launched_engine nid role qp = (let l = launch_as 0 nid role qp in rdma_initialize (ns_init (la_calls l))
     (new_rdma_engine (la_config l) ((new_node_info sample_node)\<lparr>ni_node_id := nid, ni_role := (if role = ''prefill'' then PREFILL else DECODE)\<rparr>)))"

lemma pair_engines:
  "fst (launched_engine ''p0'' ''prefill'' 100) \<and> re_node_info (snd (launched_engine ''p0'' ''prefill'' 100)) = pair_info ''p0'' PREFILL ''d0'' 100"
  "fst (launched_engine ''d0'' ''decode'' 200) \<and> re_node_info (snd (launched_engine ''d0'' ''decode'' 200)) = pair_info ''d0'' DECODE ''p0'' 200"
  by code_simp+

lemma launch_as_started:
  fixes fd :: int
  assumes "launched_engine nid role qp = (True, eng)"
  defines "l \<equiv> launch_as fd nid role qp"
  shows "fst (node_start (la_calls l) (new_node (la_config l) (la_scalars l)))
    \<and> info_of l = (re_node_info eng)\<lparr>ni_own_orchestrator_fd := 6\<rparr>"
proof -
  have init: "rdma_initialize (ns_init (la_calls l)) (nd_engine (new_node (la_config l) (la_scalars l))) = (True, eng)"
    using assms(1) by (simp add: launched_engine_def l_def launch_as_def new_node_engine Let_def)
  have calls: "ns_bind (la_calls l) = Some 4" "ns_listen (la_calls l)" "ns_connect (la_calls l) = Some 6"
    "ns_conn_nonblock (la_calls l)" "ns_conn_ctl (la_calls l)"
    by (simp_all add: l_def launch_as_def start_calls_def)
  have c: "cf_use_gpu (la_config l)" "mc_required_mb (cf_memory (la_config l)) \<le> mc_kv_buffer_mb (cf_memory (la_config l))"
    by (simp_all add: l_def launch_as_def pair_config_def sample_rdma_config_def default_memory_config_def)
  have n: "nd_config (new_node (la_config l) g) = la_config l" for g by (simp add: new_node_def)
  show ?thesis
    using init calls c
    by (simp add: info_of_def started_def node_start_def n connect_to_orchestrator_def send_node_info_to_orchestrator_def
        node_worker_of_def set_node_worker_def Let_def add_connection_def not_less)
qed

definition up_orch :: orch where
  "up_orch = (new_orch (sample_config\<lparr>cf_expected_decode_nodes := 1\<rparr>) 3)\<lparr>oc_epoll := (oc_epoll sample_orch)\<lparr>
     ew_queue := new_event_queue 4, ew_connections := [(21, new_conn_state), (22, new_conn_state)]\<rparr>\<rparr>"

lemma pair_info_of:
  "info_of (launch_as 21 ''p0'' ''prefill'' 100) = (pair_info ''p0'' PREFILL ''d0'' 100)\<lparr>ni_own_orchestrator_fd := 6\<rparr>"
  "info_of (launch_as 22 ''d0'' ''decode'' 200) = (pair_info ''d0'' DECODE ''p0'' 200)\<lparr>ni_own_orchestrator_fd := 6\<rparr>"
  "fst (node_start (la_calls (launch_as 21 ''p0'' ''prefill'' 100)) (new_node (la_config (launch_as 21 ''p0'' ''prefill'' 100)) (la_scalars (launch_as 21 ''p0'' ''prefill'' 100))))"
  "fst (node_start (la_calls (launch_as 22 ''d0'' ''decode'' 200)) (new_node (la_config (launch_as 22 ''d0'' ''decode'' 200)) (la_scalars (launch_as 22 ''d0'' ''decode'' 200))))"
  using launch_as_started [of "''p0''" "''prefill''" 100 "snd (launched_engine ''p0'' ''prefill'' 100)" 21]
    launch_as_started [of "''d0''" "''decode''" 200 "snd (launched_engine ''d0'' ''decode'' 200)" 22] pair_engines
  by (simp_all add: prod_eq_iff)

lemmas pair_message_defs = sendable_def message_ok_def create_rdma_process_registration_def create_rdma_ready_def
  create_broadcast_member_info_def new_message_def new_request_info_def new_node_info_def pair_info_def
  sample_message_def sample_request_def sample_node_def node_info_ok_def peer_info_ok_def request_info_ok_def string_ok_def
  is_c_int_def INT_MAX_def serialize_message_def write_uint8_def write_uint64_def write_string_def
  write_request_info_def write_int_def write_node_info_def write_uint16_def
  write_peer_info_def write_uint32_def

lemma pair_sendable:
  "sendable (create_rdma_process_registration 9 sample_message nid (pair_info nid role peer qp\<lparr>ni_own_orchestrator_fd := 6\<rparr>))"
  if "nid \<in> {''p0'', ''d0''}" "peer \<in> {''p0'', ''d0''}" "role \<in> {PREFILL, DECODE}"
  using that by (auto simp: pair_message_defs)

lemma pair_ready_sendable: "nid \<in> {''p0'', ''d0''} \<Longrightarrow> sendable (create_rdma_ready 5 sample_message nid)"
  by (auto simp: pair_message_defs)

lemma pair_announcement_sendable: "sendable (announcement sample_env up_orch (members pair_launch))"
  by (simp add: announcement_def members_def pair_launch_def pair_info_of up_orch_def sample_env_def new_orch_def
      sample_config_def forget_fds_def pair_message_defs)

lemma pair_launchable: "l \<in> set pair_launch \<Longrightarrow> launchable l"
proof -
  have q: "cf_orchestrator_event_queue_size (la_config (launch_as fd nid role qp)) \<noteq> 0" for fd nid role qp
    by (simp add: launch_as_def pair_config_def)
  have c: "ns_now (la_calls (launch_as fd nid role qp)) = 9" "ns_message (la_calls (launch_as fd nid role qp)) = sample_message"
    "ne_ns (la_env (launch_as fd nid role qp)) = 5" "ne_message (la_env (launch_as fd nid role qp)) = sample_message" for fd nid role qp
    by (simp_all add: launch_as_def start_calls_def decode_env_def)
  have nid: "ni_node_id (pair_info nid role peer qp) = nid" for nid role peer qp by (simp add: pair_info_def)
  assume "l \<in> set pair_launch"
  then show "launchable l"
    unfolding pair_launch_def launchable_def registration_of_eq ready_of_def
    using pair_info_of(3,4) by (auto simp: q c nid pair_info_of(1,2) pair_sendable pair_ready_sendable)
qed

theorem cluster_comes_up_witness:
  "\<exists>s1 s2 s3. orch_serves_all (map (\<lambda>l. (sample_env, la_fd l, frame (registration_of l))) pair_launch) up_orch = Some s1
     \<and> orch_sends_all [21, 22] s1 = Some (map (\<lambda>l. frame (announcement sample_env up_orch (members pair_launch))) pair_launch, s2)
     \<and> orch_serves_all (map (\<lambda>l. (sample_env, la_fd l, frame (ready_of l))) (rev pair_launch)) s2 = Some s3 \<and> oc_state s3 = RUNNING"
proof -
  have fds: "map la_fd pair_launch = [21, 22]" "map id_of pair_launch = [''p0'', ''d0'']"
    by (simp_all add: pair_launch_def launch_as_def) (simp_all add: pair_info_of [unfolded launch_as_def] pair_info_def)
  have orch: "awaiting_nodes up_orch" "int (length pair_launch) = expected_nodes up_orch"
    by (simp_all add: awaiting_nodes_def up_orch_def new_orch_def has_room_def new_event_queue_def expected_nodes_def
        sample_config_def pair_launch_def)
  have idle: "idle_link (la_fd l) (oc_epoll up_orch)" if "l \<in> set pair_launch" for l
    using that by (auto simp: pair_launch_def launch_as_def up_orch_def idle_link_def awaits_frame_def pending_for_def
        find_conn_def new_conn_state_def)
  have mesh: "meshed pair_launch"
    by (simp add: meshed_def pair_launch_def pair_info_of answers_def pair_info_def)
  have dist: "pair_launch \<noteq> []" "distinct (map la_fd pair_launch)" "distinct (map id_of pair_launch)"
    unfolding fds by (simp_all add: pair_launch_def)
  have nodes: "launchable l \<and> idle_link (la_fd l) (oc_epoll up_orch)" if "l \<in> set pair_launch" for l
    using pair_launchable [OF that] idle [OF that] by simp
  obtain s1 s2 where s: "orch_serves_all (map (\<lambda>l. (sample_env, la_fd l, frame (registration_of l))) pair_launch) up_orch = Some s1"
    "orch_sends_all (map la_fd pair_launch) s1 = Some (map (\<lambda>l. frame (announcement sample_env up_orch (members pair_launch))) pair_launch, s2)"
    and reps: "\<And>ks j. mset ks = mset pair_launch \<and> j \<le> length ks \<Longrightarrow>
        \<exists>s3. orch_serves_all (map (\<lambda>l. (sample_env, la_fd l, frame (ready_of l))) (take j ks)) s2 = Some s3
          \<and> oc_state s3 = (if j = length ks then RUNNING else oc_state up_orch)"
    using cluster_comes_up [of up_orch pair_launch "\<lambda>_. sample_env" "\<lambda>_. sample_env",
        OF orch dist mesh nodes pair_announcement_sendable] by blast
  have "mset (rev pair_launch) = mset pair_launch \<and> length (rev pair_launch) \<le> length (rev pair_launch)" by simp
  from reps [OF this] obtain s3 where
    "orch_serves_all (map (\<lambda>l. (sample_env, la_fd l, frame (ready_of l))) (rev pair_launch)) s2 = Some s3" "oc_state s3 = RUNNING"
    by auto
  with s [unfolded fds] show ?thesis by blast
qed

end
