(* ===== verification/NodeLife.thy ===== *)
theory NodeLife
  imports NodeProps
begin

text \<open>
  The life of a node as its threads see it. \<open>NodeWorker\<close> takes \<open>Node::start\<close> and \<open>Node::shutdown\<close> in one step; here the
  main thread goes through them statement by statement, from the moment the registration is queued, while the
  worker threads already handle what the orchestrator answers and the polling thread takes its turns.
\<close>

section \<open>State\<close>

text \<open>The statement the main thread executes next: the end of \<open>start\<close>, the wait for a signal, \<open>shutdown\<close>. A worker may finish an
  event as long as it has not been joined, also after \<open>running_\<close> has been cleared.\<close>

datatype main_pc =
    Start_polling | Store_waiting | Store_running
  | Up
  | Kill_vllm | Store_stopped | Close_listener | Stop_polling | Stop_engine | Stop_io | Clear_pool | Join_workers | Clear_running
  | Down

record life =
  lf_node :: node
  lf_pc :: main_pc

definition is_decode :: "node \<Rightarrow> bool" where
  "is_decode n \<longleftrightarrow> cf_role (nd_config n) = ''decode''"

text \<open>One statement. \<open>shutdown\<close> of a node that is not running returns at once.\<close>

fun main_step :: "bool \<Rightarrow> main_pc \<Rightarrow> node \<Rightarrow> node \<times> main_pc" where
  "main_step gpu Start_polling n = (if is_decode n then n\<lparr>nd_poll_running := True, nd_poll_thread := True\<rparr> else n, Store_waiting)"
| "main_step gpu Store_waiting n = (n\<lparr>nd_state := Node_WAITING_FOR_BROADCAST\<rparr>, Store_running)"
| "main_step gpu Store_running n = (n\<lparr>nd_running := True\<rparr>, Up)"
| "main_step gpu Up n = (n, if nd_running n then Kill_vllm else Up)"
| "main_step gpu Kill_vllm n = (terminate_vllm n, Store_stopped)"
| "main_step gpu Store_stopped n = (n\<lparr>nd_state := Node_STOPPED\<rparr>, Close_listener)"
| "main_step gpu Close_listener n = (n\<lparr>nd_server_fd := -1\<rparr>, Stop_polling)"
| "main_step gpu Stop_polling n =
     (if is_decode n \<and> nd_poll_running n then n\<lparr>nd_poll_running := False, nd_poll_thread := False\<rparr> else n, Stop_engine)"
| "main_step gpu Stop_engine n = (n\<lparr>nd_engine := rdma_shutdown gpu (nd_engine n)\<rparr>, Stop_io)"
| "main_step gpu Stop_io n = (stop_io n, Clear_pool)"
| "main_step gpu Clear_pool n = (stop_pool n, Join_workers)"
| "main_step gpu Join_workers n = (n, Clear_running)"
| "main_step gpu Clear_running n = (n\<lparr>nd_running := False\<rparr>, Down)"
| "main_step gpu Down n = (n, Down)"

datatype life_action =
    Main bool
  | Arrives event
  | Work node_env
  | Turn "completion list option" "nat \<Rightarrow> bool" "nat \<Rightarrow> poll_env"

definition set_queue :: "event_queue \<Rightarrow> node \<Rightarrow> node" where
  "set_queue q n = n\<lparr>nd_epoll := (nd_epoll n)\<lparr>ew_queue := q\<rparr>\<rparr>"

text \<open>The I/O thread reads as long as it runs. A handler that throws ends the process, and with it the run.\<close>

fun life_act :: "life_action \<Rightarrow> life \<Rightarrow> life option" where
  "life_act (Main gpu) x = (let (n, pc) = main_step gpu (lf_pc x) (lf_node x) in Some \<lparr>lf_node = n, lf_pc = pc\<rparr>)"
| "life_act (Arrives ev) x =
     (if ew_running (nd_epoll (lf_node x))
      then Some (x\<lparr>lf_node := set_queue (snd (eq_push (ew_queue (nd_epoll (lf_node x))) ev)) (lf_node x)\<rparr>) else None)"
| "life_act (Work e) x =
     (if lf_pc x \<in> {Clear_running, Down} then None
      else case eq_pop (ew_queue (nd_epoll (lf_node x))) of
        None \<Rightarrow> None
      | Some (ev, q) \<Rightarrow>
          (case node_process_event e ev (set_queue q (lf_node x)) of Terminated \<Rightarrow> None | Returns n \<Rightarrow> Some (x\<lparr>lf_node := n\<rparr>)))"
| "life_act (Turn polled ok p) x =
     (if nd_poll_thread (lf_node x) then Some (x\<lparr>lf_node := poll_turn polled ok p (lf_node x)\<rparr>) else None)"

fun life_run :: "life_action list \<Rightarrow> life \<Rightarrow> life option" where
  "life_run [] x = Some x"
| "life_run (a # as) x = (case life_act a x of None \<Rightarrow> None | Some x' \<Rightarrow> life_run as x')"

lemma life_run_append:
  "life_run (as @ bs) x = (case life_run as x of None \<Rightarrow> None | Some y \<Rightarrow> life_run bs y)"
  by (induction as arbitrary: x) (auto split: option.split)

section \<open>Without interference\<close>

text \<open>\<open>start\<close> up to the queued registration; what remains are the three statements above.\<close>

definition node_register :: "node_start_calls \<Rightarrow> node \<Rightarrow> bool \<times> node" where
  "node_register a n =
     (let c = nd_config n; gpu = ic_gpus (ns_init a) \<noteq> None in
      if mc_kv_buffer_mb (cf_memory c) < mc_required_mb (cf_memory c) then (False, n)
      else case ns_bind a of
        None \<Rightarrow> (False, n\<lparr>nd_server_fd := -1\<rparr>)
      | Some sfd \<Rightarrow>
     (let n = n\<lparr>nd_server_fd := sfd\<rparr> in
      if \<not> ns_listen a then (False, n)
      else
        let n = n\<lparr>nd_epoll := node_worker_start (ns_epoll_fd a) (ns_nonblock a) (ns_ctl a) sfd (nd_epoll n),
                  nd_pool_running := True\<rparr>;
            (init, eng) = (if cf_use_gpu c then rdma_initialize (ns_init a) (nd_engine n) else (True, nd_engine n));
            n = n\<lparr>nd_engine := eng\<rparr> in
        if \<not> init then (False, stop_pool (stop_io n))
        else
          let (connected, w) = connect_to_orchestrator (ns_connect a) (ns_conn_nonblock a) (ns_conn_ctl a) (node_worker_of n);
              n = set_node_worker w n in
          if \<not> connected then abort_start gpu n
          else
            let (sent, w) = send_node_info_to_orchestrator (ns_now a) (ns_message a) (node_worker_of n);
                n = set_node_worker w n in
            if \<not> sent then abort_start gpu n else (True, n)))"

lemma register_keeps_polling:
  "node_register a n = (True, n') \<Longrightarrow> nd_poll_running n' = nd_poll_running n \<and> nd_poll_thread n' = nd_poll_thread n
    \<and> nd_config n' = nd_config n"
  by (auto simp: node_register_def abort_start_def set_node_worker_def Let_def split: option.splits if_splits prod.splits)

lemma start_is_register:
  "node_start a n = (case node_register a n of
     (False, n') \<Rightarrow> (False, n')
   | (True, n') \<Rightarrow> (True, n'\<lparr>nd_poll_running := (cf_role (nd_config n) = ''decode''), nd_poll_thread := (cf_role (nd_config n) = ''decode''),
       nd_state := Node_WAITING_FOR_BROADCAST, nd_running := True\<rparr>))"
  by (simp add: node_start_def node_register_def abort_start_def Let_def split: option.split prod.split bool.split)

lemma new_node_sel [simp]:
  "nd_config (new_node c g) = c" "\<not> nd_poll_running (new_node c g)" "\<not> nd_poll_thread (new_node c g)"
  by (simp_all add: new_node_def Let_def)

text \<open>Statement by statement and with nothing in between, the main thread does what \<open>node_start\<close> and \<open>node_shutdown\<close> do.\<close>

theorem undisturbed_start:
  assumes r: "node_register a (new_node c g) = (True, n)"
  shows "life_run [Main gpu, Main gpu, Main gpu] \<lparr>lf_node = n, lf_pc = Start_polling\<rparr>
       = Some \<lparr>lf_node = snd (node_start a (new_node c g)), lf_pc = Up\<rparr>"
proof -
  have "nd_config n = c" "\<not> nd_poll_running n" "\<not> nd_poll_thread n" using register_keeps_polling [OF r] by simp_all
  then show ?thesis
    by (cases n) (simp add: start_is_register [of a "new_node c g"] r is_decode_def)
qed

theorem undisturbed_shutdown:
  "nd_running n \<Longrightarrow> life_run (replicate 10 (Main gpu)) \<lparr>lf_node = n, lf_pc = Up\<rparr> = Some \<lparr>lf_node = node_shutdown gpu n, lf_pc = Down\<rparr>"
  by (simp add: numeral_eq_Suc node_shutdown_def is_decode_def Let_def)

section \<open>What the other threads leave alone\<close>

text \<open>The part of a node that only the main thread changes, and the two fields a broadcast writes.\<close>

definition main_part :: "node \<Rightarrow> config \<times> bool \<times> bool \<times> int \<times> bool \<times> bool \<times> bool" where
  "main_part n = (nd_config n, nd_running n, nd_pool_running n, nd_server_fd n, ew_running (nd_epoll n),
     eq_stopped (ew_queue (nd_epoll n)), re_initialized (nd_engine n))"

lemma main_part_updates [simp]:
  "main_part (n\<lparr>nd_events_processed := k\<rparr>) = main_part n" "main_part (n\<lparr>nd_tracker := t\<rparr>) = main_part n"
  "main_part (n\<lparr>nd_state := s\<rparr>) = main_part n" "main_part (start_vllm file p n) = main_part n"
  "main_part (n\<lparr>nd_prefill_calls := ps\<rparr>) = main_part n" "main_part (n\<lparr>nd_decode_calls := ds\<rparr>) = main_part n"
  "main_part (n\<lparr>nd_poll_running := b\<rparr>) = main_part n"
  "main_part (on_layers f n) = main_part n"
  by (simp_all add: main_part_def on_layers_def)

lemma main_part_engine: "re_initialized eng = re_initialized (nd_engine n) \<Longrightarrow> main_part (n\<lparr>nd_engine := eng\<rparr>) = main_part n"
  by (simp add: main_part_def)

lemma main_part_queue: "eq_stopped q = eq_stopped (ew_queue (nd_epoll n)) \<Longrightarrow> main_part (set_queue q n) = main_part n"
  by (simp add: main_part_def set_queue_def)

lemma enqueue_response_flags [simp]:
  "ew_running (enqueue_response fd m w) = ew_running w" "ew_queue (enqueue_response fd m w) = ew_queue w"
  by (simp_all add: enqueue_response_def modify_epoll_def record_call_def put_conn_def Let_def split: option.split)

lemma main_part_send [simp]: "main_part (send_orchestrator m n) = main_part n"
  by (simp add: main_part_def send_orchestrator_def)

lemma main_part_qmaps [simp]: "main_part (set_qmaps qs n) = main_part n"
  by (simp add: main_part_def set_qmaps_def)

lemma connect_all_initialized: "connect_all_qps a ok e = Some (c, e') \<Longrightarrow> re_initialized e' = re_initialized e"
  by (auto simp: connect_all_qps_def post_recv_wrs_def Let_def split: option.splits if_splits prod.splits list.splits)

definition is_broadcast :: "event \<Rightarrow> bool" where
  "is_broadcast ev \<longleftrightarrow> msg_type (snd ev) = BROADCAST_MEMBER_INFO"

text \<open>What \<open>fork\<close> returns when the handler of a broadcast gets to it.\<close>

definition fork_of :: "node_env \<Rightarrow> node \<Rightarrow> int list" where
  "fork_of e n = (if cf_use_gpu (nd_config n) \<or> ne_mooncake_file e then [ne_fork e] else [])"

lemma member_broadcast_keeps:
  assumes "handle_broadcast_member_info e m n = Returns n'"
  shows "main_part n' = main_part n" and "nd_state n' = Node_RUNNING"
    and "nd_vllm_pid n' = last (nd_vllm_pid n # fork_of e n)" and "nd_vllm_servers n' = nd_vllm_servers n @ filter (\<lambda>p. 0 < p) (fork_of e n)"
    and "nd_poll_running n' = nd_poll_running n" and "nd_poll_thread n' = nd_poll_thread n"
proof -
  obtain qs c eng where qs: "(if cf_use_gpu (nd_config (set_qmaps qs n))
        then connect_all_qps (ne_connect e) (ne_post_recv e) (nd_engine (set_qmaps qs n))
        else Some (True, nd_engine (set_qmaps qs n))) = Some (c, eng)"
    and n': "n' = (send_orchestrator (create_rdma_ready (ne_ns e) (ne_message e) (ni_node_id (re_node_info eng)))
      (start_vllm (ne_mooncake_file e) (ne_fork e) ((set_qmaps qs n)\<lparr>nd_engine := eng\<rparr>)))\<lparr>nd_state := Node_RUNNING\<rparr>"
    using assms by (auto simp: handle_broadcast_member_info_def Let_def split: option.splits prod.splits)
  have "re_initialized eng = re_initialized (nd_engine (set_qmaps qs n))"
    using qs connect_all_initialized by (auto split: if_splits)
  then show "main_part n' = main_part n"
    by (simp add: n' main_part_engine)
  show "nd_state n' = Node_RUNNING" "nd_poll_running n' = nd_poll_running n" "nd_poll_thread n' = nd_poll_thread n"
    "nd_vllm_pid n' = last (nd_vllm_pid n # fork_of e n)" "nd_vllm_servers n' = nd_vllm_servers n @ filter (\<lambda>p. 0 < p) (fork_of e n)"
    by (simp_all add: n' send_orchestrator_def set_qmaps_def fork_of_def start_vllm_def)
qed

lemma event_keeps:
  assumes "node_process_event e ev n = Returns n'"
  shows "main_part n' = main_part n \<and> nd_poll_running n' = nd_poll_running n \<and> nd_poll_thread n' = nd_poll_thread n
    \<and> nd_state n' = (if is_broadcast ev then Node_RUNNING else nd_state n)
    \<and> nd_vllm_pid n' = (if is_broadcast ev then last (nd_vllm_pid n # fork_of e n) else nd_vllm_pid n)
    \<and> nd_vllm_servers n' = (if is_broadcast ev then nd_vllm_servers n @ filter (\<lambda>p. 0 < p) (fork_of e n) else nd_vllm_servers n)"
proof (cases "is_broadcast ev")
  case True
  then have "handle_broadcast_member_info e (snd ev) (n\<lparr>nd_events_processed := nd_events_processed n + 1\<rparr>) = Returns n'"
    using assms by (cases ev) (simp add: node_process_event_def is_broadcast_def)
  from member_broadcast_keeps [OF this] True show ?thesis by (simp add: fork_of_def)
next
  case False
  then show ?thesis
    using assms
    by (cases ev) (auto simp: node_process_event_def is_broadcast_def handler_defs handle_kv_transfer_complete_def
        on_layers_def main_part_def send_orchestrator_def Let_def
        split: message_type.splits option.splits sum.splits vllm_answer.splits)
qed

lemma eq_push_stopped [simp]: "eq_stopped (snd (eq_push q ev)) = eq_stopped q"
  by (simp add: eq_push_def)

lemma completions_keep:
  "main_part (handle_completions p i ws n) = main_part n \<and> nd_poll_running (handle_completions p i ws n) = nd_poll_running n
    \<and> nd_poll_thread (handle_completions p i ws n) = nd_poll_thread n \<and> nd_state (handle_completions p i ws n) = nd_state n
    \<and> nd_vllm_pid (handle_completions p i ws n) = nd_vllm_pid n \<and> nd_vllm_servers (handle_completions p i ws n) = nd_vllm_servers n"
proof (induction ws arbitrary: n i)
  case (Cons w ws)
  have "main_part (handle_completion (p i) w n) = main_part n \<and> nd_poll_running (handle_completion (p i) w n) = nd_poll_running n
    \<and> nd_poll_thread (handle_completion (p i) w n) = nd_poll_thread n \<and> nd_state (handle_completion (p i) w n) = nd_state n
    \<and> nd_vllm_pid (handle_completion (p i) w n) = nd_vllm_pid n \<and> nd_vllm_servers (handle_completion (p i) w n) = nd_vllm_servers n"
    by (auto simp: handle_completion_def Let_def main_part_def split: prod.split)
  with Cons show ?case by simp
qed simp

lemma poll_initialized: "poll_recv_cq polled ok e = (k, wcs, e') \<Longrightarrow> re_initialized e' = re_initialized e"
  by (auto simp: poll_recv_cq_def post_recv_wrs_def Let_def split: option.splits if_splits prod.splits list.splits)

lemma turn_keeps:
  "main_part (poll_turn polled ok p n) = main_part n \<and> (nd_poll_running (poll_turn polled ok p n) \<longrightarrow> nd_poll_running n)
    \<and> nd_poll_thread (poll_turn polled ok p n) = nd_poll_thread n \<and> nd_state (poll_turn polled ok p n) = nd_state n
    \<and> nd_vllm_pid (poll_turn polled ok p n) = nd_vllm_pid n \<and> nd_vllm_servers (poll_turn polled ok p n) = nd_vllm_servers n"
proof -
  obtain k wcs eng where polled: "poll_recv_cq polled ok (nd_engine n) = (k, wcs, eng)" by (metis prod_cases3)
  show ?thesis
    using completions_keep [of p 0 wcs "n\<lparr>nd_engine := eng\<rparr>"] main_part_engine [OF poll_initialized [OF polled]]
    by (auto simp: poll_turn_def polled Let_def)
qed

text \<open>One action of another thread. What it takes from the queue decides about the two fields.\<close>

fun broadcast_now :: "life_action \<Rightarrow> life \<Rightarrow> bool" where
  "broadcast_now (Work e) x \<longleftrightarrow> (case eq_queue (ew_queue (nd_epoll (lf_node x))) of [] \<Rightarrow> False | ev # evs \<Rightarrow> is_broadcast ev)"
| "broadcast_now a x \<longleftrightarrow> False"

fun broadcast_handled :: "life_action list \<Rightarrow> life \<Rightarrow> bool" where
  "broadcast_handled [] x \<longleftrightarrow> False"
| "broadcast_handled (a # as) x \<longleftrightarrow> broadcast_now a x \<or> (case life_act a x of None \<Rightarrow> False | Some x' \<Rightarrow> broadcast_handled as x')"

text \<open>What \<open>fork\<close> returned to the handlers of broadcasts, in order.\<close>

fun fork_now :: "life_action \<Rightarrow> life \<Rightarrow> int list" where
  "fork_now (Work e) x = (if broadcast_now (Work e) x then fork_of e (lf_node x) else [])"
| "fork_now a x = []"

fun forks :: "life_action list \<Rightarrow> life \<Rightarrow> int list" where
  "forks [] x = []"
| "forks (a # as) x = fork_now a x @ (case life_act a x of None \<Rightarrow> [] | Some x' \<Rightarrow> forks as x')"

lemma other_thread:
  assumes "life_act a x = Some y" and "\<And>gpu. a \<noteq> Main gpu"
  shows "lf_pc y = lf_pc x \<and> main_part (lf_node y) = main_part (lf_node x)
    \<and> (nd_poll_running (lf_node y) \<longrightarrow> nd_poll_running (lf_node x))
    \<and> nd_state (lf_node y) = (if broadcast_now a x then Node_RUNNING else nd_state (lf_node x))
    \<and> nd_vllm_pid (lf_node y) = last (nd_vllm_pid (lf_node x) # fork_now a x)
    \<and> nd_vllm_servers (lf_node y) = nd_vllm_servers (lf_node x) @ filter (\<lambda>p. 0 < p) (fork_now a x)"
proof (cases a)
  case (Main gpu)
  with assms(2) [of gpu] show ?thesis by simp
next
  case (Arrives ev)
  with assms(1) main_part_queue [of _ "lf_node x"] show ?thesis by (auto simp: set_queue_def split: if_splits)
next
  case (Work e)
  with assms(1) obtain ev q n where q: "eq_pop (ew_queue (nd_epoll (lf_node x))) = Some (ev, q)"
    and n: "node_process_event e ev (set_queue q (lf_node x)) = Returns n" and y: "y = x\<lparr>lf_node := n\<rparr>"
    by (auto split: if_splits option.splits prod.splits outcome.splits)
  obtain evs where evs: "eq_queue (ew_queue (nd_epoll (lf_node x))) = ev # evs"
    and stop: "eq_stopped q = eq_stopped (ew_queue (nd_epoll (lf_node x)))"
    using q by (auto simp: eq_pop_def split: list.splits)
  have sel: "nd_poll_running (set_queue q (lf_node x)) = nd_poll_running (lf_node x)" "nd_state (set_queue q (lf_node x)) = nd_state (lf_node x)"
    "nd_vllm_pid (set_queue q (lf_node x)) = nd_vllm_pid (lf_node x)" "nd_vllm_servers (set_queue q (lf_node x)) = nd_vllm_servers (lf_node x)"
    "fork_of e (set_queue q (lf_node x)) = fork_of e (lf_node x)"
    by (simp_all add: set_queue_def fork_of_def)
  show ?thesis
    using event_keeps [OF n] main_part_queue [OF stop] evs by (simp add: Work y sel)
next
  case (Turn polled ok p)
  with assms(1) turn_keeps [of polled ok p "lf_node x"] show ?thesis by (auto split: if_splits)
qed

section \<open>Shutdown under any interleaving\<close>

fun stage :: "main_pc \<Rightarrow> nat" where
  "stage Start_polling = 0" | "stage Store_waiting = 1" | "stage Store_running = 2" | "stage Up = 3" | "stage Kill_vllm = 4"
| "stage Store_stopped = 5" | "stage Close_listener = 6" | "stage Stop_polling = 7" | "stage Stop_engine = 8" | "stage Stop_io = 9"
| "stage Clear_pool = 10" | "stage Join_workers = 11" | "stage Clear_running = 12" | "stage Down = 13"

text \<open>What \<open>shutdown\<close> has achieved when the main thread is at a statement.\<close>

definition stopped_so_far :: "life \<Rightarrow> bool" where
  "stopped_so_far x \<longleftrightarrow> (let n = lf_node x; k = stage (lf_pc x) in
     (\<not> is_decode n \<longrightarrow> \<not> nd_poll_running n) \<and> (k \<le> 10 \<longrightarrow> nd_pool_running n)
     \<and> (6 < k \<longrightarrow> nd_server_fd n = -1) \<and> (7 < k \<longrightarrow> \<not> nd_poll_running n) \<and> (8 < k \<longrightarrow> \<not> re_initialized (nd_engine n))
     \<and> (9 < k \<longrightarrow> \<not> ew_running (nd_epoll n))
     \<and> (10 < k \<longrightarrow> \<not> nd_pool_running n \<and> eq_stopped (ew_queue (nd_epoll n)))
     \<and> (k = 13 \<longrightarrow> \<not> nd_running n))"

lemma rdma_shutdown_initialized: "\<not> re_initialized (rdma_shutdown gpu e)"
  by (simp add: rdma_shutdown_def Let_def split: prod.split)

lemma stop_io_running: "\<not> ew_running (stop_worker w)"
  by (simp add: stop_worker_def)

lemma main_stopped_so_far:
  assumes "stopped_so_far x" and "life_act (Main gpu) x = Some y"
  shows "stopped_so_far y"
proof (cases x)
  case (fields n pc)
  have y: "y = \<lparr>lf_node = fst (main_step gpu pc n), lf_pc = snd (main_step gpu pc n)\<rparr>"
    using assms(2) by (simp add: fields case_prod_unfold Let_def)
  have inv: "stopped_so_far \<lparr>lf_node = n, lf_pc = pc\<rparr>" using assms(1) fields by simp
  show ?thesis
    using inv
    by (cases pc; simp add: y stopped_so_far_def is_decode_def stop_io_def stop_pool_def eq_wake_all_def Let_def
        rdma_shutdown_initialized stop_io_running; blast?)
qed

lemma other_stopped_so_far:
  assumes "stopped_so_far x" and "life_act a x = Some y" and "\<And>gpu. a \<noteq> Main gpu"
  shows "stopped_so_far y"
  using other_thread [OF assms(2,3)] assms(1)
  by (simp add: stopped_so_far_def main_part_def is_decode_def Let_def) blast

lemma run_stopped_so_far: "stopped_so_far x \<Longrightarrow> life_run as x = Some y \<Longrightarrow> stopped_so_far y"
proof (induction as arbitrary: x)
  case (Cons a as)
  then obtain z where z: "life_act a x = Some z" "life_run as z = Some y" by (auto split: option.splits)
  have "stopped_so_far z"
    using main_stopped_so_far other_stopped_so_far Cons.prems(1) z(1) by (cases a) blast+
  with Cons.IH z(2) show ?case by blast
qed simp

lemma register_pool:
  "node_register a n = (True, n') \<Longrightarrow> nd_pool_running n'"
  by (auto simp: node_register_def abort_start_def set_node_worker_def Let_def split: option.splits if_splits prod.splits)

text \<open>C27 (shutdown is complete): from the registration on, however the I/O thread, the workers and the polling thread interleave with
  the main thread, a node that is down has no running loop, no initialised engine, no listener, and a stopped event queue.\<close>

theorem down_is_quiet:
  assumes "node_register a (new_node c g) = (True, n)"
    and "life_run as \<lparr>lf_node = n, lf_pc = Start_polling\<rparr> = Some y" and "lf_pc y = Down"
  shows "\<not> nd_running (lf_node y) \<and> \<not> nd_pool_running (lf_node y) \<and> \<not> nd_poll_running (lf_node y)
    \<and> \<not> ew_running (nd_epoll (lf_node y)) \<and> eq_stopped (ew_queue (nd_epoll (lf_node y)))
    \<and> \<not> re_initialized (nd_engine (lf_node y)) \<and> nd_server_fd (lf_node y) = -1"
proof -
  have "stopped_so_far \<lparr>lf_node = n, lf_pc = Start_polling\<rparr>"
    using register_pool [OF assms(1)] register_keeps_polling [OF assms(1)] by (simp add: stopped_so_far_def)
  from run_stopped_so_far [OF this assms(2)] assms(3) show ?thesis by (simp add: stopped_so_far_def Let_def)
qed

text \<open>The node of the sample configuration, started and stopped with nothing in between.\<close>

lemma start_registers: "node_start a n = (True, n') \<Longrightarrow> \<exists>n''. node_register a n = (True, n'')"
  by (auto simp: start_is_register split: prod.splits bool.splits)

lemma mains_through: "\<exists>n'. life_run (replicate 13 (Main gpu)) \<lparr>lf_node = n, lf_pc = Start_polling\<rparr> = Some \<lparr>lf_node = n', lf_pc = Down\<rparr>"
  by (simp add: numeral_eq_Suc)

theorem down_is_quiet_witness:
  "\<exists>c n y. config_from_file yaml_tree (0, 0) (Some sample_yaml) = Inr c \<and> node_register start_calls (new_node c sample_node) = (True, n)
     \<and> life_run (replicate 13 (Main True)) \<lparr>lf_node = n, lf_pc = Start_polling\<rparr> = Some y \<and> lf_pc y = Down
     \<and> \<not> nd_running (lf_node y) \<and> \<not> re_initialized (nd_engine (lf_node y))"
proof -
  obtain c where c: "config_from_file yaml_tree (0, 0) (Some sample_yaml) = Inr c"
    and m: "cf_memory c = default_memory_config\<lparr>mc_required_mb := 12288\<rparr>"
    using sample_yaml_config by blast
  have "mc_required_mb (cf_memory c) \<le> mc_kv_buffer_mb (cf_memory c)" by (simp add: m default_memory_config_def)
  then obtain n where n: "node_register start_calls (new_node c sample_node) = (True, n)"
    using start_calls_start start_registers by blast
  obtain n' where y: "life_run (replicate 13 (Main True)) \<lparr>lf_node = n, lf_pc = Start_polling\<rparr> = Some \<lparr>lf_node = n', lf_pc = Down\<rparr>"
    using mains_through by blast
  from down_is_quiet [OF n y] c n y show ?thesis by fastforce
qed

section \<open>Two races\<close>

lemma main_stage: "life_act (Main gpu) x = Some y \<Longrightarrow> stage (lf_pc x) \<le> stage (lf_pc y)"
  by (cases "lf_pc x") auto

lemma stage_mono: "life_run as x = Some y \<Longrightarrow> stage (lf_pc x) \<le> stage (lf_pc y)"
proof (induction as arbitrary: x)
  case (Cons a as)
  then obtain z where z: "life_act a x = Some z" "life_run as z = Some y" by (auto split: option.splits)
  have "stage (lf_pc x) \<le> stage (lf_pc z)"
    using main_stage other_thread [OF z(1)] z(1) by (cases a) auto
  with Cons.IH [OF z(2)] show ?case by simp
qed simp

text \<open>A stretch of a run in which the main thread does not terminate vLLM.\<close>

lemma run_vllm:
  "life_run as x = Some y \<Longrightarrow> stage (lf_pc y) \<le> 4 \<or> 4 < stage (lf_pc x)
    \<Longrightarrow> nd_vllm_pid (lf_node y) = last (nd_vllm_pid (lf_node x) # forks as x)
      \<and> nd_vllm_servers (lf_node y) = nd_vllm_servers (lf_node x) @ filter (\<lambda>p. 0 < p) (forks as x)"
proof (induction as arbitrary: x)
  case (Cons a as)
  then obtain z where z: "life_act a x = Some z" "life_run as z = Some y" by (auto split: option.splits)
  have stage: "stage (lf_pc x) \<le> stage (lf_pc z)" "stage (lf_pc z) \<le> stage (lf_pc y)"
    using stage_mono [of "[a]" x z] stage_mono [OF z(2)] z(1) by simp_all
  have step: "nd_vllm_pid (lf_node z) = last (nd_vllm_pid (lf_node x) # fork_now a x)
      \<and> nd_vllm_servers (lf_node z) = nd_vllm_servers (lf_node x) @ filter (\<lambda>p. 0 < p) (fork_now a x)"
  proof (cases "\<exists>gpu. a = Main gpu")
    case True
    with z(1) Cons.prems(2) stage show ?thesis
      by (cases "lf_pc x") (auto simp: stop_io_def stop_pool_def split: if_splits)
  next
    case False
    with other_thread [OF z(1)] show ?thesis by auto
  qed
  have "nd_vllm_pid (lf_node y) = last (nd_vllm_pid (lf_node z) # forks as z)
      \<and> nd_vllm_servers (lf_node y) = nd_vllm_servers (lf_node z) @ filter (\<lambda>p. 0 < p) (forks as z)"
    by (rule Cons.IH [OF z(2)]) (use Cons.prems(2) stage in auto)
  with step z(1) show ?case by auto
qed simp

lemma run_state:
  "life_run as x = Some y \<Longrightarrow> 2 \<le> stage (lf_pc x) \<Longrightarrow> stage (lf_pc y) \<le> 5
    \<Longrightarrow> nd_state (lf_node y) = (if broadcast_handled as x then Node_RUNNING else nd_state (lf_node x))"
proof (induction as arbitrary: x)
  case (Cons a as)
  then obtain z where z: "life_act a x = Some z" "life_run as z = Some y" by (auto split: option.splits)
  have stage: "stage (lf_pc x) \<le> stage (lf_pc z)" "stage (lf_pc z) \<le> stage (lf_pc y)"
    using stage_mono [of "[a]" x z] stage_mono [OF z(2)] z(1) by simp_all
  have "nd_state (lf_node z) = (if broadcast_now a x then Node_RUNNING else nd_state (lf_node x))"
  proof (cases "\<exists>gpu. a = Main gpu")
    case True
    with z(1) Cons.prems(2,3) stage show ?thesis
      by (cases "lf_pc x") auto
  next
    case False
    with other_thread [OF z(1)] show ?thesis by auto
  qed
  with Cons.IH [OF z(2)] Cons.prems(2,3) stage z(1) show ?case by auto
qed simp

text \<open>C28 Which vLLM servers outlive the node. \<open>fork\<close>'s answer to every broadcast replaces the one remembered process id, and \<open>shutdown\<close>
  terminates the remembered server first and joins the workers last. So, whatever else happens in between, what is left running is every
  server that a broadcast started before the termination and a later answer of \<open>fork\<close> replaced, and every server that a broadcast handled
  after the termination started.\<close>

theorem vllm_outlives_shutdown:
  assumes "nd_vllm_pid (lf_node s) = -1" and "nd_vllm_servers (lf_node s) = []"
    and "life_run as s = Some x" and "lf_pc x = Kill_vllm" and "life_act (Main gpu) x = Some k" and "life_run bs k = Some y"
  shows "nd_vllm_servers (lf_node y)
    = filter (\<lambda>p. 0 < p \<and> p \<noteq> last (-1 # forks as s)) (forks as s) @ filter (\<lambda>p. 0 < p) (forks bs k)"
proof -
  obtain pid where pid: "pid = last (-1 # forks as s)" by blast
  have x: "nd_vllm_pid (lf_node x) = pid" "nd_vllm_servers (lf_node x) = filter (\<lambda>p. 0 < p) (forks as s)"
    using run_vllm [OF assms(3)] assms(1,2,4) by (simp_all only: pid stage.simps append_Nil order_refl HOL.simp_thms)
  have k: "lf_pc k = Store_stopped" "lf_node k = terminate_vllm (lf_node x)" using assms(4,5) by auto
  have "nd_vllm_servers (lf_node k) = filter (\<lambda>p. 0 < p \<and> p \<noteq> pid) (forks as s)"
    by (cases "0 < pid") (auto simp: k(2) terminate_vllm_def x conj_commute intro!: filter_cong)
  with run_vllm [OF assms(6)] k(1) show ?thesis unfolding pid [symmetric] by simp
qed

text \<open>A node without a GPU whose queue holds three times the broadcast of an empty member list.\<close>

definition empty_broadcast :: event where
  "empty_broadcast = (3, sample_message\<lparr>msg_type := BROADCAST_MEMBER_INFO, msg_membership_list_info := []\<rparr>)"

definition cpu_node :: node where
  "cpu_node = (set_queue (eq_push_all (new_event_queue 4) (replicate 3 empty_broadcast))
     (new_node (decode_config\<lparr>cf_use_gpu := False\<rparr>) sample_node))\<lparr>nd_running := True\<rparr>"

definition forking :: "int \<Rightarrow> node_env" where
  "forking pid = (decode_env Vllm_failed)\<lparr>ne_fork := pid\<rparr>"

definition cpu_at :: "nat \<Rightarrow> node \<Rightarrow> bool" where
  "cpu_at j n \<longleftrightarrow> nd_config n = decode_config\<lparr>cf_use_gpu := False\<rparr> \<and> nd_running n
     \<and> eq_queue (ew_queue (nd_epoll n)) = replicate j empty_broadcast"

lemma cpu_work:
  assumes "cpu_at (Suc j) n" and "pc \<notin> {Clear_running, Down}"
  shows "\<exists>n'. life_act (Work (forking pid)) \<lparr>lf_node = n, lf_pc = pc\<rparr> = Some \<lparr>lf_node = n', lf_pc = pc\<rparr> \<and> cpu_at j n'"
    and "broadcast_now (Work (forking pid)) \<lparr>lf_node = n, lf_pc = pc\<rparr>"
    and "fork_now (Work (forking pid)) \<lparr>lf_node = n, lf_pc = pc\<rparr> = [pid]"
  using assms
  by (simp_all add: cpu_at_def empty_broadcast_def set_queue_def eq_pop_def node_process_event_def fork_of_def forking_def decode_env_def
      handle_broadcast_member_info_def is_broadcast_def set_qmaps_def send_orchestrator_def Let_def)

lemma cpu_node_at: "cpu_at 3 cpu_node" "nd_vllm_pid cpu_node = -1" "nd_vllm_servers cpu_node = []"
  by (simp_all add: cpu_at_def cpu_node_def set_queue_def new_node_def eq_push_def new_event_queue_def numeral_3_eq_3)

lemma mains_down: "\<exists>n'. life_run (replicate 9 (Main gpu)) \<lparr>lf_node = n, lf_pc = Store_stopped\<rparr> = Some \<lparr>lf_node = n', lf_pc = Down\<rparr>"
  by (simp add: numeral_eq_Suc)

lemma no_forks: "forks (replicate j (Main gpu)) x = []"
  by (induction j arbitrary: x) (simp_all split: option.split)

text \<open>Two broadcasts while the node is up, one right after the remembered server has been terminated: the node is down, and the
  first and the third of the servers run.\<close>

theorem vllm_outlives_shutdown_witness:
  "\<exists>x k y. life_run [Work (forking 7), Work (forking 8), Main False] \<lparr>lf_node = cpu_node, lf_pc = Up\<rparr> = Some x
     \<and> life_act (Main False) x = Some k
     \<and> life_run (Work (forking 9) # replicate 9 (Main False)) k = Some y \<and> lf_pc y = Down \<and> nd_vllm_servers (lf_node y) = [7, 9]"
proof -
  let ?s = "\<lparr>lf_node = cpu_node, lf_pc = Up\<rparr>" and ?as = "[Work (forking 7), Work (forking 8), Main False]"
    and ?bs = "Work (forking 9) # replicate 9 (Main False)"
  have three: "cpu_at (Suc 2) cpu_node" using cpu_node_at(1) by (simp add: numeral_3_eq_3 numeral_2_eq_2)
  obtain n1 where n1: "life_act (Work (forking 7)) ?s = Some \<lparr>lf_node = n1, lf_pc = Up\<rparr>" "cpu_at (Suc 1) n1"
    using cpu_work(1) [OF three, of Up 7] by (auto simp: numeral_2_eq_2)
  obtain n2 where n2: "life_act (Work (forking 8)) \<lparr>lf_node = n1, lf_pc = Up\<rparr> = Some \<lparr>lf_node = n2, lf_pc = Up\<rparr>" "cpu_at (Suc 0) n2"
    using cpu_work(1) [OF n1(2), of Up 8] by auto
  let ?x = "\<lparr>lf_node = n2, lf_pc = Kill_vllm\<rparr>" and ?k = "\<lparr>lf_node = terminate_vllm n2, lf_pc = Store_stopped\<rparr>"
  have x: "life_run ?as ?s = Some ?x" using n1(1) n2 by (simp add: cpu_at_def)
  have k: "life_act (Main False) ?x = Some ?k" by simp
  have "cpu_at (Suc 0) (terminate_vllm n2)" using n2(2) by (simp add: cpu_at_def)
  from cpu_work [OF this, of Store_stopped 9] obtain n3 where
    n3: "life_act (Work (forking 9)) ?k = Some \<lparr>lf_node = n3, lf_pc = Store_stopped\<rparr>" "fork_now (Work (forking 9)) ?k = [9]" by auto
  obtain n4 where n4: "life_run (replicate 9 (Main False)) \<lparr>lf_node = n3, lf_pc = Store_stopped\<rparr> = Some \<lparr>lf_node = n4, lf_pc = Down\<rparr>"
    using mains_down by blast
  have y: "life_run ?bs ?k = Some \<lparr>lf_node = n4, lf_pc = Down\<rparr>" unfolding life_run.simps(2) n3(1) option.case n4 ..
  have before: "forks ?as ?s = [7, 8]"
    using cpu_work(3) [OF three, of Up 7] cpu_work(3) [OF n1(2), of Up 8] n1(1) n2(1)
    by (simp del: fork_now.simps(1) life_act.simps(3))
  have after: "forks ?bs ?k = [9]" unfolding forks.simps(2) n3 option.case no_forks by simp
  have "nd_vllm_servers (lf_node \<lparr>lf_node = n4, lf_pc = Down\<rparr>) = [7, 9]"
    using vllm_outlives_shutdown [OF _ _ x _ k y, unfolded before after] cpu_node_at(2,3) by simp
  with x k y show ?thesis by (metis life.select_convs(2))
qed

text \<open>C29 (a broadcast before the last store is lost): the registration is queued before the node stores that it waits for the
  broadcast. A node that is up is \<open>RUNNING\<close> exactly when a broadcast was handled after that store; one handled before it leaves the
  node waiting for a broadcast that does not come again.\<close>

theorem running_after_store:
  assumes "lf_pc x = Store_waiting" and "life_act (Main gpu) x = Some k" and "life_run as k = Some y" and "lf_pc y = Up"
  shows "nd_state (lf_node y) = (if broadcast_handled as k then Node_RUNNING else Node_WAITING_FOR_BROADCAST)"
proof -
  have "2 \<le> stage (lf_pc k)" "nd_state (lf_node k) = Node_WAITING_FOR_BROADCAST" using assms(1,2) by auto
  with run_state [OF assms(3)] assms(4) show ?thesis by simp
qed

text \<open>The broadcast is handled while the main thread starts the polling thread; the node is up and waits for it.\<close>

theorem running_after_store_witness:
  "\<exists>x k y. life_act (Work (forking 7)) \<lparr>lf_node = cpu_node, lf_pc = Store_waiting\<rparr> = Some x
     \<and> broadcast_now (Work (forking 7)) \<lparr>lf_node = cpu_node, lf_pc = Store_waiting\<rparr>
     \<and> life_act (Main False) x = Some k \<and> life_run [Main False] k = Some y \<and> lf_pc y = Up \<and> nd_state (lf_node y) = Node_WAITING_FOR_BROADCAST"
proof -
  obtain n1 where n1: "life_act (Work (forking 7)) \<lparr>lf_node = cpu_node, lf_pc = Store_waiting\<rparr> = Some \<lparr>lf_node = n1, lf_pc = Store_waiting\<rparr>"
    and now: "broadcast_now (Work (forking 7)) \<lparr>lf_node = cpu_node, lf_pc = Store_waiting\<rparr>"
    using cpu_work(1,2) [of 2 cpu_node Store_waiting 7] cpu_node_at(1) by (auto simp: numeral_3_eq_3 numeral_2_eq_2)
  let ?k = "\<lparr>lf_node = n1\<lparr>nd_state := Node_WAITING_FOR_BROADCAST\<rparr>, lf_pc = Store_running\<rparr>"
  let ?y = "\<lparr>lf_node = n1\<lparr>nd_state := Node_WAITING_FOR_BROADCAST, nd_running := True\<rparr>, lf_pc = Up\<rparr>"
  have k: "life_act (Main False) \<lparr>lf_node = n1, lf_pc = Store_waiting\<rparr> = Some ?k" and y: "life_run [Main False] ?k = Some ?y" by simp_all
  have "\<not> broadcast_handled [Main False] ?k" by simp
  with running_after_store [OF _ k y] have "nd_state (lf_node ?y) = Node_WAITING_FOR_BROADCAST" by simp
  then show ?thesis using n1 now k y by fastforce
qed

end
