(* ===== verification/Spec2Isabelle.thy ===== *)
theory Spec2Isabelle
  imports OrchestratorProps NodeProps Connection TrackerSpec WireTyping VllmServer BenchmarkClient
    WorkerPool RouterThreads RegistrationThreads Relock Serving Lifetime Sockets EpollRun WriteRace Programs
    Diagnostics Bootstrap NodeLife
begin

text \<open>
  This development models the C++ control plane of a disaggregated LLM inference system, the sources under \<open>src/cpp\<close>, and
  states what its parts do.

  \<^bold>\<open>The program.\<close> An orchestrator accepts client requests, routes each to a prefill node and a decode node and reserves
  a slot of the decode node's staging buffer. The prefill node computes the KV cache of the prompt with a local vLLM server and
  writes it, layer by layer, by RDMA writes with immediate into that slot; the decode node counts the layers that arrive
  and, when all have, lets its own vLLM finish the request. All processes talk over TCP with length-prefixed messages; each runs one
  epoll thread that frames messages and a pool of worker threads that handles them, with a bounded event queue
  between the two. At start-up the nodes register with the orchestrator, receive the member list, pair up their queue pairs
  and report that they are ready.

  \<^bold>\<open>Theories and sources.\<close> In the order of their imports (source paths are below \<open>src/cpp\<close>):

  \<^item> \<open>Prelude\<close>: integer types, association lists as unordered containers.
  \<^item> \<open>Types\<close> (\<open>common/types.h\<close>, \<open>common/messages.h\<close>): messages and what they carry, as records; enumerations keep the
    bytes outside their enumerators.
  \<^item> \<open>Wire\<close>, \<open>WireTyping\<close> (\<open>common/messages.cpp\<close>): writers, readers, \<open>serialize_message\<close>, \<open>deserialize_message\<close>. The locales
    \<open>reader\<close>, \<open>codec\<close> and \<open>typed_reader\<close> are interpreted for every field type, up to whole messages.
  \<^item> \<open>EventQueue\<close> (\<open>nodes/event_queue.cpp\<close>): the bounded queue between I/O and workers, an interpretation of the
    locale \<open>bounded_queue\<close>.
  \<^item> \<open>Epoll\<close>, \<open>EpollLoop\<close> (\<open>nodes/epoll_worker_base.cpp\<close>, \<open>epoll_worker_orchestrator.cpp\<close>, \<open>epoll_worker_node.cpp\<close>):
    buffers and framing of one connection, reading, writing, dispatch, accepting and connecting.
  \<^item> \<open>EpollRun\<close> (\<open>EpollWorkerBase::run\<close>): the loop of an I/O thread over the answers of \<open>epoll_wait\<close>, with the responses that
    workers queue in between; \<open>WriteRace\<close>: \<open>handle_write\<close> cut where it releases the connections mutex, with responses queued at
    that point; \<open>Sockets\<close> (\<open>common/utils.cpp\<close>): the socket options and file status flags.
  \<^item> \<open>WorkerPool\<close> (\<open>nodes/worker_pool_base.cpp\<close>, \<open>worker_pool_node.cpp\<close>, \<open>worker_pool_orchestrator.cpp\<close>): starting and stopping a pool, and
    its threads as a transition system in which the condition variable, lost and spurious wakeups included, is explicit. Which
    handlers return is a parameter, a predicate on events.
  \<^item> \<open>Connection\<close> (\<open>common/connection.cpp\<close>, \<open>network/tcp_server.cpp\<close>): the blocking end of the same wire, and how it turns a
    host name or an address into one.
  \<^item> \<open>Config\<close> (\<open>common/config.cpp\<close>, \<open>common/utils.cpp\<close>): reading and validating a configuration, ids and hashes.
  \<^item> \<open>Registry\<close>, \<open>Router\<close>, \<open>Exchange\<close>, \<open>OrchTracker\<close> (\<open>apps/orchestrator/node_registry.cpp\<close>, \<open>request_router.cpp\<close>,
    \<open>rdma_exchange_tracker.cpp\<close>, \<open>request_tracker.cpp\<close>): the four tables of the orchestrator. The router's slot allocator is an
    interpretation of the locale \<open>slot_pool\<close>. \<open>RouterThreads\<close> cuts a routing call into its critical sections and interleaves any
    number of calls.
  \<^item> \<open>Orchestrator\<close>, \<open>OrchestratorProps\<close> (\<open>nodes/worker_orchestrator.cpp\<close>, \<open>apps/orchestrator/orchestrator_engine.cpp\<close>):
    the handlers over these tables, the invariant of every reachable state, and the outcome of each handler; \<open>Lifetime\<close>: what the
    orchestrator can admit over a whole run of the events that clients and nodes send; \<open>RegistrationThreads\<close> cuts the handler of a
    registration into its critical sections and interleaves any number of them; \<open>Relock\<close> says which runs make a
    handler lock a mutex its thread holds.
  \<^item> \<open>TrackerLayer\<close>, \<open>TrackerSpec\<close> (\<open>nodes/request_tracker_layer.cpp\<close>): the decode node's tracker of layers, slots and
    sequence numbers; \<open>TrackerSpec\<close> is its contract and the simulation that shows the code keeps it.
  \<^item> \<open>Verbs\<close>, \<open>RdmaEngine\<close> (\<open>rdma/gpudirect_rdma.cpp\<close>, \<open>rdma/rdma_engine.cpp\<close>): resources, queue pairs, writes and the receive
    side. \<open>DeviceProbe\<close> (\<open>rdma/device_probe.cpp\<close>): which device and port the engine ends up with on a given machine.
  \<^item> \<open>NodeWorker\<close>, \<open>NodeProps\<close> (\<open>nodes/worker_node.cpp\<close>, \<open>nodes/node.cpp\<close>): handlers and life of a prefill or decode node,
    the RDMA polling loop, and the runs that interleave the two. The locale \<open>tracker_invariant\<close> lifts an invariant of
    the layer tracker to every run of the node; it is interpreted for four of them. \<open>Serving\<close> joins the I/O thread, the queue and a
    worker of each process and follows one request from the client's bytes through all three processes; \<open>Bootstrap\<close> joins them for the
    cluster on its way up, from the start of the nodes to the running orchestrator. \<open>NodeLife\<close> takes \<open>Node::start\<close>, after the
    registration, and \<open>Node::shutdown\<close> statement by statement, between the I/O thread, the workers and the polling thread.
  \<^item> \<open>Bindings\<close> (\<open>bindings/rdma_bindings.cpp\<close>): the class behind the Python module, registration, writes and waits.
  \<^item> \<open>VllmServer\<close> (\<open>network/http_client.cpp\<close>, \<open>Node::start_vllm_server\<close>, \<open>nodes/node_accessor.cpp\<close>): posting to vLLM and
    starting it.
  \<^item> \<open>BenchmarkClient\<close> (\<open>apps/client/benchmark_client.cpp\<close>): the client the repository measures with.
  \<^item> \<open>Programs\<close> (\<open>common/logger.cpp\<close>, the three \<open>*_main.cpp\<close> and the command line of the client): the logger, arguments, signal handlers,
    exit codes, and the life of an engine or node from construction to shutdown; \<open>Diagnostics\<close> (\<open>rdma/gpudirect_rdma.cpp\<close>,
    \<open>rdma/device_probe.cpp\<close>): the text of a GID and the check of the configured GID index.
  \<^item> \<open>Spec2Isabelle\<close>: what spans the orchestrator and the nodes.

  \<^bold>\<open>How state and effects are modelled.\<close> A class is a record of its fields, a method a function that returns the updated
  record; a method that locks a mutex for its whole body is one atomic step. \<open>std::unordered_map\<close> is an association list in the (open)
  order of its iteration, \<open>std::map\<close> one in key order. Fixed-width integers are words; a C \<open>int\<close> is an \<open>int\<close>, in range where
  \<open>is_c_int\<close> says so. A call into the kernel, libibverbs, CUDA, libcurl, yaml-cpp or vLLM is an argument: what it
  answers is chosen by the caller of the definition, so that a theorem covers every answer; what the call is asked to do is
  recorded (descriptors closed, requests posted, bytes sent) where it matters. Clock readings, random draws and memory the code
  leaves uninitialised are arguments too. An exception that ends a process is the outcome \<open>Terminated\<close>, every other
  error is the value the code returns. Locking a mutex that the thread holds is undefined; it is the outcome \<open>Relocked\<close>, at which
  a run ends (with libstdc++ on Linux \<open>std::shared_mutex\<close> throws, which ends the process). The vLLM servers of a node are the process
  ids \<open>fork\<close> returned and that have not been terminated; a terminated server is taken to end. Threads are interleavings of atomic steps: of waits, wakeups, handlers and \<open>stop()\<close> in
  \<open>WorkerPool\<close>, of the critical sections of routing calls in \<open>RouterThreads\<close> and of registrations in \<open>RegistrationThreads\<close>, of socket events and queued responses in \<open>EpollRun\<close>, of
  queued events and polling turns in \<open>NodeProps\<close>, of these and the statements of the main thread in \<open>NodeLife\<close>, of the two halves of a write
  in \<open>WriteRace\<close>, of whole handlers in \<open>Orchestrator\<close>.

  \<^bold>\<open>Loops and their bounds.\<close> Loops over data are structural recursions or, in \<open>parse_messages\<close> and \<open>show_nat\<close>, recursions on
  a measure. A loop around a system call runs over a script of the call's answers and is \<open>None\<close> when it is still running at the end
  of the script: no fuel is chosen, and the theorems that promise a result say for which scripts there is one.
  The wait of \<open>Bindings\<close> is shown never to end after a few writes. A loop of threads is a transition system: the theorems on
  pools and routing calls bound the steps of every schedule by a measure of the state.

  \<^bold>\<open>What is proved.\<close> Messages survive the wire, truncated ones are refused and every accepted one is well formed
  (\<open>Wire\<close>, \<open>WireTyping\<close>); streams are received and sent whole whatever the chunks (\<open>EpollLoop\<close>, \<open>Connection\<close>); the queue
  is first-in-first-out (\<open>EventQueue\<close>), its pool loses no event and no wakeup and stops when asked to, as far as the handlers return (\<open>WorkerPool\<close>), and one connection cannot
  disturb another (\<open>EpollRun\<close>); slots are partitioned between free and used, selection follows the policy, and no handler breaks the
  invariant of the orchestrator's tables (\<open>Router\<close>, \<open>Orchestrator\<close>), nor does any interleaving of routing calls give one slot to two
  requests (\<open>RouterThreads\<close>), nor any interleaving of registrations lose a node (\<open>RegistrationThreads\<close>); a cluster comes up whatever the
  order in which its nodes report (\<open>Bootstrap\<close>), a request reaches both nodes and comes back to the orchestrator (\<open>Serving\<close>), and a node that
  is down has stopped everything but the vLLM servers it forgot or that were started too late (\<open>NodeLife\<close>); each handler has its outcome on every branch
  (\<open>OrchestratorProps\<close>, \<open>NodeProps\<close>); the layer tracker implements its contract, resolves live sequence numbers and keeps every layer inside
  its buffer (\<open>TrackerLayer\<close>, \<open>TrackerSpec\<close>); the bounds check of a write is stated with what it compares, this node's own
  buffer size and a sum that may wrap (\<open>RdmaEngine\<close>), and the engine announces the best port it may use (\<open>DeviceProbe\<close>), although its queue
  pairs use the configured one. Where the code does not do what it is for, a theorem says exactly what it does instead:
  for example that no write of a peer completes a transfer, because the receiver reads the immediate in the wrong byte order,
  while the same transfer in host order completes once unless the device fails or the queue is full.

  \<^bold>\<open>Not modelled.\<close> The pybind11 declarations; the Python connector, scripts and build files. Inside modelled parts: the memory
  model below a mutex or an atomic (every step is sequentially consistent), sleeping, the sending of the same message by two
  threads at once, and most printed text. The handlers of the orchestrator other than routing and registration run as one step
  each, and so does a handler inside \<open>WorkerPool\<close> and \<open>NodeLife\<close>, and \<open>handle_write\<close> everywhere but in \<open>WriteRace\<close>.
\<close>

section \<open>Orchestrator and decode node\<close>

lemma slot_offset_default: "slot_offset default_slot_config slot = word_of_int slot * 4294967296"
  by (simp add: slot_offset_def default_slot_config_def get_request_size_mb_def)

text \<open>C7 The orchestrator and a decode node agree on where a slot is exactly if the node's configured layers take 4096 MB per
  request, for configurations in which the sizes in bytes do not leave 64 bits and the number of layers not 31: the orchestrator computes the offset it hands to the prefill node from its built-in slot configuration, the
  decode node from its file.\<close>

theorem slot_offsets_agree_iff:
  assumes "uint (cf_num_layers c) * uint (mc_layer_size_mb (cf_memory c)) < 2 ^ 44" and "uint (cf_num_layers c) < 2 ^ 31"
    and "uint (mc_layer_size_mb (cf_memory c)) < 2 ^ 44"
  shows "(\<forall>slot. slot_offset default_slot_config slot = get_slot_base_offset (node_layout c) slot)
    \<longleftrightarrow> uint (cf_num_layers c) * uint (mc_layer_size_mb (cf_memory c)) = 4096"
proof -
  let ?l = "uint (cf_num_layers c)" and ?s = "uint (mc_layer_size_mb (cf_memory c))"
  have "- (2 ^ 31) \<le> ?l" by (rule order_trans [of _ 0]) simp_all
  then have sl: "sint (cf_num_layers c) = ?l"
    using assms(2) signed_take_bit_int_eq_self [of 31 ?l] by (simp add: sint_uint)
  obtain P where P: "P = ?l * ?s * 1048576" by blast
  have "get_request_size (node_layout c) = word_of_int (?l * (?s * 1048576))"
    using uint_mb [OF assms(3)] by (simp add: get_request_size_def node_layout_def sl)
  then have size: "get_request_size (node_layout c) = word_of_int P" by (simp only: P mult.assoc)
  have "0 \<le> P" "P < 2 ^ 64" using assms(1) by (simp_all add: P)
  then have "uint (word_of_int P :: u64) = P" by (simp add: unsigned_of_int take_bit_int_eq_self)
  then have "get_request_size (node_layout c) = 4294967296 \<longleftrightarrow> P = 4294967296"
    unfolding size word_uint_eq_iff [of "word_of_int P"] by simp
  then have "get_request_size (node_layout c) = 4294967296 \<longleftrightarrow> ?l * ?s * 1048576 = 4294967296" by (simp only: P)
  moreover have "?l * ?s * 1048576 = 4294967296 \<longleftrightarrow> ?l * ?s = 4096" by linarith
  moreover have "(\<forall>slot. slot_offset default_slot_config slot = get_slot_base_offset (node_layout c) slot)
      \<longleftrightarrow> get_request_size (node_layout c) = 4294967296"
  proof
    assume "\<forall>slot. slot_offset default_slot_config slot = get_slot_base_offset (node_layout c) slot"
    then have "slot_offset default_slot_config 1 = get_slot_base_offset (node_layout c) 1" by blast
    then show "get_request_size (node_layout c) = 4294967296" by (simp add: slot_offset_default get_slot_base_offset_def)
  qed (simp add: slot_offset_default get_slot_base_offset_def)
  ultimately show ?thesis by blast
qed

text \<open>With the default 12 layers of 128 MB they disagree.\<close>

theorem slot_offsets_agree_iff_witness:
  "\<exists>c. config_from_file yaml_tree (0, 0) (Some sample_yaml) = Inr c
     \<and> \<not> (\<forall>slot. slot_offset default_slot_config slot = get_slot_base_offset (node_layout c) slot)"
proof -
  obtain c where c: "config_from_file yaml_tree (0, 0) (Some sample_yaml) = Inr c"
    and m: "cf_num_layers c = 12" "cf_memory c = default_memory_config\<lparr>mc_required_mb := 12288\<rparr>"
    using sample_yaml_config by blast
  have "uint (cf_num_layers c) = 12" "uint (mc_layer_size_mb (cf_memory c)) = 128" by (simp_all add: m default_memory_config_def)
  then show ?thesis using slot_offsets_agree_iff [of c] c by auto
qed

text \<open>C4 A finished decode never reaches the client: whatever the decode node does when the cache of a request has arrived, it leaves its
  connection alone or sends one message, and the orchestrator, in any state, drops that message: it only counts the event.\<close>

theorem decode_end_is_lost:
  assumes "msg_type m = KV_TRANSFER_COMPLETE" and "node_process_event e (fd, m) n = Returns n'"
  shows "nd_epoll n' = nd_epoll n
    \<or> (\<exists>msg. nd_epoll n' = enqueue_response (nd_orchestrator_fd n) msg (nd_epoll n)
         \<and> (\<forall>env cfd s. orch_process_event env (cfd, msg) s
              = Done (s\<lparr>oc_events_processed := oc_events_processed s + 1\<rparr>)))"
proof -
  have drop: "orch_process_event env (cfd, msg) s = Done (s\<lparr>oc_events_processed := oc_events_processed s + 1\<rparr>)"
    if "msg_type msg = DECODE_COMPLETE" for env cfd msg s
    using that by (simp add: orch_process_event_def)
  show ?thesis
    using assms drop
    by (auto simp: node_process_event_def handle_kv_transfer_complete_def send_orchestrator_def on_layers_def decode_complete_def Let_def
        split: option.splits vllm_answer.splits)
qed

theorem decode_end_is_lost_witness:
  "\<exists>n'. node_process_event (decode_env (Vllm_ok ''hi'')) (kv_event ''r'') prepared_node = Returns n'
     \<and> (nd_epoll n' = nd_epoll prepared_node
         \<or> (\<exists>msg. nd_epoll n' = enqueue_response (nd_orchestrator_fd prepared_node) msg (nd_epoll prepared_node)
              \<and> orch_process_event sample_env (3, msg) sample_orch
                  = Done (sample_orch\<lparr>oc_events_processed := oc_events_processed sample_orch + 1\<rparr>)))"
proof -
  obtain i where i: "lt_find (nd_tracker prepared_node) ''r'' = Some i" using prepared_node_run(2) by blast
  obtain fd m where ev: "kv_event ''r'' = (fd, m)" "msg_type m = KV_TRANSFER_COMPLETE" "ri_request_id (msg_request_info m) = ''r''"
    by (simp add: kv_event_def)
  then obtain n' where n': "node_process_event (decode_env (Vllm_ok ''hi'')) (fd, m) prepared_node = Returns n'"
    using i by (simp add: node_process_event_def handle_kv_transfer_complete_def decode_env_def lt_get_request_def Let_def)
  from decode_end_is_lost [OF ev(2) n'] n' show ?thesis unfolding ev(1) by blast
qed

end
